(* ===== verification/Prelude.thy ===== *)
theory Prelude
  imports Main "HOL-Library.List_Lexorder" "HOL-Library.Char_ord" "HOL-Library.Multiset"
begin

text \<open>
  Vocabulary shared by every component of the mempool observer: the names of the
  basic types, the Rust integer casts written out as bit truncations, the batching of
  \<open>slice::chunks\<close>, the iteration order of hash containers, and the generic list, map
  and option lemmas the component theories use.
\<close>

section \<open>Types\<close>

text \<open>
  A txid is the hexadecimal string the node reports. Cluster ids are the \<open>i64\<close> keys of
  the \<open>clusters\<close> table. Instants are nanoseconds since the Unix epoch, an unbounded integer.
\<close>

type_synonym txid = string
type_synonym cluster_id = int
type_synonym instant = int
type_synonym ('e, 'a) result = "'e + 'a"

named_theorems cast_simps \<open>facts about the Rust integer casts\<close>
named_theorems iter_simps \<open>facts about the iteration order of hash containers\<close>

section \<open>Integer casts\<close>

text \<open>\<open>as i64\<close>, \<open>as u64\<close>, \<open>as i32\<close>, \<open>as u32\<close> and \<open>as i16\<close>: truncation to the width, read
  as two's complement for the signed types.\<close>

definition i64_of :: "int \<Rightarrow> int" where
  "i64_of x = signed_take_bit 63 x"

definition u64_of :: "int \<Rightarrow> int" where
  "u64_of x = take_bit 64 x"

definition i32_of :: "int \<Rightarrow> int" where
  "i32_of x = signed_take_bit 31 x"

definition u32_of :: "int \<Rightarrow> int" where
  "u32_of x = take_bit 32 x"

definition i16_of :: "int \<Rightarrow> int" where
  "i16_of x = signed_take_bit 15 x"

definition is_u64 :: "int \<Rightarrow> bool" where
  "is_u64 x \<longleftrightarrow> 0 \<le> x \<and> x < 2 ^ 64"

definition is_i64 :: "int \<Rightarrow> bool" where
  "is_i64 x \<longleftrightarrow> - (2 ^ 63) \<le> x \<and> x < 2 ^ 63"

definition is_u32 :: "int \<Rightarrow> bool" where
  "is_u32 x \<longleftrightarrow> 0 \<le> x \<and> x < 2 ^ 32"

lemma i64_of_id [cast_simps]: "is_i64 x \<Longrightarrow> i64_of x = x"
  unfolding is_i64_def i64_of_def
  by (rule signed_take_bit_int_eq_self) simp_all

lemma u64_of_id [cast_simps]: "is_u64 x \<Longrightarrow> u64_of x = x"
  unfolding is_u64_def u64_of_def by (rule take_bit_int_eq_self) simp_all

lemma is_i64_i64_of [cast_simps]: "is_i64 (i64_of x)"
  unfolding is_i64_def i64_of_def
  using signed_take_bit_int_greater_eq_minus_exp [of 63 x] signed_take_bit_int_less_exp [of 63 x]
  by simp

lemma is_u64_u64_of [cast_simps]: "is_u64 (u64_of x)"
  unfolding is_u64_def u64_of_def using take_bit_int_less_exp [of 64 x] by simp

text \<open>Storing a \<open>u64\<close> in a signed column and reading it back with a second cast loses nothing.\<close>

lemma u64_of_i64_of [cast_simps]: "u64_of (i64_of x) = u64_of x"
proof -
  have "take_bit 64 (signed_take_bit 63 x) = take_bit 64 x"
    by (rule bit_eqI) (auto simp: bit_take_bit_iff bit_signed_take_bit_iff min_def le_eq_less_or_eq
        less_Suc_eq numeral_eq_Suc)
  then show ?thesis
    by (simp add: u64_of_def i64_of_def)
qed

lemma u64_roundtrip [cast_simps]: "is_u64 x \<Longrightarrow> u64_of (i64_of x) = x"
  by (simp add: u64_of_i64_of u64_of_id)

lemma i64_of_add: "i64_of (i64_of x + y) = i64_of (x + y)"
  unfolding i64_of_def by (metis signed_take_bit_add signed_take_bit_signed_take_bit min.idem)

text \<open>A chain of wrapping \<open>i64\<close> additions.\<close>

definition i64_sum :: "int list \<Rightarrow> int" where
  "i64_sum xs = foldl (\<lambda>acc x. i64_of (acc + x)) 0 xs"

lemma foldl_i64: "foldl (\<lambda>acc x. i64_of (acc + x)) (i64_of a) xs = i64_of (a + sum_list xs)"
  by (induction xs arbitrary: a) (simp_all add: i64_of_add add.assoc)

lemma i64_sum_eq: "i64_sum xs = i64_of (sum_list xs)"
proof -
  have "i64_of 0 = 0"
    by (simp add: i64_of_def)
  then show ?thesis
    using foldl_i64 [of 0 xs] by (simp add: i64_sum_def)
qed

section \<open>Batches\<close>

text \<open>\<open>slice::chunks(n)\<close>: consecutive pieces of \<open>n\<close> elements, the last one shorter. It
  panics for \<open>n = 0\<close>; the code only calls it with constants, so the model's \<open>n\<close> is positive
  wherever it is used.\<close>

function chunks_of :: "nat \<Rightarrow> 'a list \<Rightarrow> 'a list list" where
  "chunks_of n xs = (if xs = [] \<or> n = 0 then [] else take n xs # chunks_of n (drop n xs))"
  by pat_completeness auto
termination
  by (relation "measure (\<lambda>(n, xs). length xs)") auto

declare chunks_of.simps [simp del]

lemma chunks_of_Nil [simp]: "chunks_of n [] = []"
  by (simp add: chunks_of.simps)

lemma chunks_of_step: "xs \<noteq> [] \<Longrightarrow> 0 < n \<Longrightarrow> chunks_of n xs = take n xs # chunks_of n (drop n xs)"
  by (subst chunks_of.simps) simp

lemma concat_chunks_of [simp]: "0 < n \<Longrightarrow> concat (chunks_of n xs) = xs"
  by (induction n xs rule: chunks_of.induct) (subst chunks_of.simps, auto)

lemma chunks_of_bound: "b \<in> set (chunks_of n xs) \<Longrightarrow> 0 < length b \<and> length b \<le> n"
proof (induction n xs rule: chunks_of.induct)
  case (1 n xs)
  show ?case
  proof (cases "xs = [] \<or> n = 0")
    case True
    then show ?thesis
      using "1.prems" by (simp add: chunks_of.simps)
  next
    case False
    then have "b = take n xs \<or> b \<in> set (chunks_of n (drop n xs))"
      using "1.prems" by (simp add: chunks_of_step)
    then show ?thesis
      using False "1.IH" by (auto simp: min_def)
  qed
qed

lemma chunks_of_all_but_last_full:
  "b \<in> set (butlast (chunks_of n xs)) \<Longrightarrow> length b = n"
proof (induction n xs rule: chunks_of.induct)
  case (1 n xs)
  show ?case
  proof (cases "xs = [] \<or> n = 0 \<or> drop n xs = []")
    case True
    then show ?thesis
      using "1.prems" by (subst (asm) chunks_of.simps) (auto split: if_splits)
  next
    case False
    then have "b = take n xs \<or> b \<in> set (butlast (chunks_of n (drop n xs)))"
      using "1.prems" by (auto simp: chunks_of_step [of xs] chunks_of_step [of "drop n xs"] split: if_splits)
    then show ?thesis
      using False "1.IH" by auto
  qed
qed

lemma chunks_of_prefix:
  assumes "0 < n" "j < length (chunks_of n xs)"
  shows "length (concat (take j (chunks_of n xs))) = j * n" "j * n < length xs"
proof -
  have "length (concat (take j (chunks_of n xs))) = j * n \<and> j * n < length xs"
    using assms
  proof (induction j arbitrary: xs)
    case 0
    then show ?case by (auto simp: chunks_of.simps [of n xs])
  next
    case (Suc j)
    then have xs: "xs \<noteq> []"
      by (auto simp: chunks_of.simps [of n xs])
    then have next_chunk: "chunks_of n xs = take n xs # chunks_of n (drop n xs)"
      using Suc.prems(1) by (rule chunks_of_step)
    then have IH: "length (concat (take j (chunks_of n (drop n xs)))) = j * n" "j * n < length (drop n xs)"
      using Suc.IH [of "drop n xs"] Suc.prems by simp_all
    then show ?case
      by (simp add: next_chunk)
  qed
  then show "length (concat (take j (chunks_of n xs))) = j * n" "j * n < length xs"
    by blast+
qed

lemma chunks_of_map: "chunks_of n (map f xs) = map (map f) (chunks_of n xs)"
proof (induction n xs rule: chunks_of.induct)
  case (1 n xs)
  show ?case
  proof (cases "xs = [] \<or> n = 0")
    case True
    then show ?thesis
      by (simp add: chunks_of.simps)
  next
    case False
    with 1 show ?thesis
      by (simp add: chunks_of_step take_map drop_map)
  qed
qed

lemma length_chunks_of_map [simp]: "length (chunks_of n (map f xs)) = length (chunks_of n xs)"
  by (simp add: chunks_of_map)

section \<open>Hash containers\<close>

text \<open>The order in which a \<open>HashSet\<close> or the keys of a \<open>HashMap\<close> are iterated is unspecified:
  the definitions take it as a function from the finite set of keys to a list of them, and
  the properties hold for every such function.\<close>

definition iterates :: "('a set \<Rightarrow> 'a list) \<Rightarrow> bool" where
  "iterates it \<longleftrightarrow> (\<forall>S. finite S \<longrightarrow> set (it S) = S \<and> distinct (it S))"

lemma iterates_set [iter_simps]: "iterates it \<Longrightarrow> finite S \<Longrightarrow> set (it S) = S"
  by (simp add: iterates_def)

lemma iterates_distinct [iter_simps]: "iterates it \<Longrightarrow> finite S \<Longrightarrow> distinct (it S)"
  by (simp add: iterates_def)

lemma iterates_length: "iterates it \<Longrightarrow> finite S \<Longrightarrow> length (it S) = card S"
  by (metis distinct_card iterates_distinct iterates_set)

lemma iterates_sorted: "iterates (sorted_list_of_set :: 'a::linorder set \<Rightarrow> 'a list)"
  by (simp add: iterates_def)

section \<open>Lists and maps\<close>

lemma sum_list_filter_split:
  fixes f :: "'a \<Rightarrow> 'b::comm_monoid_add"
  shows "sum_list (map f (filter P xs)) + sum_list (map f (filter (\<lambda>x. \<not> P x) xs)) = sum_list (map f xs)"
  by (induction xs) (simp_all add: ac_simps)

lemma sorted_map_filter_split:
  fixes f :: "'a \<Rightarrow> 'b::linorder"
  shows "sorted (map f xs) \<Longrightarrow> xs = filter (\<lambda>x. \<not> c \<le> f x) xs @ filter (\<lambda>x. c \<le> f x) xs"
proof (induction xs)
  case (Cons x xs)
  show ?case
  proof (cases "c \<le> f x")
    case True
    then have "\<forall>y\<in>set xs. c \<le> f y"
      using Cons.prems by auto
    with True show ?thesis
      by (simp add: filter_id_conv filter_empty_conv)
  next
    case False
    with Cons show ?thesis
      by simp
  qed
qed simp

lemma distinct_map_filter_key: "distinct (map f xs) \<Longrightarrow> distinct (map f (filter P xs))"
  by (rule distinct_map_filter)

lemma map_of_filter_key:
  "map_of (filter (\<lambda>p. fst p \<notin> A) xs) k = (if k \<in> A then None else map_of xs k)"
  by (induction xs) auto

end
