(* ===== verification/Models.thy ===== *)
theory Models
  imports Prelude
begin

text \<open>
  The data of \<open>shared/src/models.rs\<close> and \<open>shared/src/events.rs\<close>: what the node retrievers
  return, and what the services publish. A struct is a record whose fields carry a prefix,
  an \<open>f64\<close> that is only copied is its 64-bit pattern. The response types of the RPC client
  library are read through the accessors the code calls, which are parameters here.
\<close>

type_synonym f64 = int

datatype DeltaDirection = Add | Remove

text \<open>The error type of the node clients (\<open>observer/src/error.rs\<close>) with its messages.\<close>

datatype ObserverError =
    FailedToConnect string
  | FailedToFetch string
  | InvalidParams string
  | InvalidZmqMessage string
  | TxNotFoundInMempool string
  | ObserverOther string

definition observer_error_display :: "ObserverError \<Rightarrow> string" where
  "observer_error_display e =
    (case e of
       FailedToConnect msg \<Rightarrow> ''Failed to connect: '' @ msg
     | FailedToFetch msg \<Rightarrow> ''Failed to fetch: '' @ msg
     | InvalidParams msg \<Rightarrow> ''Invalid parameters: '' @ msg
     | InvalidZmqMessage msg \<Rightarrow> ''Invalid ZMQ message: '' @ msg
     | TxNotFoundInMempool msg \<Rightarrow> ''Transaction not found in mempool: '' @ msg
     | ObserverOther msg \<Rightarrow> ''Other error: '' @ msg)"

section \<open>Clusters\<close>

record ClusterChunk =
  ck_txids :: "txid list"
  ck_fee_sats :: int
  ck_weight :: int

record GetMempoolClusterModel =
  mc_cluster_weight :: int
  mc_tx_count :: int
  mc_chunks :: "ClusterChunk list"

definition mc_txids :: "GetMempoolClusterModel \<Rightarrow> txid list" where
  "mc_txids m = concat (map ck_txids (mc_chunks m))"

definition mc_total_fee_sats :: "GetMempoolClusterModel \<Rightarrow> int" where
  "mc_total_fee_sats m = u64_of (sum_list (map ck_fee_sats (mc_chunks m)))"

text \<open>One chunk and one cluster of the library's parsed answer, with amounts already in
  satoshis and ids already printed; \<open>into_model\<close> is the library's fallible parser.\<close>

record MempoolClusterChunk =
  lib_txs :: "txid list"
  lib_chunk_fee :: int
  lib_chunk_weight :: int

record MempoolCluster =
  lib_cluster_weight :: int
  lib_tx_count :: int
  lib_chunks :: "MempoolClusterChunk list"

definition cluster_try_from ::
  "('r \<Rightarrow> ('e, MempoolCluster) result) \<Rightarrow> 'r \<Rightarrow> ('e, GetMempoolClusterModel) result" where
  "cluster_try_from into_model response =
    (case into_model response of
       Inl e \<Rightarrow> Inl e
     | Inr cluster \<Rightarrow> Inr \<lparr>mc_cluster_weight = lib_cluster_weight cluster,
         mc_tx_count = u32_of (lib_tx_count cluster),
         mc_chunks = map (\<lambda>chunk. \<lparr>ck_txids = lib_txs chunk, ck_fee_sats = lib_chunk_fee chunk,
           ck_weight = lib_chunk_weight chunk\<rparr>) (lib_chunks cluster)\<rparr>)"

text \<open>The fee of a point is a non-negative number of satoshis, cast to \<open>i64\<close>; the first
  unparseable point fails the whole answer.\<close>

record FeerateDiagramPoint =
  fp_weight :: int
  fp_fee_sats :: int

definition feerate_diagram_points ::
  "('r \<Rightarrow> ('e, (int \<times> int) list) result) \<Rightarrow> 'r \<Rightarrow> ('e, FeerateDiagramPoint list) result" where
  "feerate_diagram_points into_model response =
    (case into_model response of
       Inl e \<Rightarrow> Inl e
     | Inr points \<Rightarrow> Inr (map (\<lambda>(weight, fee). \<lparr>fp_weight = weight, fp_fee_sats = i64_of fee\<rparr>) points))"

section \<open>Weights\<close>

text \<open>\<open>Weight::to_vbytes_ceil\<close> belongs to the bitcoin library: it is the parameter \<open>vb\<close>, and
  \<open>vbytes_ceil\<close> states its documented behaviour.\<close>

definition vsize_from_weight :: "(int \<Rightarrow> int) \<Rightarrow> int \<Rightarrow> int" where
  "vsize_from_weight vb weight = i64_of (vb (u64_of weight))"

definition vbytes_ceil :: "(int \<Rightarrow> int) \<Rightarrow> bool" where
  "vbytes_ceil vb \<longleftrightarrow> (\<forall>w. is_u64 w \<longrightarrow> vb w = (w + 3) div 4)"

section \<open>Mempool entries, transactions and blocks\<close>

record LibMempoolEntry =
  me_fee_base :: int
  me_vsize :: "int option"
  me_weight :: "int option"
  me_ancestor_count :: int
  me_descendant_count :: int
  me_time :: int
  me_height :: int

record MempoolEntrySummary =
  es_txid :: txid
  es_fee_in_sats :: int
  es_vsize :: int
  es_weight :: int
  es_ancestor_count :: int
  es_descendant_count :: int
  es_time :: int
  es_height :: int

definition unwrap_or :: "'a option \<Rightarrow> 'a \<Rightarrow> 'a" where
  "unwrap_or o' d = (case o' of Some x \<Rightarrow> x | None \<Rightarrow> d)"

definition entry_summary_new :: "txid \<Rightarrow> LibMempoolEntry \<Rightarrow> MempoolEntrySummary" where
  "entry_summary_new txid entry =
    \<lparr>es_txid = txid, es_fee_in_sats = me_fee_base entry, es_vsize = unwrap_or (me_vsize entry) 0,
     es_weight = unwrap_or (me_weight entry) 0, es_ancestor_count = me_ancestor_count entry,
     es_descendant_count = me_descendant_count entry, es_time = me_time entry,
     es_height = me_height entry\<rparr>"

definition raw_mempool_from :: "(txid \<times> LibMempoolEntry) list \<Rightarrow> MempoolEntrySummary list" where
  "raw_mempool_from response = map (\<lambda>(txid, entry). entry_summary_new txid entry) response"

record BlockTxSummary =
  bt_txid :: txid
  bt_vsize :: int
  bt_weight :: int
  bt_fee_sats :: int
  bt_input_txids :: "txid list"

record GetBlockModel =
  bk_hash :: string
  bk_height :: int
  bk_mined_at :: instant
  bk_size :: int
  bk_difficulty :: f64
  bk_txs :: "BlockTxSummary list"

definition bk_tx_count :: "GetBlockModel \<Rightarrow> int" where
  "bk_tx_count b = i64_of (int (length (bk_txs b)))"

definition bk_total_fee_sats :: "GetBlockModel \<Rightarrow> int" where
  "bk_total_fee_sats b = i64_sum (map bt_fee_sats (bk_txs b))"

text \<open>An input carries no txid exactly when it is a coinbase input.\<close>

definition parent_txids :: "txid option list \<Rightarrow> txid list" where
  "parent_txids inputs = List.map_filter (\<lambda>input. input) inputs"

record LibBlockTx =
  lbt_txid :: txid
  lbt_vsize :: int
  lbt_weight :: int
  lbt_fee :: "f64 option"
  lbt_inputs :: "txid option list"

record LibBlock =
  lb_hash :: string
  lb_height :: int
  lb_time :: int
  lb_size :: int
  lb_difficulty :: f64
  lb_tx :: "LibBlockTx list"

text \<open>\<open>from_btc\<close> is \<open>Amount::from_btc(..).ok()\<close> in satoshis, \<open>from_unix\<close> is
  \<open>OffsetDateTime::from_unix_timestamp(..).ok()\<close>.\<close>

definition block_from ::
  "(f64 \<Rightarrow> int option) \<Rightarrow> (int \<Rightarrow> instant option) \<Rightarrow> instant \<Rightarrow> LibBlock \<Rightarrow> GetBlockModel" where
  "block_from from_btc from_unix now response =
    \<lparr>bk_hash = lb_hash response, bk_height = lb_height response,
     bk_mined_at = unwrap_or (from_unix (lb_time response)) now,
     bk_size = lb_size response, bk_difficulty = lb_difficulty response,
     bk_txs = map (\<lambda>tx. \<lparr>bt_txid = lbt_txid tx, bt_vsize = i64_of (lbt_vsize tx),
       bt_weight = i64_of (lbt_weight tx),
       bt_fee_sats = unwrap_or (map_option i64_of (Option.bind (lbt_fee tx) from_btc)) 0,
       bt_input_txids = parent_txids (lbt_inputs tx)\<rparr>) (lb_tx response)\<rparr>"

record GetRawTransactionModel =
  rt_txid :: txid
  rt_version :: int
  rt_lock_time :: int
  rt_vsize :: int
  rt_weight :: int
  rt_input_count :: int
  rt_input_txids :: "txid list"
  rt_output_count :: int
  rt_confirmations :: int
  rt_time :: "instant option"

record LibRawTransaction =
  lrt_txid :: txid
  lrt_version :: int
  lrt_lock_time :: int
  lrt_vsize :: int
  lrt_weight :: int
  lrt_inputs :: "txid option list"
  lrt_output_count :: nat
  lrt_confirmations :: "int option"
  lrt_transaction_time :: "int option"

definition raw_transaction_from ::
  "(int \<Rightarrow> instant option) \<Rightarrow> LibRawTransaction \<Rightarrow> GetRawTransactionModel" where
  "raw_transaction_from from_unix response =
    \<lparr>rt_txid = lrt_txid response, rt_version = lrt_version response,
     rt_lock_time = lrt_lock_time response, rt_vsize = u32_of (lrt_vsize response),
     rt_weight = lrt_weight response,
     rt_input_count = u32_of (int (length (lrt_inputs response))),
     rt_input_txids = parent_txids (lrt_inputs response),
     rt_output_count = u32_of (int (lrt_output_count response)),
     rt_confirmations = unwrap_or (lrt_confirmations response) 0,
     rt_time = Option.bind (lrt_transaction_time response) (\<lambda>secs. from_unix (i64_of secs))\<rparr>"

record GetBlockchainInfoModel =
  bi_blocks :: int
  bi_headers :: int
  bi_verification_progress :: f64
  bi_initial_block_download :: bool

section \<open>Events\<close>

record MempoolDeltaEvent =
  md_added :: "txid list"
  md_removed :: "txid list"

record ClusterChunkRef =
  kr_txids :: "txid list"
  kr_fee :: int
  kr_vsize :: int

record ClusterRef =
  rf_id :: cluster_id
  rf_chunks :: "ClusterChunkRef list"
  rf_total_vsize :: int
  rf_total_fee :: int
  rf_first_seen_at :: instant

record ClusterDeltaEvent =
  cd_upserted :: "ClusterRef list"
  cd_removed :: "cluster_id list"

record NewBlockInfoEvent =
  nb_height :: int
  nb_mined_at :: instant

datatype NodeStatusEvent =
    Reachable int int f64 bool
  | Unreachable string

definition node_status_reachable :: "GetBlockchainInfoModel \<Rightarrow> NodeStatusEvent" where
  "node_status_reachable info = Reachable (bi_blocks info) (bi_headers info)
     (bi_verification_progress info) (bi_initial_block_download info)"

section \<open>Facts\<close>

lemma parent_txids_set: "set (parent_txids inputs) = {t. Some t \<in> set inputs}"
  by (force simp: parent_txids_def List.map_filter_def image_iff)

lemma length_parent_txids: "length (parent_txids inputs) = length (filter (\<lambda>i. i \<noteq> None) inputs)"
  by (simp add: parent_txids_def List.map_filter_def)

lemma vsize_bounds:
  assumes "vbytes_ceil vb" and "0 \<le> w" and "is_i64 w"
  shows "vsize_from_weight vb w = (w + 3) div 4"
    and "w \<le> 4 * vsize_from_weight vb w" and "4 * vsize_from_weight vb w < w + 4"
proof -
  have u: "is_u64 w" and i: "is_i64 ((w + 3) div 4)"
    using assms by (auto simp: is_u64_def is_i64_def)
  then show "vsize_from_weight vb w = (w + 3) div 4"
    using assms(1) by (simp add: vsize_from_weight_def vbytes_ceil_def u64_of_id i64_of_id)
  then show "w \<le> 4 * vsize_from_weight vb w" "4 * vsize_from_weight vb w < w + 4"
    by linarith+
qed

end
