(* ===== verification/Residency.thy ===== *)
theory Residency
  imports Models
begin

text \<open>
  A residency log: records that each move one txid into or out of a set. The journal of the
  ledger and the rows of \<open>mempool_deltas\<close> are both such logs, each folded by its own piece of
  code; the lemmas on what a fold leaves are proved once here.
\<close>

locale residency_log =
  fixes key :: "'e \<Rightarrow> txid"
    and adds :: "'e \<Rightarrow> bool"
    and step :: "'e \<Rightarrow> txid set \<Rightarrow> txid set"
  assumes step_eq: "step e S = (if adds e then insert (key e) S else S - {key e})"
begin

lemma member_fold:
  "t \<in> fold step es S \<longleftrightarrow>
    (if filter (\<lambda>e. key e = t) es = [] then t \<in> S else adds (last (filter (\<lambda>e. key e = t) es)))"
  by (induction es arbitrary: S) (auto simp: step_eq)

lemma finite_fold: "finite S \<Longrightarrow> finite (fold step es S)"
  by (induction es arbitrary: S) (simp_all add: step_eq)

lemma untouched_fold: "t \<notin> key ` set es \<Longrightarrow> t \<in> fold step es S \<longleftrightarrow> t \<in> S"
  by (simp add: member_fold filter_empty_conv image_iff) metis

text \<open>A fold of additions of the listed keys, and one of removals.\<close>

lemma fold_all_adds: "(\<And>e. e \<in> set es \<Longrightarrow> adds e) \<Longrightarrow> fold step es S = S \<union> key ` set es"
  by (induction es arbitrary: S) (auto simp: step_eq)

lemma fold_all_removes: "(\<And>e. e \<in> set es \<Longrightarrow> \<not> adds e) \<Longrightarrow> fold step es S = S - key ` set es"
  by (induction es arbitrary: S) (auto simp: step_eq)

text \<open>Dropping a prefix of the log changes the outcome only for keys whose last record is in
  that prefix: every other key is decided by what remains.\<close>

lemma fold_suffix:
  "t \<in> fold step (old @ recent) {} \<longleftrightarrow>
    t \<in> fold step recent {} \<or> t \<notin> key ` set recent \<and> t \<in> fold step old {}"
proof (cases "t \<in> key ` set recent")
  case True
  then have "filter (\<lambda>e. key e = t) recent \<noteq> []"
    by (auto simp: filter_empty_conv)
  with True show ?thesis
    by (simp add: member_fold)
next
  case False
  then have "filter (\<lambda>e. key e = t) recent = []"
    by (auto simp: filter_empty_conv)
  with False show ?thesis
    by (simp add: member_fold)
qed

end

end
