(* ===== verification/Ledger.thy ===== *)
theory Ledger
  imports Residency
begin

text \<open>
  The mempool ledger of \<open>shared/src/snapshot/mempool.rs\<close>: the set of txids in the mempool and
  the journal of the transitions that are not in the database yet. First the operations, then
  what a journal is worth (\<open>replay\<close>, \<open>effective\<close>), then the protocol of producers and the
  flushing consumer as a step relation whose reachable states keep database, journal and live
  set consistent.
\<close>

section \<open>Operations\<close>

definition JOURNAL_CAP :: nat where
  "JOURNAL_CAP = 250000"

record JournalEntry =
  je_txid :: txid
  je_direction :: DeltaDirection
  je_observed_at :: instant

record Inner =
  lg_live :: "txid set"
  lg_journal :: "JournalEntry list"
  lg_degraded :: bool

definition ledger_default :: Inner where
  "ledger_default = \<lparr>lg_live = {}, lg_journal = [], lg_degraded = False\<rparr>"

text \<open>The wall clock of one call: \<open>clk n\<close> is what \<open>now_utc()\<close> returns while the journal holds
  \<open>n\<close> entries, so every entry of a call has its own, unconstrained, reading.\<close>

type_synonym clock = "nat \<Rightarrow> instant"

definition push :: "clock \<Rightarrow> txid \<Rightarrow> DeltaDirection \<Rightarrow> Inner \<Rightarrow> bool \<times> Inner" where
  "push clk txid direction s =
    (if length (lg_journal s) \<ge> JOURNAL_CAP
     then (False, s\<lparr>lg_degraded := True\<rparr>)
     else (True, s\<lparr>lg_journal := lg_journal s @
             [\<lparr>je_txid = txid, je_direction = direction,
               je_observed_at = clk (length (lg_journal s))\<rparr>]\<rparr>))"

text \<open>The push loops of \<open>submit_authoritative\<close> and \<open>reconcile_against\<close>; the flag is the
  conjunction of what the pushes returned.\<close>

fun push_each :: "clock \<Rightarrow> DeltaDirection \<Rightarrow> txid list \<Rightarrow> Inner \<Rightarrow> bool \<times> Inner" where
  "push_each clk direction [] s = (True, s)"
| "push_each clk direction (txid # txids) s =
    (let (ok, s1) = push clk txid direction s;
         (oks, s2) = push_each clk direction txids s1
     in (ok \<and> oks, s2))"

definition seed :: "txid set \<Rightarrow> Inner \<Rightarrow> Inner" where
  "seed txids s = s\<lparr>lg_live := txids\<rparr>"

definition submit_authoritative ::
  "(txid set \<Rightarrow> txid list) \<Rightarrow> clock \<Rightarrow> txid set \<Rightarrow> Inner \<Rightarrow> Inner" where
  "submit_authoritative it clk txids s =
    (let to_add = filter (\<lambda>txid. txid \<notin> lg_live s) (it txids);
         to_remove = filter (\<lambda>txid. txid \<notin> txids) (it (lg_live s));
         s1 = snd (push_each clk Add to_add s);
         s2 = snd (push_each clk Remove to_remove s1)
     in s2\<lparr>lg_live := txids\<rparr>)"

fun assert_present :: "clock \<Rightarrow> txid list \<Rightarrow> Inner \<Rightarrow> Inner" where
  "assert_present clk [] s = s"
| "assert_present clk (txid # txids) s =
    (if txid \<in> lg_live s then assert_present clk txids s
     else assert_present clk txids (snd (push clk txid Add (s\<lparr>lg_live := insert txid (lg_live s)\<rparr>))))"

fun assert_absent :: "clock \<Rightarrow> txid list \<Rightarrow> Inner \<Rightarrow> Inner" where
  "assert_absent clk [] s = s"
| "assert_absent clk (txid # txids) s =
    (if txid \<in> lg_live s
     then assert_absent clk txids (snd (push clk txid Remove (s\<lparr>lg_live := lg_live s - {txid}\<rparr>)))
     else assert_absent clk txids s)"

text \<open>A batch shares the ledger through its \<open>Arc\<close>; what it owns is the copied entries.\<close>

definition begin_flush :: "Inner \<Rightarrow> JournalEntry list option" where
  "begin_flush s = (if lg_journal s = [] then None else Some (lg_journal s))"

text \<open>\<open>VecDeque::drain(..n)\<close> panics when the queue is shorter than \<open>n\<close>: the value \<open>None\<close>.\<close>

definition commit :: "JournalEntry list \<Rightarrow> Inner \<Rightarrow> Inner option" where
  "commit entries s =
    (if length entries \<le> length (lg_journal s)
     then Some (s\<lparr>lg_journal := drop (length entries) (lg_journal s)\<rparr>)
     else None)"

definition transition_counts :: "JournalEntry list \<Rightarrow> nat \<times> nat" where
  "transition_counts entries =
    foldl (\<lambda>(added, removed) entry. case je_direction entry of
        Add \<Rightarrow> (added + 1, removed) | Remove \<Rightarrow> (added, removed + 1)) (0, 0) entries"

definition distinct_txids ::
  "(txid set \<Rightarrow> txid list) \<Rightarrow> JournalEntry list \<Rightarrow> DeltaDirection \<Rightarrow> txid list" where
  "distinct_txids it entries direction =
    it (set (map je_txid (filter (\<lambda>entry. je_direction entry = direction) entries)))"

definition added_txids :: "(txid set \<Rightarrow> txid list) \<Rightarrow> JournalEntry list \<Rightarrow> txid list" where
  "added_txids it entries = distinct_txids it entries Add"

definition first_last_step ::
  "(txid \<rightharpoonup> DeltaDirection \<times> DeltaDirection) \<Rightarrow> JournalEntry \<Rightarrow> (txid \<rightharpoonup> DeltaDirection \<times> DeltaDirection)" where
  "first_last_step m entry =
    (case m (je_txid entry) of
       Some (first, last') \<Rightarrow> m(je_txid entry \<mapsto> (first, je_direction entry))
     | None \<Rightarrow> m(je_txid entry \<mapsto> (je_direction entry, je_direction entry)))"

definition first_last :: "JournalEntry list \<Rightarrow> (txid \<rightharpoonup> DeltaDirection \<times> DeltaDirection)" where
  "first_last entries = foldl first_last_step Map.empty entries"

definition residency_delta ::
  "(txid set \<Rightarrow> txid list) \<Rightarrow> JournalEntry list \<Rightarrow> txid list \<times> txid list" where
  "residency_delta it entries =
    (let m = first_last entries; keys = it (set (map je_txid entries))
     in (filter (\<lambda>txid. m txid = Some (Add, Add)) keys,
         filter (\<lambda>txid. m txid = Some (Remove, Remove)) keys))"

text \<open>What one journal entry does to a set of residents, the fold of \<open>reconcile_against\<close>.\<close>

definition apply_entry :: "JournalEntry \<Rightarrow> txid set \<Rightarrow> txid set" where
  "apply_entry entry S =
    (case je_direction entry of Add \<Rightarrow> insert (je_txid entry) S | Remove \<Rightarrow> S - {je_txid entry})"

definition replay :: "JournalEntry list \<Rightarrow> txid set \<Rightarrow> txid set" where
  "replay entries S = fold apply_entry entries S"

definition reconcile_against ::
  "(txid set \<Rightarrow> txid list) \<Rightarrow> clock \<Rightarrow> txid set \<Rightarrow> Inner \<Rightarrow> Inner" where
  "reconcile_against it clk db_image s =
    (let eventual = replay (lg_journal s) db_image;
         to_add = filter (\<lambda>txid. txid \<notin> eventual) (it (lg_live s));
         to_remove = filter (\<lambda>txid. txid \<notin> lg_live s) (it eventual);
         (complete1, s1) = push_each clk Add to_add s;
         (complete2, s2) = push_each clk Remove to_remove s1
     in if complete1 \<and> complete2 then s2\<lparr>lg_degraded := False\<rparr> else s2)"

definition contains :: "txid \<Rightarrow> Inner \<Rightarrow> bool" where
  "contains txid s \<longleftrightarrow> txid \<in> lg_live s"

definition ledger_len :: "Inner \<Rightarrow> nat" where
  "ledger_len s = card (lg_live s)"

definition pending_len :: "Inner \<Rightarrow> nat" where
  "pending_len s = length (lg_journal s)"


section \<open>What a journal is worth\<close>

interpretation journal: residency_log je_txid "\<lambda>e. je_direction e = Add" apply_entry
  by unfold_locales (simp add: apply_entry_def split: DeltaDirection.split)

lemma replay_Nil [simp]: "replay [] S = S"
  by (simp add: replay_def)

lemma replay_Cons [simp]: "replay (e # es) S = replay es (apply_entry e S)"
  by (simp add: replay_def)

lemma replay_append [simp]: "replay (xs @ ys) S = replay ys (replay xs S)"
  by (simp add: replay_def)

lemma finite_replay: "finite S \<Longrightarrow> finite (replay es S)"
  unfolding replay_def by (rule journal.finite_fold)

text \<open>A journal is effective from a set when every entry is a real transition: it adds a txid
  that is absent or removes one that is present.\<close>

fun effective :: "JournalEntry list \<Rightarrow> txid set \<Rightarrow> bool" where
  "effective [] S = True"
| "effective (e # es) S =
    ((je_direction e = Add \<longleftrightarrow> je_txid e \<notin> S) \<and> effective es (apply_entry e S))"

lemma effective_append [simp]:
  "effective (xs @ ys) S \<longleftrightarrow> effective xs S \<and> effective ys (replay xs S)"
  by (induction xs arbitrary: S) auto

lemma effective_drop:
  "effective es S \<Longrightarrow> effective (drop n es) (replay (take n es) S)"
  using effective_append [of "take n es" "drop n es" S] by simp

lemma replay_take_drop: "replay (drop n es) (replay (take n es) S) = replay es S"
  using replay_append [of "take n es" "drop n es" S] by simp

section \<open>What a producer does to the journal\<close>

text \<open>A producer call extends the journal; unless it loses entries to the cap, the new entries
  are real transitions that lead from the old live set to the new one.\<close>

definition extends :: "Inner \<Rightarrow> Inner \<Rightarrow> bool" where
  "extends s s' \<longleftrightarrow> (\<exists>new. lg_journal s' = lg_journal s @ new \<and>
     (lg_degraded s \<longrightarrow> lg_degraded s') \<and>
     (length (lg_journal s) \<le> JOURNAL_CAP \<longrightarrow> length (lg_journal s') \<le> JOURNAL_CAP) \<and>
     (\<not> lg_degraded s' \<longrightarrow> effective new (lg_live s) \<and> replay new (lg_live s) = lg_live s'))"

lemma extends_refl [simp, intro]: "extends s s"
  by (auto simp: extends_def)

lemma extends_trans: "extends s s' \<Longrightarrow> extends s' s'' \<Longrightarrow> extends s s''"
  unfolding extends_def by fastforce

text \<open>The entries a push loop appends.\<close>

definition entries_for :: "clock \<Rightarrow> nat \<Rightarrow> DeltaDirection \<Rightarrow> txid list \<Rightarrow> JournalEntry list" where
  "entries_for clk n d txids = map (\<lambda>(i, t). \<lparr>je_txid = t, je_direction = d, je_observed_at = clk i\<rparr>)
     (zip [n..<n + length txids] txids)"

lemma entries_for_Cons:
  "entries_for clk n d (t # ts) =
    \<lparr>je_txid = t, je_direction = d, je_observed_at = clk n\<rparr> # entries_for clk (Suc n) d ts"
proof -
  have "[n..<n + length (t # ts)] = n # [Suc n..<Suc n + length ts]"
    using upt_conv_Cons [of n "n + Suc (length ts)"] by (simp del: upt_Suc)
  then show ?thesis
    by (simp add: entries_for_def)
qed

lemma entries_for_Nil [simp]: "entries_for clk n d [] = []"
  by (simp add: entries_for_def)

lemma entries_for_txids [simp]: "map je_txid (entries_for clk n d ts) = ts"
  by (induction ts arbitrary: n) (simp_all add: entries_for_Cons)

lemma entries_for_direction: "e \<in> set (entries_for clk n d ts) \<Longrightarrow> je_direction e = d"
  by (auto simp: entries_for_def)

lemma entries_for_txid_set [simp]: "je_txid ` set (entries_for clk n d ts) = set ts"
  by (metis entries_for_txids list.set_map)

lemma replay_entries_for:
  "replay (entries_for clk n Add ts) S = S \<union> set ts"
  "replay (entries_for clk n Remove ts) S = S - set ts"
proof -
  show "replay (entries_for clk n Add ts) S = S \<union> set ts"
    unfolding replay_def by (subst journal.fold_all_adds) (auto dest: entries_for_direction)
  show "replay (entries_for clk n Remove ts) S = S - set ts"
    unfolding replay_def by (subst journal.fold_all_removes) (auto dest: entries_for_direction)
qed

lemma effective_adds:
  "distinct ts \<Longrightarrow> set ts \<inter> S = {} \<Longrightarrow> effective (entries_for clk n Add ts) S"
  by (induction ts arbitrary: n S) (auto simp: entries_for_Cons apply_entry_def)

lemma effective_removes:
  "distinct ts \<Longrightarrow> set ts \<subseteq> S \<Longrightarrow> effective (entries_for clk n Remove ts) S"
proof (induction ts arbitrary: n S)
  case (Cons t ts)
  then have "set ts \<subseteq> S - {t}" and "t \<in> S"
    by auto
  with Cons show ?case
    by (simp add: entries_for_Cons apply_entry_def)
qed simp

text \<open>A push loop as a whole: entries are accepted while there is room, the flag says whether
  all of them were, and a loss marks the ledger as degraded.\<close>

lemma push_each_spec:
  "push_each clk d ts s =
    (let k = JOURNAL_CAP - length (lg_journal s) in
     (length ts \<le> k,
      s\<lparr>lg_journal := lg_journal s @ entries_for clk (length (lg_journal s)) d (take k ts),
        lg_degraded := (lg_degraded s \<or> k < length ts)\<rparr>))"
proof (induction ts arbitrary: s)
  case (Cons t ts)
  show ?case
  proof (cases "length (lg_journal s) \<ge> JOURNAL_CAP")
    case True
    then show ?thesis
      by (simp add: push_def Cons.IH Let_def)
  next
    case False
    then obtain k where k: "JOURNAL_CAP - length (lg_journal s) = Suc k"
      by (metis Suc_diff_Suc not_le)
    then have "JOURNAL_CAP - Suc (length (lg_journal s)) = k"
      by simp
    with False k show ?thesis
      by (simp add: push_def Cons.IH Let_def entries_for_Cons)
  qed
qed (simp add: Let_def)

text \<open>A loop of additions followed by a loop of removals, as \<open>submit_authoritative\<close> and
  \<open>reconcile_against\<close> run it.\<close>

lemma push_each_extension:
  fixes clk d ts s
  defines "s' \<equiv> snd (push_each clk d ts s)" and "ok \<equiv> fst (push_each clk d ts s)"
  shows "\<exists>new. lg_journal s' = lg_journal s @ new \<and>
    (length (lg_journal s) \<le> JOURNAL_CAP \<longrightarrow> length (lg_journal s') \<le> JOURNAL_CAP) \<and>
    (ok \<longrightarrow> new = entries_for clk (length (lg_journal s)) d ts) \<and>
    lg_live s' = lg_live s \<and> (lg_degraded s' \<longleftrightarrow> lg_degraded s \<or> \<not> ok)"
proof -
  let ?k = "JOURNAL_CAP - length (lg_journal s)"
  let ?new = "entries_for clk (length (lg_journal s)) d (take ?k ts)"
  have "length ?new \<le> ?k"
    by (simp add: entries_for_def)
  then show ?thesis
    by (intro exI [of _ ?new]) (auto simp: s'_def ok_def push_each_spec Let_def)
qed

lemma submit_authoritative_extends:
  assumes "iterates it" "finite txids" "finite (lg_live s)"
  shows "extends s (submit_authoritative it clk txids s)"
    and "lg_live (submit_authoritative it clk txids s) = txids"
proof -
  let ?add = "filter (\<lambda>txid. txid \<notin> lg_live s) (it txids)"
  let ?rem = "filter (\<lambda>txid. txid \<notin> txids) (it (lg_live s))"
  let ?p = "push_each clk Add ?add s"
  let ?q = "push_each clk Remove ?rem (snd ?p)"
  obtain new1 where 1: "lg_journal (snd ?p) = lg_journal s @ new1"
    "length (lg_journal s) \<le> JOURNAL_CAP \<longrightarrow> length (lg_journal (snd ?p)) \<le> JOURNAL_CAP"
    "fst ?p \<longrightarrow> new1 = entries_for clk (length (lg_journal s)) Add ?add"
    "lg_live (snd ?p) = lg_live s"
    "lg_degraded (snd ?p) \<longleftrightarrow> lg_degraded s \<or> \<not> fst ?p"
    using push_each_extension [of clk Add ?add s] by blast
  obtain new2 where 2: "lg_journal (snd ?q) = lg_journal (snd ?p) @ new2"
    "length (lg_journal (snd ?p)) \<le> JOURNAL_CAP \<longrightarrow> length (lg_journal (snd ?q)) \<le> JOURNAL_CAP"
    "fst ?q \<longrightarrow> new2 = entries_for clk (length (lg_journal (snd ?p))) Remove ?rem"
    "lg_live (snd ?q) = lg_live (snd ?p)"
    "lg_degraded (snd ?q) \<longleftrightarrow> lg_degraded (snd ?p) \<or> \<not> fst ?q"
    using push_each_extension [of clk Remove ?rem "snd ?p"] by blast
  have eq: "submit_authoritative it clk txids s = (snd ?q)\<lparr>lg_live := txids\<rparr>"
    by (simp add: submit_authoritative_def Let_def)
  have sets: "set ?add = txids - lg_live s" "set ?rem = lg_live s - txids"
    "distinct ?add" "distinct ?rem"
    using assms by (auto simp: iter_simps)
  have "effective (new1 @ new2) (lg_live s) \<and> replay (new1 @ new2) (lg_live s) = txids"
    if "\<not> lg_degraded (snd ?q)"
    using that 1 2 sets by (auto simp: replay_entries_for intro!: effective_adds effective_removes)
  then show "extends s (submit_authoritative it clk txids s)"
    unfolding eq extends_def using 1 2 by (intro exI [of _ "new1 @ new2"]) auto
  show "lg_live (submit_authoritative it clk txids s) = txids"
    by (simp add: eq)
qed

text \<open>A submission to a ledger with nothing to flush: when the difference fits under the cap it is journalled once
  each, additions first; otherwise the ledger is marked.\<close>

lemma submit_authoritative_journals:
  fixes clk
  assumes it: "iterates it" "finite txids" "finite (lg_live s)" and start: "lg_journal s = []" "\<not> lg_degraded s"
  defines "s' \<equiv> submit_authoritative it clk txids s"
  defines "need \<equiv> card (txids - lg_live s) + card (lg_live s - txids)"
  shows "lg_degraded s' \<longleftrightarrow> JOURNAL_CAP < need"
    and "need \<le> JOURNAL_CAP \<Longrightarrow> length (lg_journal s') = need \<and>
      (\<lambda>e. (je_txid e, je_direction e)) ` set (lg_journal s') = (txids - lg_live s) \<times> {Add} \<union> (lg_live s - txids) \<times> {Remove}"
proof -
  let ?add = "filter (\<lambda>txid. txid \<notin> lg_live s) (it txids)" and ?rem = "filter (\<lambda>txid. txid \<notin> txids) (it (lg_live s))"
  have sets: "set ?add = txids - lg_live s" "set ?rem = lg_live s - txids" "distinct ?add" "distinct ?rem"
    using it by (auto simp: iter_simps)
  then have len: "length ?add = card (txids - lg_live s)" "length ?rem = card (lg_live s - txids)"
    by (metis distinct_card)+
  have img: "(\<lambda>e. (je_txid e, je_direction e)) ` set (entries_for clk n dir ts) = set ts \<times> {dir}" for n dir ts
    by (induction ts arbitrary: n) (auto simp: entries_for_Cons)
  have long: "length (entries_for clk n dir ts) = length ts" for n dir ts
    by (metis entries_for_txids length_map)
  show "lg_degraded s' \<longleftrightarrow> JOURNAL_CAP < need"
    using start len by (auto simp: s'_def need_def submit_authoritative_def Let_def push_each_spec long)
  show "length (lg_journal s') = need \<and>
      (\<lambda>e. (je_txid e, je_direction e)) ` set (lg_journal s') = (txids - lg_live s) \<times> {Add} \<union> (lg_live s - txids) \<times> {Remove}"
    if "need \<le> JOURNAL_CAP"
  proof -
    have "lg_journal s' = entries_for clk 0 Add ?add @ entries_for clk (length ?add) Remove ?rem"
      using that start len by (simp add: s'_def need_def submit_authoritative_def Let_def push_each_spec long)
    then show ?thesis
      using len sets(1,2) by (simp add: long need_def image_Un img)
  qed
qed

lemma assert_present_extends: "extends s (assert_present clk ts s)"
proof (induction clk ts s rule: assert_present.induct)
  case (2 clk txid txids s)
  let ?s1 = "snd (push clk txid Add (s\<lparr>lg_live := insert txid (lg_live s)\<rparr>))"
  have "extends s ?s1" if "txid \<notin> lg_live s"
    using that by (auto simp: extends_def push_def apply_entry_def)
  with 2 show ?case
    by (auto intro: extends_trans)
qed simp

lemma assert_present_live: "lg_live (assert_present clk ts s) = lg_live s \<union> set ts"
  by (induction clk ts s rule: assert_present.induct) (auto simp: push_def)

lemma assert_absent_extends: "extends s (assert_absent clk ts s)"
proof (induction clk ts s rule: assert_absent.induct)
  case (2 clk txid txids s)
  let ?s1 = "snd (push clk txid Remove (s\<lparr>lg_live := lg_live s - {txid}\<rparr>))"
  have "extends s ?s1" if "txid \<in> lg_live s"
    using that by (auto simp: extends_def push_def apply_entry_def)
  with 2 show ?case
    by (auto intro: extends_trans)
qed simp

lemma assert_absent_live: "lg_live (assert_absent clk ts s) = lg_live s - set ts"
  by (induction clk ts s rule: assert_absent.induct) (auto simp: push_def)

section \<open>Net effect of a batch\<close>

lemma first_last_append: "first_last (es @ [e]) = first_last_step (first_last es) e"
  by (simp add: first_last_def)

lemma first_last_effective:
  assumes "effective es S"
  shows "case first_last es t of
      None \<Rightarrow> t \<notin> je_txid ` set es \<and> (t \<in> replay es S \<longleftrightarrow> t \<in> S)
    | Some (f, l) \<Rightarrow> t \<in> je_txid ` set es \<and> (f = Add \<longleftrightarrow> t \<notin> S) \<and> (l = Add \<longleftrightarrow> t \<in> replay es S)"
  using assms
proof (induction es rule: rev_induct)
  case (snoc e es)
  then show ?case
    by (cases "je_direction e"; cases "je_txid e = t")
      (auto simp: first_last_append first_last_step_def apply_entry_def split: option.splits)
qed (simp add: first_last_def)

lemma residency_delta_sets:
  assumes "effective es S" "iterates it" "residency_delta it es = (added, removed)"
  shows "set added = replay es S - S" "set removed = S - replay es S"
    "distinct added" "distinct removed"
proof -
  have fl: "first_last es t = Some (Add, Add) \<longleftrightarrow> t \<in> replay es S - S"
    "first_last es t = Some (Remove, Remove) \<longleftrightarrow> t \<in> S - replay es S"
    "first_last es t \<noteq> None \<Longrightarrow> t \<in> je_txid ` set es" for t
    using first_last_effective [OF assms(1), of t]
    by (auto split: option.splits prod.splits dest: DeltaDirection.exhaust)
      (metis DeltaDirection.exhaust)+
  have keys: "set (it (set (map je_txid es))) = je_txid ` set es" "distinct (it (set (map je_txid es)))"
    using assms(2) by (auto simp: iter_simps)
  have added: "added = filter (\<lambda>t. first_last es t = Some (Add, Add)) (it (set (map je_txid es)))"
    and removed: "removed = filter (\<lambda>t. first_last es t = Some (Remove, Remove)) (it (set (map je_txid es)))"
    using assms(3) by (simp_all add: residency_delta_def Let_def)
  show "set added = replay es S - S" "set removed = S - replay es S"
    unfolding added removed set_filter keys(1) using fl by force+
  show "distinct added" "distinct removed"
    unfolding added removed using keys(2) by simp_all
qed

section \<open>Repair\<close>

lemma reconcile_against_cases:
  fixes it clk db s
  assumes "iterates it" "finite db" "finite (lg_live s)" "length (lg_journal s) \<le> JOURNAL_CAP"
  defines "s' \<equiv> reconcile_against it clk db s"
    and "need \<equiv> card (lg_live s - replay (lg_journal s) db) + card (replay (lg_journal s) db - lg_live s)"
  shows "lg_live s' = lg_live s"
    and "length (lg_journal s) + need \<le> JOURNAL_CAP \<Longrightarrow>
       \<not> lg_degraded s' \<and> replay (lg_journal s') db = lg_live s'"
    and "length (lg_journal s) + need > JOURNAL_CAP \<Longrightarrow> lg_degraded s'"
proof -
  let ?ev = "replay (lg_journal s) db"
  let ?add = "filter (\<lambda>txid. txid \<notin> ?ev) (it (lg_live s))"
  let ?rem = "filter (\<lambda>txid. txid \<notin> lg_live s) (it ?ev)"
  let ?p = "push_each clk Add ?add s"
  let ?q = "push_each clk Remove ?rem (snd ?p)"
  have fin: "finite ?ev"
    by (rule finite_replay [OF assms(2)])
  have sets: "set ?add = lg_live s - ?ev" "set ?rem = ?ev - lg_live s" "distinct ?add" "distinct ?rem"
    using assms(1,3) fin by (auto simp: iter_simps)
  then have len: "length ?add + length ?rem = need"
    unfolding need_def using distinct_card [of ?add] distinct_card [of ?rem] by simp
  have eq: "s' = (if fst ?p \<and> fst ?q then (snd ?q)\<lparr>lg_degraded := False\<rparr> else snd ?q)"
    by (simp add: s'_def reconcile_against_def Let_def split: prod.splits)
  have live: "lg_live (snd ?q) = lg_live s"
    by (simp add: push_each_spec Let_def)
  then show live': "lg_live s' = lg_live s"
    by (simp add: eq)
  have fits: "fst ?p \<and> fst ?q \<longleftrightarrow> length (lg_journal s) + need \<le> JOURNAL_CAP"
    using assms(4) len by (auto simp: push_each_spec Let_def entries_for_def)
  show "\<not> lg_degraded s' \<and> replay (lg_journal s') db = lg_live s'"
    if "length (lg_journal s) + need \<le> JOURNAL_CAP"
  proof -
    have "lg_journal s' = lg_journal s @ entries_for clk (length (lg_journal s)) Add ?add
        @ entries_for clk (length (lg_journal (snd ?p))) Remove ?rem"
      using that fits by (auto simp: eq push_each_spec Let_def)
    then have "replay (lg_journal s') db = lg_live s"
      using sets by (auto simp: replay_entries_for)
    moreover have "\<not> lg_degraded s'"
      unfolding eq using that fits by simp
    ultimately show ?thesis
      using live' by simp
  qed
  have "lg_degraded (snd ?q)" if "\<not> (fst ?p \<and> fst ?q)"
    using that push_each_extension [of clk Add ?add s]
      push_each_extension [of clk Remove ?rem "snd ?p"] by blast
  then show "lg_degraded s'" if "length (lg_journal s) + need > JOURNAL_CAP"
    unfolding eq using that fits by simp
qed

lemma submit_to_empty:
  assumes "iterates it" "finite T" "length (it T) = Suc JOURNAL_CAP"
  shows "submit_authoritative it clk T (seed {} ledger_default) =
    \<lparr>lg_live = T, lg_journal = entries_for clk 0 Add (take JOURNAL_CAP (it T)), lg_degraded = True\<rparr>"
proof -
  have "it {} = []"
    using iterates_set [OF assms(1), of "{}"] by simp
  with assms(3) show ?thesis
    by (simp add: submit_authoritative_def Let_def push_each_spec seed_def ledger_default_def)
qed

section \<open>Properties\<close>



text \<open>C30: A repair against the database's residency closes the gap whenever the missing entries fit
  under the cap: afterwards replaying the journal on that residency gives the live set and the
  degraded mark is cleared. When they do not fit the mark stays set, and the live set is never
  changed by a repair.\<close>

theorem reconcile_against_repairs:
  assumes "iterates it" "finite db" "finite (lg_live s)" "length (lg_journal s) \<le> JOURNAL_CAP"
  shows "lg_live (reconcile_against it clk db s) = lg_live s \<and>
    (if length (lg_journal s) + (card (lg_live s - replay (lg_journal s) db)
          + card (replay (lg_journal s) db - lg_live s)) \<le> JOURNAL_CAP
     then \<not> lg_degraded (reconcile_against it clk db s) \<and>
       replay (lg_journal (reconcile_against it clk db s)) db = lg_live s
     else lg_degraded (reconcile_against it clk db s))"
  using reconcile_against_cases [OF assms, of clk] by (metis not_le)

theorem reconcile_against_repairs_witness:
  "replay (lg_journal (reconcile_against sorted_list_of_set (\<lambda>_. 7) {''x''}
     \<lparr>lg_live = {''a''}, lg_journal = [], lg_degraded = True\<rparr>)) {''x''} = {''a''}"
  using reconcile_against_repairs [of sorted_list_of_set "{''x''}"
      "\<lparr>lg_live = {''a''}, lg_journal = [], lg_degraded = True\<rparr>" "\<lambda>_. 7"]
  by (simp add: iterates_sorted JOURNAL_CAP_def)

end
