(* ===== verification/Database.thy ===== *)
theory Database
  imports Ledger "HOL-Library.Product_Lexorder"
begin

text \<open>
  The Postgres tables as the repositories see them (\<open>api/src/db/models.rs\<close>,
  \<open>api/src/db/schema.rs\<close>), one list of rows per table in insertion order, and what a repository
  call can do to them (\<open>api/src/db/instrument.rs\<close>): run its statements, or fail and leave every
  row as it was. Where SQL leaves an order open the model takes table order. The column
  \<open>cluster_chunks.created_at\<close> is filled by a default and never read, and is left out; a cluster's
  version counts its sync rounds and is kept as an unbounded integer.
\<close>

section \<open>Errors\<close>

datatype DieselError = NotFound | UniqueViolation | RollbackTransaction | OtherError string

datatype RepoError = PoolError string | QueryError DieselError

section \<open>Rows\<close>

datatype BackfillStage = Raw | Entry

record StoredTxFill =
  sf_has_parents :: bool
  sf_weight :: int
  sf_has_fee :: bool

definition backfill_stage :: "StoredTxFill \<Rightarrow> BackfillStage option" where
  "backfill_stage f =
    (if \<not> sf_has_parents f \<or> sf_weight f = 0 then Some Raw
     else if \<not> sf_has_fee f then Some Entry else None)"

text \<open>\<open>NewTransaction\<close> and \<open>Transaction\<close> have the same columns.\<close>

record Transaction =
  tx_txid :: txid
  tx_fee :: "int option"
  tx_weight :: int
  tx_first_seen_at :: instant
  tx_confirmed_at :: "instant option"
  tx_cluster_id :: "cluster_id option"
  tx_confirmed_at_block :: "string option"
  tx_input_txids :: "txid list option"

definition hollow :: "instant \<Rightarrow> txid \<Rightarrow> Transaction" where
  "hollow now txid = \<lparr>tx_txid = txid, tx_fee = None, tx_weight = 0, tx_first_seen_at = now,
     tx_confirmed_at = None, tx_cluster_id = None, tx_confirmed_at_block = None, tx_input_txids = None\<rparr>"

definition sorted_by_txid :: "Transaction list \<Rightarrow> Transaction list" where
  "sorted_by_txid txs = sort_key tx_txid txs"

definition tx_fill :: "Transaction \<Rightarrow> StoredTxFill" where
  "tx_fill t = \<lparr>sf_has_parents = (tx_input_txids t \<noteq> None), sf_weight = tx_weight t,
     sf_has_fee = (tx_fee t \<noteq> None)\<rparr>"

definition is_complete :: "Transaction \<Rightarrow> bool" where
  "is_complete t \<longleftrightarrow> backfill_stage (tx_fill t) = None"

record NewBlock =
  bl_hash :: string
  bl_height :: int
  bl_mined_at :: instant
  bl_tx_count :: int
  bl_total_bytes :: int
  bl_total_fee :: int
  bl_difficulty :: f64
  bl_created_at :: instant

definition new_block_from :: "instant \<Rightarrow> GetBlockModel \<Rightarrow> NewBlock" where
  "new_block_from now m =
    \<lparr>bl_hash = bk_hash m, bl_height = bk_height m, bl_mined_at = bk_mined_at m,
     bl_tx_count = bk_tx_count m, bl_total_bytes = bk_size m, bl_total_fee = bk_total_fee_sats m,
     bl_difficulty = bk_difficulty m, bl_created_at = now\<rparr>"

definition tx_from_entry :: "instant \<Rightarrow> MempoolEntrySummary \<Rightarrow> Transaction" where
  "tx_from_entry now e =
    \<lparr>tx_txid = es_txid e, tx_fee = Some (i64_of (es_fee_in_sats e)), tx_weight = es_weight e,
     tx_first_seen_at = now, tx_confirmed_at = None, tx_cluster_id = None,
     tx_confirmed_at_block = None, tx_input_txids = None\<rparr>"

definition tx_from_raw :: "instant \<Rightarrow> GetRawTransactionModel \<Rightarrow> Transaction" where
  "tx_from_raw now m =
    \<lparr>tx_txid = rt_txid m, tx_fee = None, tx_weight = i64_of (rt_weight m),
     tx_first_seen_at = now, tx_confirmed_at = None, tx_cluster_id = None,
     tx_confirmed_at_block = None, tx_input_txids = Some (rt_input_txids m)\<rparr>"

datatype DeltaReason = AddMempool | RemoveConfirmed | RemoveEvicted

definition reason_direction :: "DeltaReason \<Rightarrow> DeltaDirection" where
  "reason_direction r = (case r of AddMempool \<Rightarrow> Add | RemoveConfirmed \<Rightarrow> Remove | RemoveEvicted \<Rightarrow> Remove)"

definition reasons_with_direction :: "DeltaDirection \<Rightarrow> DeltaReason list" where
  "reasons_with_direction d =
    filter (\<lambda>r. reason_direction r = d) [AddMempool, RemoveConfirmed, RemoveEvicted]"

record MempoolDelta =
  dl_txid :: txid
  dl_reason :: DeltaReason
  dl_created_at :: instant

datatype ClusterStatus = Active | Confirmed | Evicted | Merged

record ClusterRow =
  cr_id :: cluster_id
  cr_status :: ClusterStatus
  cr_version :: int
  cr_total_weight :: int
  cr_total_fee :: int
  cr_first_seen_at :: instant
  cr_confirmed_at :: "instant option"
  cr_closed_at :: "instant option"

record NewCluster =
  nc_chunks :: "ClusterChunk list"
  nc_first_seen_at :: instant

record Cluster =
  cl_id :: cluster_id
  cl_status :: ClusterStatus
  cl_version :: int
  cl_total_weight :: int
  cl_total_fee :: int
  cl_first_seen_at :: instant
  cl_confirmed_at :: "instant option"
  cl_closed_at :: "instant option"
  cl_chunks :: "ClusterChunk list"

definition from_row :: "ClusterRow \<Rightarrow> ClusterChunk list \<Rightarrow> Cluster" where
  "from_row row chunks =
    \<lparr>cl_id = cr_id row, cl_status = cr_status row, cl_version = cr_version row,
     cl_total_weight = cr_total_weight row, cl_total_fee = cr_total_fee row,
     cl_first_seen_at = cr_first_seen_at row, cl_confirmed_at = cr_confirmed_at row,
     cl_closed_at = cr_closed_at row, cl_chunks = chunks\<rparr>"

definition cl_txids :: "Cluster \<Rightarrow> txid list" where
  "cl_txids c = concat (map ck_txids (cl_chunks c))"

record ClusterChunkRow =
  ch_cluster_id :: cluster_id
  ch_version :: int
  ch_position :: int
  ch_fee :: int
  ch_weight :: int
  ch_txids :: "txid list"
  ch_live :: bool

definition chunk_of_row :: "ClusterChunkRow \<Rightarrow> ClusterChunk" where
  "chunk_of_row row = \<lparr>ck_txids = ch_txids row, ck_fee_sats = u64_of (ch_fee row),
     ck_weight = u64_of (ch_weight row)\<rparr>"

record db =
  db_clusters :: "ClusterRow list"
  db_cluster_seq :: cluster_id
  db_chunks :: "ClusterChunkRow list"
  db_transactions :: "Transaction list"
  db_blocks :: "NewBlock list"
  db_deltas :: "MempoolDelta list"

section \<open>Running statements\<close>

text \<open>A repository call's statements as a function of the database. \<open>query\<close> adds what the pool
  and the connection may do: a fault fails the call and rolls it back, where sequence values the
  aborted statements took (the number \<open>gap\<close>) stay taken; an error of a statement itself is reported
  the same way.\<close>

type_synonym 'a statement = "db \<Rightarrow> DieselError + 'a \<times> db"

type_synonym fault = "(RepoError \<times> nat) option"

definition query :: "fault \<Rightarrow> 'a statement \<Rightarrow> db \<Rightarrow> (RepoError + 'a) \<times> db" where
  "query fault f d =
    (case fault of
       Some (e, gap) \<Rightarrow> (Inl e, d\<lparr>db_cluster_seq := db_cluster_seq d + int gap\<rparr>)
     | None \<Rightarrow> (case f d of Inl e \<Rightarrow> (Inl (QueryError e), d) | Inr (x, d') \<Rightarrow> (Inr x, d')))"

text \<open>What a call may do to the tables, as a relation that does not look at lost sequence values: if the statements keep to it,
  so does the call, whatever goes wrong.\<close>

locale call_contract =
  fixes rel :: "db \<Rightarrow> db \<Rightarrow> bool"
  assumes lost_values: "rel d (d\<lparr>db_cluster_seq := db_cluster_seq d + int gap\<rparr>)"
begin

lemma call_keeps:
  assumes "query fault f d = (r, d')" "\<And>x d''. f d = Inr (x, d'') \<Longrightarrow> rel d d''"
  shows "rel d d'"
  using assms lost_values [of d] lost_values [of d 0]
  by (auto simp: query_def split: option.splits prod.splits sum.splits)

end

definition TRANSACTION_INSERT_CHUNK_SIZE :: nat where
  "TRANSACTION_INSERT_CHUNK_SIZE = 1000"

definition MEMPOOL_DELTA_INSERT_CHUNK_SIZE :: nat where
  "MEMPOOL_DELTA_INSERT_CHUNK_SIZE = 10000"

text \<open>\<open>INSERT .. ON CONFLICT (txid) DO NOTHING\<close> of a list of rows, in batches: a row whose txid is
  already stored, also by an earlier row of the list, is skipped.\<close>

definition insert_ignoring :: "Transaction list \<Rightarrow> Transaction \<Rightarrow> Transaction list" where
  "insert_ignoring table row =
    (if tx_txid row \<in> tx_txid ` set table then table else table @ [row])"

definition insert_hollow_rows :: "instant \<Rightarrow> txid list \<Rightarrow> Transaction list \<Rightarrow> Transaction list" where
  "insert_hollow_rows now txids table =
    foldl (foldl insert_ignoring) table
      (chunks_of TRANSACTION_INSERT_CHUNK_SIZE (sorted_by_txid (map (hollow now) txids)))"

section \<open>Facts\<close>

lemma is_complete_iff:
  "is_complete t \<longleftrightarrow> tx_input_txids t \<noteq> None \<and> tx_weight t \<noteq> 0 \<and> tx_fee t \<noteq> None"
  by (auto simp: is_complete_def backfill_stage_def tx_fill_def split: if_splits)

lemma set_reasons_with_direction: "set (reasons_with_direction d) = {r. reason_direction r = d}"
proof -
  have "r \<in> set [AddMempool, RemoveConfirmed, RemoveEvicted]" for r
    by (cases r) simp_all
  then show ?thesis
    unfolding reasons_with_direction_def set_filter by blast
qed

lemma foldl_foldl_concat: "foldl (foldl f) a xss = foldl f a (concat xss)"
  by (induction xss arbitrary: a) simp_all

lemma foldl_insert_ignoring:
  "distinct (map tx_txid table) \<Longrightarrow>
    distinct (map tx_txid (foldl insert_ignoring table rows)) \<and>
    set table \<subseteq> set (foldl insert_ignoring table rows) \<and>
    set (foldl insert_ignoring table rows) \<subseteq> set table \<union> set rows \<and>
    tx_txid ` set (foldl insert_ignoring table rows) = tx_txid ` set table \<union> tx_txid ` set rows"
proof (induction rows arbitrary: table)
  case (Cons r rows)
  have "distinct (map tx_txid (insert_ignoring table r))"
    using Cons.prems by (simp add: insert_ignoring_def)
  from Cons.IH [OF this] show ?case
    by (auto simp: insert_ignoring_def split: if_splits)
qed simp

lemma insert_hollow_rows_eq:
  "insert_hollow_rows now txids table = foldl insert_ignoring table (sorted_by_txid (map (hollow now) txids))"
  by (simp add: insert_hollow_rows_def foldl_foldl_concat TRANSACTION_INSERT_CHUNK_SIZE_def)

lemma insert_hollow_rows_spec:
  assumes "distinct (map tx_txid table)"
  shows "distinct (map tx_txid (insert_hollow_rows now txids table))"
    and "set table \<subseteq> set (insert_hollow_rows now txids table)"
    and "t \<in> set (insert_hollow_rows now txids table) \<Longrightarrow>
      t \<in> set table \<or> tx_txid t \<in> set txids \<and> tx_txid t \<notin> tx_txid ` set table \<and> t = hollow now (tx_txid t)"
    and "tx_txid ` set (insert_hollow_rows now txids table) = tx_txid ` set table \<union> set txids"
proof -
  let ?rows = "sorted_by_txid (map (hollow now) txids)"
  have rows: "set ?rows = hollow now ` set txids" "tx_txid ` set ?rows = set txids"
    by (auto simp: sorted_by_txid_def hollow_def image_image)
  note spec = foldl_insert_ignoring [OF assms, of ?rows, folded insert_hollow_rows_eq]
  then show d: "distinct (map tx_txid (insert_hollow_rows now txids table))"
    and sub: "set table \<subseteq> set (insert_hollow_rows now txids table)"
    and "tx_txid ` set (insert_hollow_rows now txids table) = tx_txid ` set table \<union> set txids"
    using rows by auto
  show "t \<in> set table \<or> tx_txid t \<in> set txids \<and> tx_txid t \<notin> tx_txid ` set table \<and> t = hollow now (tx_txid t)"
    if t: "t \<in> set (insert_hollow_rows now txids table)"
  proof (cases "t \<in> set table")
    case False
    then obtain x where x: "x \<in> set txids" "t = hollow now x"
      using t spec rows by blast
    have "tx_txid t \<notin> tx_txid ` set table"
    proof
      assume "tx_txid t \<in> tx_txid ` set table"
      then obtain t' where "t' \<in> set table" "tx_txid t' = tx_txid t"
        by auto
      then have "t' = t"
        using d t sub by (metis distinct_map inj_on_contraD subsetD)
      with False \<open>t' \<in> set table\<close> show False
        by simp
    qed
    with x show ?thesis
      by (simp add: hollow_def)
  qed simp
qed

end
