(* ===== verification/Views.thy ===== *)
theory Views
  imports Prelude
begin

text \<open>
  Subscribers rebuild a keyed view from a first frame and a stream of change events, and the
  stream may repeat changes the first frame already shows. This theory states once what such a
  stream promises: an event settles the keys it touches and leaves the others alone, so a
  repeated stretch of events does no harm.
\<close>

locale keyed_updates =
  fixes sets :: "'ev \<Rightarrow> 'k \<Rightarrow> 'v option"
    and look :: "'view \<Rightarrow> 'k \<Rightarrow> 'v"
    and app :: "'ev \<Rightarrow> 'view \<Rightarrow> 'view"
  assumes look_app: "look (app ev v) k = (case sets ev k of None \<Rightarrow> look v k | Some x \<Rightarrow> x)"
    and look_inject: "(\<And>k. look v k = look w k) \<Longrightarrow> v = w"
begin

lemma look_fold_untouched:
  "\<forall>ev\<in>set evs. sets ev k = None \<Longrightarrow> look (fold app evs v) k = look v k"
  by (induction evs arbitrary: v) (simp_all add: look_app)

lemma look_fold_touched:
  "\<exists>ev\<in>set evs. sets ev k \<noteq> None \<Longrightarrow> look (fold app evs v) k = look (fold app evs w) k"
proof (induction evs rule: rev_induct)
  case (snoc ev evs)
  then show ?case
    by (cases "sets ev k") (auto simp: look_app)
qed simp

text \<open>A subscriber that starts from a frame taken after some of the events, and then receives
  those events again followed by the rest, ends where the events lead.\<close>

theorem replayed_stretch:
  "fold app (seen @ rest) (fold app seen v) = fold app (seen @ rest) v"
proof (rule look_inject)
  fix k
  show "look (fold app (seen @ rest) (fold app seen v)) k = look (fold app (seen @ rest) v) k"
  proof (cases "\<exists>ev\<in>set (seen @ rest). sets ev k \<noteq> None")
    case True
    then show ?thesis
      by (rule look_fold_touched)
  next
    case False
    then show ?thesis
      by (simp add: look_fold_untouched)
  qed
qed

end

end
