(* ===== verification/Snapshot.thy ===== *)
theory Snapshot
  imports Models Views
begin

text \<open>
  The in-memory set of active clusters (\<open>shared/src/snapshot/cluster.rs\<close>) and the service that
  diffs every mutation round against it and publishes one event
  (\<open>api/src/services/cluster_delta.rs\<close>).
\<close>

section \<open>The snapshot\<close>

record ActiveCluster =
  ac_id :: cluster_id
  ac_chunks :: "ClusterChunk list"
  ac_total_weight :: int
  ac_total_fee :: int
  ac_first_seen_at :: instant

record ClusterState =
  cs_chunks :: "ClusterChunk list"
  cs_total_weight :: int
  cs_total_fee :: int
  cs_first_seen_at :: instant

type_synonym ClusterSnapshot = "cluster_id \<rightharpoonup> ClusterState"

definition ac_txids :: "ActiveCluster \<Rightarrow> txid list" where
  "ac_txids c = concat (map ck_txids (ac_chunks c))"

definition ac_state :: "ActiveCluster \<Rightarrow> ClusterState" where
  "ac_state c = \<lparr>cs_chunks = ac_chunks c, cs_total_weight = ac_total_weight c,
     cs_total_fee = ac_total_fee c, cs_first_seen_at = ac_first_seen_at c\<rparr>"

definition cs_txids :: "ClusterState \<Rightarrow> txid list" where
  "cs_txids st = concat (map ck_txids (cs_chunks st))"

definition reference :: "(int \<Rightarrow> int) \<Rightarrow> cluster_id \<Rightarrow> ClusterState \<Rightarrow> ClusterRef" where
  "reference vb id' state =
    \<lparr>rf_id = id',
     rf_chunks = map (\<lambda>chunk. \<lparr>kr_txids = ck_txids chunk, kr_fee = i64_of (ck_fee_sats chunk),
       kr_vsize = vsize_from_weight vb (i64_of (ck_weight chunk))\<rparr>) (cs_chunks state),
     rf_total_vsize = vsize_from_weight vb (cs_total_weight state),
     rf_total_fee = cs_total_fee state,
     rf_first_seen_at = cs_first_seen_at state\<rparr>"

definition put_cluster :: "ClusterSnapshot \<Rightarrow> ActiveCluster \<Rightarrow> ClusterSnapshot" where
  "put_cluster m c = m(ac_id c \<mapsto> ac_state c)"

definition snapshot_seed :: "ActiveCluster list \<Rightarrow> ClusterSnapshot" where
  "snapshot_seed clusters = foldl put_cluster Map.empty clusters"

definition snapshot_upsert ::
  "(int \<Rightarrow> int) \<Rightarrow> ActiveCluster \<Rightarrow> ClusterSnapshot \<Rightarrow> ClusterRef option \<times> ClusterSnapshot" where
  "snapshot_upsert vb cluster m =
    (let state = ac_state cluster in
     if m (ac_id cluster) = Some state then (None, m)
     else (Some (reference vb (ac_id cluster) state), m(ac_id cluster \<mapsto> state)))"

definition snapshot_remove :: "cluster_id \<Rightarrow> ClusterSnapshot \<Rightarrow> bool \<times> ClusterSnapshot" where
  "snapshot_remove id' m = (m id' \<noteq> None, m(id' := None))"

definition snapshot_len :: "ClusterSnapshot \<Rightarrow> nat" where
  "snapshot_len m = card (dom m)"

record ClusterStats =
  st_cluster_count :: nat
  st_tx_count :: nat
  st_total_weight :: int
  st_total_fee :: int

text \<open>The states in the iteration order \<open>it\<close> of the hash map.\<close>

definition snapshot_values :: "(cluster_id set \<Rightarrow> cluster_id list) \<Rightarrow> ClusterSnapshot \<Rightarrow> ClusterState list" where
  "snapshot_values it m = map (\<lambda>i. the (m i)) (it (dom m))"

definition snapshot_stats ::
  "(cluster_id set \<Rightarrow> cluster_id list) \<Rightarrow> ClusterSnapshot \<Rightarrow> ClusterStats" where
  "snapshot_stats it m =
    foldl (\<lambda>stats state. stats\<lparr>st_tx_count := st_tx_count stats + length (cs_txids state),
        st_total_weight := i64_of (st_total_weight stats + cs_total_weight state),
        st_total_fee := i64_of (st_total_fee stats + cs_total_fee state)\<rparr>)
      \<lparr>st_cluster_count = snapshot_len m, st_tx_count = 0, st_total_weight = 0, st_total_fee = 0\<rparr>
      (snapshot_values it m)"

definition missing_member_count ::
  "(cluster_id set \<Rightarrow> cluster_id list) \<Rightarrow> txid set \<Rightarrow> ClusterSnapshot \<Rightarrow> nat" where
  "missing_member_count it live m =
    length (filter (\<lambda>txid. txid \<notin> live) (concat (map cs_txids (snapshot_values it m))))"

text \<open>The loop of \<open>get_current_chunked\<close>: \<open>acc\<close> is the frame being filled.\<close>

fun fill_frames ::
  "nat \<Rightarrow> ClusterRef list \<Rightarrow> ClusterRef list \<Rightarrow> ClusterDeltaEvent list" where
  "fill_frames n acc [] = (if acc = [] then [] else [\<lparr>cd_upserted = acc, cd_removed = []\<rparr>])"
| "fill_frames n acc (r # rs) =
    (if length (acc @ [r]) = n
     then \<lparr>cd_upserted = acc @ [r], cd_removed = []\<rparr> # fill_frames n [] rs
     else fill_frames n (acc @ [r]) rs)"

definition get_current_chunked ::
  "(cluster_id set \<Rightarrow> cluster_id list) \<Rightarrow> (int \<Rightarrow> int) \<Rightarrow> nat \<Rightarrow> ClusterSnapshot \<Rightarrow> ClusterDeltaEvent list" where
  "get_current_chunked it vb chunk_size m =
    fill_frames (max chunk_size 1) [] (map (\<lambda>i. reference vb i (the (m i))) (it (dom m)))"

section \<open>Publishing changes\<close>

definition SNAPSHOT_CHUNK_SIZE :: nat where
  "SNAPSHOT_CHUNK_SIZE = 1000"

definition get_current_snapshot ::
  "(cluster_id set \<Rightarrow> cluster_id list) \<Rightarrow> (int \<Rightarrow> int) \<Rightarrow> ClusterSnapshot \<Rightarrow> ClusterDeltaEvent list" where
  "get_current_snapshot it vb m =
    (let frames = get_current_chunked it vb SNAPSHOT_CHUNK_SIZE m
     in if frames = [] then [\<lparr>cd_upserted = [], cd_removed = []\<rparr>] else frames)"

fun publish_upserts ::
  "(int \<Rightarrow> int) \<Rightarrow> ActiveCluster list \<Rightarrow> ClusterSnapshot \<Rightarrow> ClusterRef list \<times> ClusterSnapshot" where
  "publish_upserts vb [] m = ([], m)"
| "publish_upserts vb (c # cs) m =
    (let (changed, m1) = snapshot_upsert vb c m; (rs, m2) = publish_upserts vb cs m1
     in (case changed of Some r \<Rightarrow> r # rs | None \<Rightarrow> rs, m2))"

fun publish_removes :: "cluster_id list \<Rightarrow> ClusterSnapshot \<Rightarrow> cluster_id list \<times> ClusterSnapshot" where
  "publish_removes [] m = ([], m)"
| "publish_removes (i # is) m =
    (let (known, m1) = snapshot_remove i m; (rs, m2) = publish_removes is m1
     in (if known then i # rs else rs, m2))"

text \<open>\<open>publish\<close>: the event sent, if any, and the snapshot afterwards.\<close>

definition publish_clusters ::
  "(int \<Rightarrow> int) \<Rightarrow> ActiveCluster list \<Rightarrow> cluster_id list \<Rightarrow> ClusterSnapshot
    \<Rightarrow> ClusterDeltaEvent option \<times> ClusterSnapshot" where
  "publish_clusters vb upserted removed m =
    (let (us, m1) = publish_upserts vb upserted m; (rs, m2) = publish_removes removed m1
     in (if us = [] \<and> rs = [] then None else Some \<lparr>cd_upserted = us, cd_removed = rs\<rparr>, m2))"

section \<open>Subscribers\<close>

text \<open>What a subscriber holds after the events it received: references by cluster id; an event
  stores its upserted references and then forgets its removed ids.\<close>

type_synonym client_view = "cluster_id \<rightharpoonup> ClusterRef"

definition put_ref :: "client_view \<Rightarrow> ClusterRef \<Rightarrow> client_view" where
  "put_ref v r = v(rf_id r \<mapsto> r)"

definition client_apply :: "ClusterDeltaEvent \<Rightarrow> client_view \<Rightarrow> client_view" where
  "client_apply ev v =
    (\<lambda>i. if i \<in> set (cd_removed ev) then None
         else foldl put_ref v (cd_upserted ev) i)"

definition client_image :: "(int \<Rightarrow> int) \<Rightarrow> ClusterSnapshot \<Rightarrow> client_view" where
  "client_image vb m = (\<lambda>i. map_option (reference vb i) (m i))"

definition event_sets :: "ClusterDeltaEvent \<Rightarrow> cluster_id \<Rightarrow> ClusterRef option option" where
  "event_sets ev i =
    (if i \<in> set (cd_removed ev) then Some None
     else map_option Some (map_of (rev (map (\<lambda>r. (rf_id r, r)) (cd_upserted ev))) i))"

lemma foldl_upd_refs:
  "foldl put_ref v rs = v ++ map_of (rev (map (\<lambda>r. (rf_id r, r)) rs))"
  by (induction rs arbitrary: v) (simp_all add: put_ref_def map_add_upd)

interpretation cluster_stream: keyed_updates event_sets "\<lambda>v. v" client_apply
proof unfold_locales
  show "client_apply ev v k = (case event_sets ev k of None \<Rightarrow> v k | Some x \<Rightarrow> x)" for ev v k
    by (auto simp: client_apply_def event_sets_def foldl_upd_refs map_add_def split: option.splits)
  show "(\<And>k. v k = w k) \<Longrightarrow> v = w" for v w :: client_view
    by (rule ext)
qed

section \<open>What the loops compute\<close>

lemma reference_id [simp]: "rf_id (reference vb i st) = i"
  by (simp add: reference_def)

lemma put_ref_reference:
  "put_ref (client_image vb m) (reference vb i st) = client_image vb (m(i \<mapsto> st))"
  by (intro ext) (simp add: client_image_def put_ref_def)

lemma put_cluster_same: "m (ac_id c) = Some (ac_state c) \<Longrightarrow> put_cluster m c = m"
  unfolding put_cluster_def by (rule fun_upd_idem)

lemma publish_upserts_state: "snd (publish_upserts vb cs m) = foldl put_cluster m cs"
  by (induction cs arbitrary: m)
    (simp_all add: snapshot_upsert_def Let_def split_beta put_cluster_same put_cluster_def [symmetric])

lemma publish_upserts_image:
  "client_image vb (snd (publish_upserts vb cs m)) =
    foldl put_ref (client_image vb m) (fst (publish_upserts vb cs m))"
  by (induction cs arbitrary: m)
    (simp_all add: snapshot_upsert_def Let_def split_beta put_ref_reference)

lemma publish_upserts_silent: "fst (publish_upserts vb cs m) = [] \<Longrightarrow> snd (publish_upserts vb cs m) = m"
  by (induction cs arbitrary: m)
    (auto simp: snapshot_upsert_def Let_def split_beta split: if_splits)

lemma publish_removes_state: "snd (publish_removes is m) i = (if i \<in> set is then None else m i)"
  by (induction "is" arbitrary: m) (auto simp: snapshot_remove_def Let_def split_beta)

lemma publish_removes_known: "set (fst (publish_removes is m)) = {i \<in> set is. m i \<noteq> None}"
  by (induction "is" arbitrary: m) (auto simp: snapshot_remove_def Let_def split_beta split: if_splits)

lemma publish_clusters_state:
  "snd (publish_clusters vb us rs m) =
    (\<lambda>i. if i \<in> set rs then None else foldl put_cluster m us i)"
  by (intro ext) (simp add: publish_clusters_def Let_def publish_upserts_state publish_removes_state split_beta)

lemma publish_clusters_image:
  assumes "publish_clusters vb us rs m = (ev, m')"
  shows "client_image vb m' = (case ev of None \<Rightarrow> client_image vb m | Some e \<Rightarrow> client_apply e (client_image vb m))"
    and "ev = None \<Longrightarrow> m' = m"
proof -
  obtain ups m1 where u: "publish_upserts vb us m = (ups, m1)"
    by force
  obtain rems m2 where r: "publish_removes rs m1 = (rems, m2)"
    by force
  have ev: "ev = (if ups = [] \<and> rems = [] then None else Some \<lparr>cd_upserted = ups, cd_removed = rems\<rparr>)"
    and m': "m' = m2"
    using assms by (auto simp: publish_clusters_def u r split: if_splits)
  have m2: "m2 = (\<lambda>i. if i \<in> set rs then None else m1 i)" and rems: "set rems = {i \<in> set rs. m1 i \<noteq> None}"
    using publish_removes_state [of rs m1] publish_removes_known [of rs m1] by (auto simp: r)
  have m1: "client_image vb m1 = foldl put_ref (client_image vb m) ups"
    using publish_upserts_image [of vb us m] by (simp add: u)
  have "client_image vb m2 = (\<lambda>i. if i \<in> set rems then None else client_image vb m1 i)"
    by (auto simp: m2 rems client_image_def)
  then have step: "client_image vb m2 = client_apply \<lparr>cd_upserted = ups, cd_removed = rems\<rparr> (client_image vb m)"
    by (intro ext) (simp add: client_apply_def m1)
  have silent: "m2 = m" if "ups = []" "rems = []"
  proof -
    have "m1 = m"
      using publish_upserts_silent [of vb us m] that by (simp add: u)
    with rems that show ?thesis
      by (auto simp: m2)
  qed
  show "client_image vb m' = (case ev of None \<Rightarrow> client_image vb m | Some e \<Rightarrow> client_apply e (client_image vb m))"
    using step silent by (auto simp: ev m')
  show "ev = None \<Longrightarrow> m' = m"
    using silent by (simp add: ev m' split: if_splits)
qed

lemma fill_frames_chunks:
  "length acc < n \<Longrightarrow> map cd_upserted (fill_frames n acc rs) = chunks_of n (acc @ rs)"
proof (induction n acc rs rule: fill_frames.induct)
  case (1 n acc)
  then show ?case
    by (cases "acc = []") (simp_all add: chunks_of_step)
next
  case (2 n acc r rs)
  show ?case
  proof (cases "length (acc @ [r]) = n")
    case True
    then have "chunks_of n (acc @ r # rs) = (acc @ [r]) # chunks_of n rs"
      using chunks_of_step [of "acc @ r # rs" n] by auto
    with True 2 show ?thesis
      by simp
  next
    case False
    with 2 show ?thesis
      by simp
  qed
qed

lemma fill_frames_upserts_only: "ev \<in> set (fill_frames n acc rs) \<Longrightarrow> cd_removed ev = []"
  by (induction n acc rs rule: fill_frames.induct) (auto split: if_splits)

lemma fold_frames:
  "\<forall>ev\<in>set evs. cd_removed ev = [] \<Longrightarrow>
    fold client_apply evs v = foldl put_ref v (concat (map cd_upserted evs))"
  by (induction evs arbitrary: v) (simp_all add: client_apply_def)

lemma foldl_references:
  "foldl put_ref v (map (\<lambda>i. reference vb i (f i)) is) =
    (\<lambda>i. if i \<in> set is then Some (reference vb i (f i)) else v i)"
  by (induction "is" arbitrary: v) (auto simp: put_ref_def)

lemma get_current_chunked_image:
  assumes "iterates it" "finite (dom m)"
  shows "fold client_apply (get_current_chunked it vb n m) Map.empty = client_image vb m"
proof -
  let ?rs = "map (\<lambda>i. reference vb i (the (m i))) (it (dom m))"
  have "concat (map cd_upserted (get_current_chunked it vb n m)) = ?rs"
    by (simp add: get_current_chunked_def fill_frames_chunks)
  moreover have "\<forall>ev\<in>set (get_current_chunked it vb n m). cd_removed ev = []"
    by (auto simp: get_current_chunked_def dest: fill_frames_upserts_only)
  ultimately have "fold client_apply (get_current_chunked it vb n m) Map.empty =
      foldl put_ref Map.empty ?rs"
    by (simp add: fold_frames)
  also have "\<dots> = client_image vb m"
    using assms by (intro ext) (auto simp: foldl_references client_image_def iter_simps)
  finally show ?thesis .
qed

lemma publish_clusters_finite:
  "finite (dom m) \<Longrightarrow> finite (dom (snd (publish_clusters vb us rs m)))"
proof -
  assume fin: "finite (dom m)"
  have "dom (foldl put_cluster m us) = dom m \<union> ac_id ` set us"
    by (induction us arbitrary: m) (auto simp: put_cluster_def)
  then have "finite (dom (foldl put_cluster m us))"
    using fin by simp
  then show ?thesis
    by (rule finite_subset [rotated]) (auto simp: publish_clusters_state split: if_splits)
qed

text \<open>A run of mutation rounds: the events broadcast, in order, and the final snapshot.\<close>

fun publish_rounds ::
  "(int \<Rightarrow> int) \<Rightarrow> (ActiveCluster list \<times> cluster_id list) list \<Rightarrow> ClusterSnapshot
    \<Rightarrow> ClusterDeltaEvent list \<times> ClusterSnapshot" where
  "publish_rounds vb [] m = ([], m)"
| "publish_rounds vb ((us, rs) # rounds) m =
    (let (ev, m1) = publish_clusters vb us rs m; (evs, m2) = publish_rounds vb rounds m1
     in (case ev of None \<Rightarrow> evs | Some e \<Rightarrow> e # evs, m2))"

lemma publish_rounds_append:
  "publish_rounds vb (xs @ ys) m =
    (fst (publish_rounds vb xs m) @ fst (publish_rounds vb ys (snd (publish_rounds vb xs m))),
     snd (publish_rounds vb ys (snd (publish_rounds vb xs m))))"
  by (induction vb xs m rule: publish_rounds.induct) (auto simp: Let_def split: prod.splits option.splits)

lemma publish_rounds_image:
  "client_image vb (snd (publish_rounds vb rounds m)) =
    fold client_apply (fst (publish_rounds vb rounds m)) (client_image vb m)"
proof (induction vb rounds m rule: publish_rounds.induct)
  case (2 vb us rs rounds m)
  obtain ev m1 where p: "publish_clusters vb us rs m = (ev, m1)"
    by force
  with 2 publish_clusters_image(1) [OF p] show ?case
    by (simp add: Let_def split_beta split: option.splits)
qed simp

lemma publish_rounds_finite: "finite (dom m) \<Longrightarrow> finite (dom (snd (publish_rounds vb rounds m)))"
proof (induction rounds arbitrary: m)
  case (Cons r rounds)
  then show ?case
    using publish_clusters_finite [of m vb "fst r" "snd r"] by (cases r) (simp add: Let_def split_beta)
qed simp

lemma get_current_snapshot_image:
  assumes "iterates it" "finite (dom m)"
  shows "fold client_apply (get_current_snapshot it vb m) Map.empty = client_image vb m"
  using get_current_chunked_image [OF assms, of vb SNAPSHOT_CHUNK_SIZE]
  by (auto simp: get_current_snapshot_def Let_def client_apply_def)

lemma snapshot_stats_foldl:
  "foldl (\<lambda>stats state. stats\<lparr>st_tx_count := st_tx_count stats + length (cs_txids state),
        st_total_weight := i64_of (st_total_weight stats + cs_total_weight state),
        st_total_fee := i64_of (st_total_fee stats + cs_total_fee state)\<rparr>)
      \<lparr>st_cluster_count = c, st_tx_count = n, st_total_weight = i64_of w, st_total_fee = i64_of f\<rparr> sts =
   \<lparr>st_cluster_count = c, st_tx_count = n + sum_list (map (length \<circ> cs_txids) sts),
    st_total_weight = i64_of (w + sum_list (map cs_total_weight sts)),
    st_total_fee = i64_of (f + sum_list (map cs_total_fee sts))\<rparr>"
  by (induction sts arbitrary: n w f) (simp_all add: i64_of_add add.assoc)

lemma sum_list_values:
  fixes f :: "ClusterState \<Rightarrow> 'a::comm_monoid_add"
  assumes "iterates it" "finite (dom m)"
  shows "sum_list (map f (snapshot_values it m)) = (\<Sum>i\<in>dom m. f (the (m i)))"
  using assms sum_list_distinct_conv_sum_set [of "it (dom m)" "\<lambda>i. f (the (m i))"]
  by (simp add: snapshot_values_def iter_simps comp_def)

section \<open>Properties\<close>

text \<open>C19: A websocket subscriber that subscribes to the change stream, then takes the current
  snapshot, then consumes the stream without lagging behind the channel's capacity (what a lag does
  is in theory Bus) ends with exactly the active clusters, whatever rounds were
  published between the subscription and the snapshot (those are received twice) and afterwards.\<close>

theorem cluster_stream_no_gap:
  assumes "iterates it" "finite (dom m)"
    and "publish_rounds vb between m = (seen, m1)"
    and "publish_rounds vb afterwards m1 = (later, m2)"
  shows "fold client_apply (get_current_snapshot it vb m1 @ seen @ later) Map.empty = client_image vb m2"
proof -
  have fin: "finite (dom m1)"
    using publish_rounds_finite [OF assms(2), of vb between] assms(3) by simp
  have "fold client_apply (get_current_snapshot it vb m1 @ seen @ later) Map.empty =
      fold client_apply (seen @ later) (client_image vb m1)"
    by (simp add: get_current_snapshot_image [OF assms(1) fin])
  also have "client_image vb m1 = fold client_apply seen (client_image vb m)"
    using publish_rounds_image [of vb between m] assms(3) by simp
  also have "fold client_apply (seen @ later) (fold client_apply seen (client_image vb m)) =
      fold client_apply (seen @ later) (client_image vb m)"
    by (rule cluster_stream.replayed_stretch)
  also have "\<dots> = client_image vb m2"
    using publish_rounds_image [of vb between m] publish_rounds_image [of vb afterwards m1] assms(3,4)
    by simp
  finally show ?thesis .
qed

definition sample_cluster :: "cluster_id \<Rightarrow> txid \<Rightarrow> ActiveCluster" where
  "sample_cluster i t = \<lparr>ac_id = i, ac_chunks = [\<lparr>ck_txids = [t], ck_fee_sats = 10, ck_weight = 400\<rparr>],
     ac_total_weight = 400, ac_total_fee = 10, ac_first_seen_at = 0\<rparr>"

theorem cluster_stream_no_gap_witness:
  "fold client_apply (get_current_snapshot sorted_list_of_set (\<lambda>w. (w + 3) div 4)
      (snd (publish_rounds (\<lambda>w. (w + 3) div 4) [([sample_cluster 1 ''a''], [])] Map.empty))
     @ fst (publish_rounds (\<lambda>w. (w + 3) div 4) [([sample_cluster 1 ''a''], [])] Map.empty)
     @ fst (publish_rounds (\<lambda>w. (w + 3) div 4) [([sample_cluster 2 ''b''], [1])]
         (snd (publish_rounds (\<lambda>w. (w + 3) div 4) [([sample_cluster 1 ''a''], [])] Map.empty)))) Map.empty =
   client_image (\<lambda>w. (w + 3) div 4) [2 \<mapsto> ac_state (sample_cluster 2 ''b'')]"
  (is "?lhs = _")
proof -
  let ?vb = "\<lambda>w::int. (w + 3) div 4"
  let ?m1 = "snd (publish_rounds ?vb [([sample_cluster 1 ''a''], [])] Map.empty)"
  have "?lhs = client_image ?vb (snd (publish_rounds ?vb [([sample_cluster 2 ''b''], [1])] ?m1))"
    by (rule cluster_stream_no_gap [OF iterates_sorted _ prod.collapse [symmetric] prod.collapse [symmetric]])
      simp
  also have "snd (publish_rounds ?vb [([sample_cluster 2 ''b''], [1])] ?m1) =
      [2 \<mapsto> ac_state (sample_cluster 2 ''b'')]"
    by (intro ext) (simp add: Let_def split_beta publish_clusters_state put_cluster_def sample_cluster_def)
  finally show ?thesis .
qed

text \<open>The first frames a subscriber receives list every active cluster exactly once, at most
  1000 per frame and all but the last full, and there is always at least one frame.\<close>

theorem snapshot_frames_exact:
  assumes "iterates it" "finite (dom m)"
  shows "get_current_snapshot it vb m \<noteq> [] \<and>
    (\<forall>ev\<in>set (get_current_snapshot it vb m). cd_removed ev = [] \<and> length (cd_upserted ev) \<le> 1000) \<and>
    (\<forall>ev\<in>set (butlast (get_current_snapshot it vb m)). length (cd_upserted ev) = 1000) \<and>
    distinct (map rf_id (concat (map cd_upserted (get_current_snapshot it vb m)))) \<and>
    set (concat (map cd_upserted (get_current_snapshot it vb m))) =
      {reference vb i st | i st. m i = Some st}"
proof -
  let ?rs = "map (\<lambda>i. reference vb i (the (m i))) (it (dom m))"
  let ?fs = "get_current_chunked it vb SNAPSHOT_CHUNK_SIZE m"
  let ?gs = "get_current_snapshot it vb m"
  have ups: "map cd_upserted ?fs = chunks_of 1000 ?rs"
    by (simp add: get_current_chunked_def fill_frames_chunks SNAPSHOT_CHUNK_SIZE_def)
  have gs: "?gs = ?fs \<or> ?gs = [\<lparr>cd_upserted = [], cd_removed = []\<rparr>] \<and> ?fs = []"
    by (simp add: get_current_snapshot_def Let_def)
  have cat: "concat (map cd_upserted ?gs) = ?rs"
    using gs ups concat_chunks_of [of 1000 ?rs] by fastforce
  have small: "length (cd_upserted ev) \<le> 1000" if "ev \<in> set ?fs" for ev
  proof -
    have "cd_upserted ev \<in> set (chunks_of 1000 ?rs)"
      using that ups [symmetric] by simp
    then show ?thesis
      using chunks_of_bound by blast
  qed
  have full: "length (cd_upserted ev) = 1000" if "ev \<in> set (butlast ?fs)" for ev
  proof -
    have "cd_upserted ev \<in> set (butlast (chunks_of 1000 ?rs))"
      using that by (simp add: ups [symmetric] map_butlast [symmetric])
    then show ?thesis
      by (rule chunks_of_all_but_last_full)
  qed
  have "map rf_id ?rs = it (dom m)"
    by (simp add: comp_def)
  then have d: "distinct (map rf_id (concat (map cd_upserted ?gs)))"
    using assms by (simp add: cat iter_simps)
  have s: "set ?rs = {reference vb i st | i st. m i = Some st}"
    using assms by (force simp: iter_simps)
  have rem: "cd_removed ev = []" if "ev \<in> set ?fs" for ev
    using that by (auto simp: get_current_chunked_def dest: fill_frames_upserts_only)
  show ?thesis
    using gs small full rem d s cat by (elim disjE) (auto simp: get_current_snapshot_def Let_def)
qed

theorem snapshot_frames_exact_witness:
  "get_current_snapshot sorted_list_of_set (\<lambda>w. w) [3 \<mapsto> ac_state (sample_cluster 3 ''c'')] \<noteq> []"
  using snapshot_frames_exact [OF iterates_sorted, of "[3 \<mapsto> ac_state (sample_cluster 3 ''c'')]" "\<lambda>w. w"]
  by simp

text \<open>The totals reported for the active set do not depend on the iteration order of the hash
  map: they are the number of clusters, of member transactions, and the sums of weights and
  fees, wrapping at 64 bits.\<close>

theorem snapshot_stats_exact:
  assumes "iterates it" "finite (dom m)"
  shows "snapshot_stats it m =
    \<lparr>st_cluster_count = card (dom m), st_tx_count = (\<Sum>i\<in>dom m. length (cs_txids (the (m i)))),
     st_total_weight = i64_of (\<Sum>i\<in>dom m. cs_total_weight (the (m i))),
     st_total_fee = i64_of (\<Sum>i\<in>dom m. cs_total_fee (the (m i)))\<rparr>"
  using snapshot_stats_foldl [of "snapshot_len m" 0 0 0 "snapshot_values it m"]
    sum_list_values [OF assms, of "length \<circ> cs_txids"]
    sum_list_values [OF assms, of cs_total_weight] sum_list_values [OF assms, of cs_total_fee]
  by (simp add: snapshot_stats_def snapshot_len_def i64_of_def comp_def)

theorem snapshot_stats_exact_witness:
  "st_tx_count (snapshot_stats sorted_list_of_set [3 \<mapsto> ac_state (sample_cluster 3 ''c'')]) = 1"
  using snapshot_stats_exact [OF iterates_sorted, of "[3 \<mapsto> ac_state (sample_cluster 3 ''c'')]"]
  by (simp add: sample_cluster_def ac_state_def cs_txids_def)

end
