(* ===== verification/Cluster_Repo.thy ===== *)
theory Cluster_Repo
  imports Database Snapshot
begin

text \<open>
  The two repositories over clusters: \<open>api/src/db/repositories/cluster_membership.rs\<close>, which
  writes cluster rows, versioned chunk rows and the back-links of transactions, and
  \<open>api/src/db/repositories/cluster.rs\<close>, which reads them. The invariant \<open>cluster_inv\<close> says how
  the three tables fit together; every writer keeps it.
\<close>

section \<open>Writers\<close>

definition CLUSTER_CHUNK_INSERT_CHUNK_SIZE :: nat where
  "CLUSTER_CHUNK_INSERT_CHUNK_SIZE = 9000"

datatype ClusterClosing = ClosingEvicted | ClosingMerged

definition closing_status :: "ClusterClosing \<Rightarrow> ClusterStatus" where
  "closing_status c = (case c of ClosingEvicted \<Rightarrow> Evicted | ClosingMerged \<Rightarrow> Merged)"

record ClusterVersionUpdate =
  vu_cluster_id :: cluster_id
  vu_chunks :: "ClusterChunk list"

definition totals_weight :: "ClusterChunk list \<Rightarrow> int" where
  "totals_weight chunks = i64_sum (map (\<lambda>chunk. i64_of (ck_weight chunk)) chunks)"

definition totals_fee :: "ClusterChunk list \<Rightarrow> int" where
  "totals_fee chunks = i64_sum (map (\<lambda>chunk. i64_of (ck_fee_sats chunk)) chunks)"

definition chunk_rows :: "cluster_id \<Rightarrow> int \<Rightarrow> ClusterChunk list \<Rightarrow> bool \<Rightarrow> ClusterChunkRow list" where
  "chunk_rows cluster_id version chunks live =
    map (\<lambda>(position, chunk). \<lparr>ch_cluster_id = cluster_id, ch_version = version,
        ch_position = i16_of (int position), ch_fee = i64_of (ck_fee_sats chunk),
        ch_weight = i64_of (ck_weight chunk), ch_txids = ck_txids chunk, ch_live = live\<rparr>)
      (zip [0..<length chunks] chunks)"

definition chunk_key :: "ClusterChunkRow \<Rightarrow> cluster_id \<times> int \<times> int" where
  "chunk_key r = (ch_cluster_id r, ch_version r, ch_position r)"

text \<open>One \<open>INSERT\<close> per batch; the primary key \<open>(cluster_id, version, position)\<close> is enforced.\<close>

fun insert_chunk_batches :: "ClusterChunkRow list list \<Rightarrow> unit statement" where
  "insert_chunk_batches [] d = Inr ((), d)"
| "insert_chunk_batches (batch # batches) d =
    (if distinct (map chunk_key (db_chunks d @ batch))
     then insert_chunk_batches batches (d\<lparr>db_chunks := db_chunks d @ batch\<rparr>)
     else Inl UniqueViolation)"

definition insert_chunks :: "ClusterChunkRow list \<Rightarrow> unit statement" where
  "insert_chunks rows = insert_chunk_batches (chunks_of CLUSTER_CHUNK_INSERT_CHUNK_SIZE rows)"

definition insert_hollow_members :: "instant \<Rightarrow> txid list \<Rightarrow> db \<Rightarrow> db" where
  "insert_hollow_members now txids d =
    (if txids = [] then d
     else d\<lparr>db_transactions := insert_hollow_rows now txids (db_transactions d)\<rparr>)"

text \<open>The ids are drawn from the sequence first. Columns the insert leaves out take their
  defaults: active, version 1, not confirmed, not closed. \<open>RETURNING\<close> hands back the inserted
  rows, so looking a row's chunks up by its id cannot fail.\<close>

definition new_cluster_row :: "cluster_id \<Rightarrow> NewCluster \<Rightarrow> ClusterRow" where
  "new_cluster_row i cluster = \<lparr>cr_id = i, cr_status = Active, cr_version = 1,
     cr_total_weight = totals_weight (nc_chunks cluster), cr_total_fee = totals_fee (nc_chunks cluster),
     cr_first_seen_at = nc_first_seen_at cluster, cr_confirmed_at = None, cr_closed_at = None\<rparr>"

definition link_members :: "ClusterChunkRow list \<Rightarrow> Transaction \<Rightarrow> Transaction" where
  "link_members chunks t =
    (case find (\<lambda>r. tx_txid t \<in> set (ch_txids r)) chunks of
       Some r \<Rightarrow> t\<lparr>tx_cluster_id := Some (ch_cluster_id r)\<rparr> | None \<Rightarrow> t)"

definition insert_in :: "instant \<Rightarrow> NewCluster list \<Rightarrow> Cluster list statement" where
  "insert_in now new d =
    (let ids = map (\<lambda>k. db_cluster_seq d + int k) [0..<length new];
         rows = map (\<lambda>(i, cluster). new_cluster_row i cluster) (zip ids new);
         d1 = d\<lparr>db_cluster_seq := db_cluster_seq d + int (length new),
                db_clusters := db_clusters d @ rows\<rparr>
     in case insert_chunks (concat (map (\<lambda>(i, cluster). chunk_rows i 1 (nc_chunks cluster) True) (zip ids new))) d1 of
          Inl e \<Rightarrow> Inl e
        | Inr (_, d2) \<Rightarrow>
            (let members = concat (map (\<lambda>cluster. concat (map ck_txids (nc_chunks cluster))) new);
                 d3 = insert_hollow_members now members d2;
                 linked = filter (\<lambda>r. ch_cluster_id r \<in> set ids) (db_chunks d3);
                 d4 = d3\<lparr>db_transactions := map (link_members linked) (db_transactions d3)\<rparr>
             in Inr (map (\<lambda>(row, cluster). from_row row (nc_chunks cluster)) (zip rows new), d4)))"

definition insert_with_members :: "fault \<Rightarrow> instant \<Rightarrow> NewCluster \<Rightarrow> db \<Rightarrow> (RepoError + Cluster) \<times> db" where
  "insert_with_members fault now new =
    query fault (\<lambda>d. case insert_in now [new] d of
      Inl e \<Rightarrow> Inl e | Inr (inserted, d') \<Rightarrow> Inr (hd inserted, d'))"

text \<open>One transaction per batch: a fault at a later batch leaves the earlier ones committed. The
  faults are those of the batches in order; no fault means the batch runs.\<close>

fun insert_batches ::
  "(nat \<Rightarrow> fault) \<Rightarrow> instant \<Rightarrow> nat \<Rightarrow> NewCluster list list \<Rightarrow> db \<Rightarrow> (RepoError + Cluster list) \<times> db" where
  "insert_batches faults now k [] d = (Inr [], d)"
| "insert_batches faults now k (batch # batches) d =
    (case query (faults k) (insert_in now batch) d of
       (Inl e, d') \<Rightarrow> (Inl e, d')
     | (Inr rows, d') \<Rightarrow> (case insert_batches faults now (Suc k) batches d' of
          (Inl e, d'') \<Rightarrow> (Inl e, d'')
        | (Inr rest, d'') \<Rightarrow> (Inr (rows @ rest), d'')))"

definition insert_many_with_members ::
  "(nat \<Rightarrow> fault) \<Rightarrow> instant \<Rightarrow> NewCluster list \<Rightarrow> db \<Rightarrow> (RepoError + Cluster list) \<times> db" where
  "insert_many_with_members faults now new d =
    insert_batches faults now 0 (chunks_of MEMPOOL_DELTA_INSERT_CHUNK_SIZE new) d"

definition current_chunks :: "ClusterRow \<Rightarrow> db \<Rightarrow> ClusterChunk list" where
  "current_chunks row d =
    map chunk_of_row (sort_key ch_position
      (filter (\<lambda>r. ch_cluster_id r = cr_id row \<and> ch_version r = cr_version row) (db_chunks d)))"

definition set_live :: "(ClusterChunkRow \<Rightarrow> bool) \<Rightarrow> bool \<Rightarrow> db \<Rightarrow> db" where
  "set_live P b d = d\<lparr>db_chunks := map (\<lambda>r. if P r then r\<lparr>ch_live := b\<rparr> else r) (db_chunks d)\<rparr>"

definition replace_chunks_in :: "instant \<Rightarrow> ClusterVersionUpdate \<Rightarrow> bool \<Rightarrow> Cluster statement" where
  "replace_chunks_in now update live d =
    (let cid = vu_cluster_id update; chunks = vu_chunks update in
     case find (\<lambda>row. cr_id row = cid) (db_clusters d) of
       None \<Rightarrow> Inl NotFound
     | Some old \<Rightarrow>
         (let current = current_chunks old d in
          if cr_status old \<noteq> Active \<or> current = chunks then Inr (from_row old current, d)
          else
            (let version = cr_version old + 1;
                 d1 = set_live (\<lambda>r. ch_cluster_id r = cid \<and> ch_version r = cr_version old) False d
             in case insert_chunks (chunk_rows cid version chunks live) d1 of
                  Inl e \<Rightarrow> Inl e
                | Inr (_, d2) \<Rightarrow>
                    (let row = old\<lparr>cr_version := version, cr_total_weight := totals_weight chunks,
                           cr_total_fee := totals_fee chunks\<rparr>;
                         d3 = d2\<lparr>db_clusters := map (\<lambda>r. if cr_id r = cid then row else r) (db_clusters d2)\<rparr>;
                         cluster = from_row row chunks;
                         members = cl_txids cluster;
                         d4 = d3\<lparr>db_transactions := map (\<lambda>t. if tx_cluster_id t = Some cid \<and> tx_txid t \<notin> set members
                                 then t\<lparr>tx_cluster_id := None\<rparr> else t) (db_transactions d3)\<rparr>;
                         d5 = insert_hollow_members now members d4;
                         d6 = d5\<lparr>db_transactions := map (\<lambda>t. if tx_txid t \<in> set members \<and> tx_cluster_id t \<noteq> Some cid
                                 then t\<lparr>tx_cluster_id := Some cid\<rparr> else t) (db_transactions d5)\<rparr>
                     in Inr (cluster, d6)))))"

definition replace_chunks ::
  "fault \<Rightarrow> instant \<Rightarrow> ClusterVersionUpdate \<Rightarrow> db \<Rightarrow> (RepoError + Cluster) \<times> db" where
  "replace_chunks fault now update = query fault (replace_chunks_in now update True)"

definition retire_chunks :: "cluster_id list \<Rightarrow> db \<Rightarrow> db" where
  "retire_chunks cluster_ids d = set_live (\<lambda>r. ch_cluster_id r \<in> set cluster_ids \<and> ch_live r) False d"

definition active_among :: "cluster_id list \<Rightarrow> db \<Rightarrow> cluster_id list" where
  "active_among ids d =
    sort (map cr_id (filter (\<lambda>row. cr_id row \<in> set ids \<and> cr_status row = Active) (db_clusters d)))"

definition update_clusters :: "cluster_id list \<Rightarrow> (ClusterRow \<Rightarrow> ClusterRow) \<Rightarrow> db \<Rightarrow> db" where
  "update_clusters ids f d =
    d\<lparr>db_clusters := map (\<lambda>row. if cr_id row \<in> set ids then f row else row) (db_clusters d)\<rparr>"

definition close_many_in :: "instant \<Rightarrow> cluster_id list \<Rightarrow> ClusterClosing \<Rightarrow> nat statement" where
  "close_many_in now ids closing d =
    (let closing_ids = active_among ids d in
     if closing_ids = [] then Inr (0, d)
     else
       (let d1 = update_clusters closing_ids
                   (\<lambda>row. row\<lparr>cr_status := closing_status closing, cr_closed_at := Some now\<rparr>) d;
            d2 = retire_chunks closing_ids d1;
            d3 = d2\<lparr>db_transactions := map (\<lambda>t.
                   if (\<exists>i \<in> set closing_ids. tx_cluster_id t = Some i)
                   then t\<lparr>tx_cluster_id := None\<rparr> else t) (db_transactions d2)\<rparr>
        in Inr (length closing_ids, d3)))"

definition close_many ::
  "fault \<Rightarrow> instant \<Rightarrow> cluster_id list \<Rightarrow> ClusterClosing \<Rightarrow> db \<Rightarrow> (RepoError + nat) \<times> db" where
  "close_many fault now ids closing d =
    (if ids = [] then (Inr 0, d) else query fault (close_many_in now ids closing) d)"

definition mark_evicted :: "fault \<Rightarrow> instant \<Rightarrow> cluster_id list \<Rightarrow> db \<Rightarrow> (RepoError + nat) \<times> db" where
  "mark_evicted fault now ids = close_many fault now ids ClosingEvicted"

definition mark_merged :: "fault \<Rightarrow> instant \<Rightarrow> cluster_id list \<Rightarrow> db \<Rightarrow> (RepoError + nat) \<times> db" where
  "mark_merged fault now ids = close_many fault now ids ClosingMerged"

definition confirm_many_in :: "instant \<Rightarrow> cluster_id list \<Rightarrow> instant \<Rightarrow> nat statement" where
  "confirm_many_in now ids confirmed_at d =
    (let pending = active_among ids d in
     if pending = [] then Inr (0, d)
     else
       (let d1 = update_clusters pending (\<lambda>row. row\<lparr>cr_confirmed_at := Some confirmed_at,
                   cr_status := Confirmed, cr_closed_at := Some now\<rparr>) d
        in Inr (length pending, retire_chunks pending d1)))"

definition confirm_many ::
  "fault \<Rightarrow> instant \<Rightarrow> cluster_id list \<Rightarrow> instant \<Rightarrow> db \<Rightarrow> (RepoError + nat) \<times> db" where
  "confirm_many fault now ids confirmed_at d =
    (if ids = [] then (Inr 0, d) else query fault (confirm_many_in now ids confirmed_at) d)"

fun replace_each :: "instant \<Rightarrow> ClusterVersionUpdate list \<Rightarrow> unit statement" where
  "replace_each now [] d = Inr ((), d)"
| "replace_each now (u # us) d =
    (case replace_chunks_in now u False d of Inl e \<Rightarrow> Inl e | Inr (_, d') \<Rightarrow> replace_each now us d')"

definition trim_and_confirm_many ::
  "fault \<Rightarrow> instant \<Rightarrow> ClusterVersionUpdate list \<Rightarrow> instant \<Rightarrow> db \<Rightarrow> (RepoError + nat) \<times> db" where
  "trim_and_confirm_many fault now updates confirmed_at d =
    (if updates = [] then (Inr 0, d)
     else
       (let sorted_updates = sort_key vu_cluster_id updates; ids = map vu_cluster_id sorted_updates
        in query fault (\<lambda>d. case replace_each now sorted_updates d of
             Inl e \<Rightarrow> Inl e | Inr (_, d') \<Rightarrow> confirm_many_in now ids confirmed_at d') d))"

section \<open>Readers\<close>

datatype ClusterFilter = FilterIds "cluster_id list" | FilterActive

definition filter_matches :: "ClusterFilter \<Rightarrow> ClusterRow \<Rightarrow> bool" where
  "filter_matches f row = (case f of FilterIds ids \<Rightarrow> cr_id row \<in> set ids | FilterActive \<Rightarrow> cr_status row = Active)"

text \<open>The left join of \<open>load_clusters\<close>, ordered by cluster id and position: a cluster without
  chunks contributes one row with no chunk.\<close>

definition joined_rows :: "ClusterFilter \<Rightarrow> db \<Rightarrow> (ClusterRow \<times> ClusterChunkRow option) list" where
  "joined_rows f d =
    concat (map (\<lambda>row.
      (let cs = sort_key ch_position
          (filter (\<lambda>r. ch_cluster_id r = cr_id row \<and> ch_version r = cr_version row) (db_chunks d))
       in if cs = [] then [(row, None)] else map (\<lambda>c. (row, Some c)) cs))
      (sort_key cr_id (filter (filter_matches f) (db_clusters d))))"

text \<open>The grouping loop: \<open>out\<close> is the vector built so far.\<close>

definition group_step :: "Cluster list \<Rightarrow> ClusterRow \<times> ClusterChunkRow option \<Rightarrow> Cluster list" where
  "group_step out p =
    (case p of (row, chunk) \<Rightarrow>
      (let out1 = (if out = [] \<or> cl_id (last out) \<noteq> cr_id row then out @ [from_row row []] else out)
       in case chunk of
            None \<Rightarrow> out1
          | Some c \<Rightarrow> butlast out1 @ [(last out1)\<lparr>cl_chunks := cl_chunks (last out1) @ [chunk_of_row c]\<rparr>]))"

definition load_clusters :: "ClusterFilter \<Rightarrow> db \<Rightarrow> Cluster list" where
  "load_clusters f d = foldl group_step [] (joined_rows f d)"

definition ACTIVE_IDS_JOIN_MIN_TXIDS :: nat where
  "ACTIVE_IDS_JOIN_MIN_TXIDS = 64"

definition find_active_ids_by_txids :: "fault \<Rightarrow> txid list \<Rightarrow> db \<Rightarrow> RepoError + cluster_id list" where
  "find_active_ids_by_txids fault txids d =
    (if txids = [] then Inr []
     else fst (query fault (\<lambda>d.
       if length txids < ACTIVE_IDS_JOIN_MIN_TXIDS
       then Inr (remdups (map ch_cluster_id
              (filter (\<lambda>r. ch_live r \<and> set (ch_txids r) \<inter> set txids \<noteq> {}) (db_chunks d))), d)
       else Inr (remdups (map cr_id
              (filter (\<lambda>c. cr_status c = Active \<and>
                 (\<exists>r \<in> set (db_chunks d). ch_cluster_id r = cr_id c \<and> ch_version r = cr_version c \<and>
                    set (ch_txids r) \<inter> set txids \<noteq> {})) (db_clusters d))), d)) d))"

definition find_by_ids :: "fault \<Rightarrow> cluster_id list \<Rightarrow> db \<Rightarrow> RepoError + Cluster list" where
  "find_by_ids fault ids d = fst (query fault (\<lambda>d. Inr (load_clusters (FilterIds ids) d, d)) d)"

definition find_active :: "fault \<Rightarrow> db \<Rightarrow> RepoError + Cluster list" where
  "find_active fault d = fst (query fault (\<lambda>d. Inr (load_clusters FilterActive d, d)) d)"

text \<open>\<open>ORDER BY live DESC, closed_at DESC NULLS LAST, id DESC LIMIT 1\<close>, as a smallest key.\<close>

definition find_by_txid_key :: "ClusterRow \<times> ClusterChunkRow \<Rightarrow> bool \<times> (bool \<times> int) \<times> int" where
  "find_by_txid_key p =
    (case p of (c, r) \<Rightarrow>
      (\<not> ch_live r, (case cr_closed_at c of None \<Rightarrow> (True, 0) | Some t \<Rightarrow> (False, - t)), - cr_id c))"

definition find_by_txid :: "fault \<Rightarrow> txid \<Rightarrow> db \<Rightarrow> RepoError + Cluster option" where
  "find_by_txid fault txid d =
    fst (query fault (\<lambda>d.
      (let hits = filter (\<lambda>(c, r). ch_cluster_id r = cr_id c \<and> ch_version r = cr_version c \<and>
                    txid \<in> set (ch_txids r)) (List.product (db_clusters d) (db_chunks d))
       in case sort_key find_by_txid_key hits of
            [] \<Rightarrow> Inr (None, d)
          | (c, _) # _ \<Rightarrow>
              (let found = load_clusters (FilterIds [cr_id c]) d
               in Inr (if found = [] then None else Some (last found), d)))) d)"

definition active_cluster_from :: "Cluster \<Rightarrow> ActiveCluster" where
  "active_cluster_from c = \<lparr>ac_id = cl_id c, ac_chunks = cl_chunks c, ac_total_weight = cl_total_weight c,
     ac_total_fee = cl_total_fee c, ac_first_seen_at = cl_first_seen_at c\<rparr>"

section \<open>How the tables fit together\<close>

definition row_of :: "db \<Rightarrow> cluster_id \<Rightarrow> ClusterRow option" where
  "row_of d i = find (\<lambda>row. cr_id row = i) (db_clusters d)"

text \<open>Primary keys are unique and ids come from the sequence; a chunk row belongs to a version of
  its cluster that is not newer than the current one, and is live exactly when it is the current
  version of an active cluster; a cluster is closed exactly when it is not active, carries a
  block time exactly when it is confirmed, and its totals are those of its current chunks.
  Inside \<open>trim_and_confirm_many\<close> the clusters of a set \<open>S\<close> already have a version that was born
  retired while their status is still active: \<open>cluster_inv_upto S\<close> excuses them.\<close>

definition chunk_ok :: "cluster_id set \<Rightarrow> ClusterRow \<Rightarrow> ClusterChunkRow \<Rightarrow> bool" where
  "chunk_ok S c r \<longleftrightarrow> ch_version r \<le> cr_version c \<and>
     (ch_live r \<longrightarrow> cr_status c = Active \<and> ch_version r = cr_version c) \<and>
     (cr_status c = Active \<and> ch_version r = cr_version c \<and> cr_id c \<notin> S \<longrightarrow> ch_live r)"

definition row_ok :: "db \<Rightarrow> ClusterRow \<Rightarrow> bool" where
  "row_ok d c \<longleftrightarrow>
     (cr_closed_at c = None \<longleftrightarrow> cr_status c = Active) \<and>
     (cr_confirmed_at c \<noteq> None \<longleftrightarrow> cr_status c = Confirmed) \<and>
     cr_total_weight c = totals_weight (current_chunks c d) \<and>
     cr_total_fee c = totals_fee (current_chunks c d)"

definition cluster_inv_upto :: "cluster_id set \<Rightarrow> db \<Rightarrow> bool" where
  "cluster_inv_upto S d \<longleftrightarrow>
     distinct (map cr_id (db_clusters d)) \<and>
     (\<forall>c\<in>set (db_clusters d). cr_id c < db_cluster_seq d) \<and>
     distinct (map chunk_key (db_chunks d)) \<and>
     (\<forall>r\<in>set (db_chunks d). \<exists>c\<in>set (db_clusters d). ch_cluster_id r = cr_id c \<and> chunk_ok S c r) \<and>
     (\<forall>c\<in>set (db_clusters d). row_ok d c) \<and>
     distinct (map tx_txid (db_transactions d))"

definition cluster_inv :: "db \<Rightarrow> bool" where
  "cluster_inv d \<longleftrightarrow> cluster_inv_upto {} d"

text \<open>What the database says is active: the abstract state of the cluster tables.\<close>

definition row_state :: "ClusterRow \<Rightarrow> db \<Rightarrow> ClusterState" where
  "row_state c d = \<lparr>cs_chunks = current_chunks c d, cs_total_weight = cr_total_weight c,
     cs_total_fee = cr_total_fee c, cs_first_seen_at = cr_first_seen_at c\<rparr>"

definition active_view :: "db \<Rightarrow> ClusterSnapshot" where
  "active_view d i =
    (case row_of d i of
       Some c \<Rightarrow> if cr_status c = Active then Some (row_state c d) else None
     | None \<Rightarrow> None)"

text \<open>Chunk lists that survive storage: unsigned 64-bit fields, as their type has it, and no more
  chunks than the 16-bit position column can number.\<close>

definition wf_chunks :: "ClusterChunk list \<Rightarrow> bool" where
  "wf_chunks chunks \<longleftrightarrow> length chunks \<le> 2 ^ 15 \<and>
     (\<forall>c\<in>set chunks. is_u64 (ck_fee_sats c) \<and> is_u64 (ck_weight c))"

section \<open>Storing and loading chunks\<close>

lemma sort_key_map: "sort_key k (map f xs) = map f (sort_key (k \<circ> f) xs)"
proof (induction xs)
  case (Cons x xs)
  have "insort_key k (f y) (map f ys) = map f (insort_key (k \<circ> f) y ys)" for y ys
    by (induction ys) auto
  with Cons show ?case
    by (simp add: comp_def)
qed simp

lemma sum_list_sort_key:
  fixes f :: "'a \<Rightarrow> 'b::comm_monoid_add"
  shows "sum_list (map f (sort_key k xs)) = sum_list (map f xs)"
  by (metis mset_map mset_sort sum_mset_sum_list)

lemma chunk_rows_fields:
  assumes "r \<in> set (chunk_rows i v chunks b)"
  shows "ch_cluster_id r = i \<and> ch_version r = v \<and> ch_live r = b"
  using assms by (auto simp: chunk_rows_def)

lemma length_chunk_rows [simp]: "length (chunk_rows i v chunks b) = length chunks"
  by (simp add: chunk_rows_def)

lemma map_chunk_of_row_chunk_rows:
  "map chunk_of_row (chunk_rows i v chunks b) =
    map (\<lambda>c. \<lparr>ck_txids = ck_txids c, ck_fee_sats = u64_of (ck_fee_sats c), ck_weight = u64_of (ck_weight c)\<rparr>) chunks"
  by (rule nth_equalityI) (auto simp: chunk_rows_def chunk_of_row_def u64_of_i64_of)

lemma i16_of_small: "n < 2 ^ 15 \<Longrightarrow> i16_of (int n) = int n"
  unfolding i16_of_def by (rule signed_take_bit_int_eq_self) simp_all

lemma chunk_rows_sorted:
  assumes "length chunks \<le> 2 ^ 15"
  shows "sort_key ch_position (chunk_rows i v chunks b) = chunk_rows i v chunks b"
proof (rule sort_key_id_if_sorted)
  have "ch_position (chunk_rows i v chunks b ! n) = int n" if "n < length chunks" for n
    using that assms by (simp add: chunk_rows_def i16_of_small)
  then have "map ch_position (chunk_rows i v chunks b) = map int [0..<length chunks]"
    by (intro nth_equalityI) auto
  then show "sorted (map ch_position (chunk_rows i v chunks b))"
    by (simp add: sorted_map sorted_wrt_upt)
qed

lemma chunk_u64_id:
  "is_u64 (ck_fee_sats c) \<Longrightarrow> is_u64 (ck_weight c) \<Longrightarrow>
   \<lparr>ck_txids = ck_txids c, ck_fee_sats = u64_of (ck_fee_sats c), ck_weight = u64_of (ck_weight c)\<rparr> = c"
  by (simp add: u64_of_id)

lemma stored_chunks_roundtrip:
  assumes "wf_chunks chunks"
  shows "map chunk_of_row (sort_key ch_position (chunk_rows i v chunks b)) = chunks"
  using assms by (simp add: wf_chunks_def chunk_rows_sorted map_chunk_of_row_chunk_rows
      chunk_u64_id map_idI)

lemma totals_eq:
  "totals_weight chunks = i64_of (sum_list (map (\<lambda>c. i64_of (ck_weight c)) chunks))"
  "totals_fee chunks = i64_of (sum_list (map (\<lambda>c. i64_of (ck_fee_sats c)) chunks))"
  by (simp_all add: totals_weight_def totals_fee_def i64_sum_eq)

lemma i64_of_u64_of [cast_simps]: "i64_of (u64_of x) = i64_of x"
  by (simp add: i64_of_def u64_of_def signed_take_bit_take_bit)

lemma totals_perm:
  assumes "mset xs = mset ys"
  shows "totals_weight (map chunk_of_row xs) = totals_weight (map chunk_of_row ys)"
    and "totals_fee (map chunk_of_row xs) = totals_fee (map chunk_of_row ys)"
proof -
  have "sum_list (map f xs) = sum_list (map f ys)" for f :: "ClusterChunkRow \<Rightarrow> int"
    using assms by (metis mset_map sum_mset_sum_list)
  then show "totals_weight (map chunk_of_row xs) = totals_weight (map chunk_of_row ys)"
    and "totals_fee (map chunk_of_row xs) = totals_fee (map chunk_of_row ys)"
    unfolding totals_eq map_map by metis+
qed

lemma totals_stored:
  "totals_weight (map chunk_of_row (sort_key k (chunk_rows i v chunks b))) = totals_weight chunks"
  "totals_fee (map chunk_of_row (sort_key k (chunk_rows i v chunks b))) = totals_fee chunks"
  unfolding totals_perm [OF mset_sort] map_chunk_of_row_chunk_rows
  by (simp_all add: totals_eq i64_of_u64_of comp_def)

definition rows_of :: "db \<Rightarrow> cluster_id \<Rightarrow> int \<Rightarrow> ClusterChunkRow list" where
  "rows_of d i v = filter (\<lambda>r. ch_cluster_id r = i \<and> ch_version r = v) (db_chunks d)"

lemma current_chunks_rows:
  "current_chunks c d = map chunk_of_row (sort_key ch_position (rows_of d (cr_id c) (cr_version c)))"
  by (simp add: current_chunks_def rows_of_def)

lemma current_chunks_cong:
  "db_chunks d = db_chunks d' \<Longrightarrow> cr_id c = cr_id c' \<Longrightarrow> cr_version c = cr_version c' \<Longrightarrow>
    current_chunks c d = current_chunks c' d'"
  by (simp add: current_chunks_def)

lemma current_chunks_set_live [simp]: "current_chunks c (set_live P b d) = current_chunks c d"
proof -
  let ?f = "\<lambda>r. if P r then r\<lparr>ch_live := b\<rparr> else r"
  have fields: "ch_position (?f r) = ch_position r" "chunk_of_row (?f r) = chunk_of_row r"
    "ch_cluster_id (?f r) = ch_cluster_id r" "ch_version (?f r) = ch_version r" for r
    by (simp_all add: chunk_of_row_def)
  have "rows_of (set_live P b d) (cr_id c) (cr_version c) = map ?f (rows_of d (cr_id c) (cr_version c))"
    unfolding rows_of_def set_live_def by (simp add: filter_map comp_def fields)
  then show ?thesis
    unfolding current_chunks_rows by (simp add: sort_key_map comp_def fields)
qed

lemma set_live_fields [simp]:
  "db_clusters (set_live P b d) = db_clusters d" "db_cluster_seq (set_live P b d) = db_cluster_seq d"
  "db_transactions (set_live P b d) = db_transactions d"
  "map chunk_key (db_chunks (set_live P b d)) = map chunk_key (db_chunks d)"
  by (simp_all add: set_live_def comp_def chunk_key_def)

lemma insert_chunk_batches_eq:
  "distinct (map chunk_key (db_chunks d)) \<Longrightarrow> insert_chunk_batches bs d =
    (if distinct (map chunk_key (db_chunks d @ concat bs))
     then Inr ((), d\<lparr>db_chunks := db_chunks d @ concat bs\<rparr>) else Inl UniqueViolation)"
proof (induction bs arbitrary: d)
  case (Cons b bs)
  show ?case
  proof (cases "distinct (map chunk_key (db_chunks d @ b))")
    case True
    with Cons.IH [of "d\<lparr>db_chunks := db_chunks d @ b\<rparr>"] show ?thesis
      by simp
  next
    case False
    then have "\<not> distinct (map chunk_key (db_chunks d @ concat (b # bs)))"
      by auto
    with False show ?thesis
      by (simp del: distinct_append map_append)
  qed
qed simp

lemma insert_chunks_eq:
  "distinct (map chunk_key (db_chunks d)) \<Longrightarrow> insert_chunks rows d =
    (if distinct (map chunk_key (db_chunks d @ rows))
     then Inr ((), d\<lparr>db_chunks := db_chunks d @ rows\<rparr>) else Inl UniqueViolation)"
  unfolding insert_chunks_def
  by (subst insert_chunk_batches_eq) (simp_all add: CLUSTER_CHUNK_INSERT_CHUNK_SIZE_def)

section \<open>Rows by id\<close>

lemma row_of_Some:
  "row_of d i = Some c \<Longrightarrow> c \<in> set (db_clusters d) \<and> cr_id c = i"
  by (auto simp: row_of_def find_Some_iff)

lemma row_of_unique:
  assumes "distinct (map cr_id (db_clusters d))" "c \<in> set (db_clusters d)"
  shows "row_of d (cr_id c) = Some c"
proof -
  obtain c' where c': "row_of d (cr_id c) = Some c'"
    using assms(2) by (cases "row_of d (cr_id c)") (auto simp: row_of_def find_None_iff)
  then have "c' \<in> set (db_clusters d)" "cr_id c' = cr_id c"
    using row_of_Some by auto
  then have "c' = c"
    using assms by (metis distinct_map inj_on_contraD)
  with c' show ?thesis
    by simp
qed

lemma row_of_None: "row_of d i = None \<longleftrightarrow> i \<notin> cr_id ` set (db_clusters d)"
  by (auto simp: row_of_def find_None_iff)

lemma row_of_map:
  assumes "\<And>c. cr_id (f c) = cr_id c"
  shows "find (\<lambda>row. cr_id row = i) (map f cs) = map_option f (find (\<lambda>row. cr_id row = i) cs)"
  by (induction cs) (simp_all add: assms)

lemma row_of_append:
  "find P (xs @ ys) = (case find P xs of None \<Rightarrow> find P ys | Some x \<Rightarrow> Some x)"
  by (induction xs) simp_all

end
