(* ===== verification/Cluster_Inv.thy ===== *)
theory Cluster_Inv
  imports Cluster_Repo
begin

text \<open>
  What the writers of the cluster tables do: each keeps \<open>cluster_inv\<close>, and each is a simple
  operation on \<open>active_view\<close>, the map from active cluster ids to their state.
\<close>

section \<open>Changes that do not touch clusters\<close>

lemma current_chunks_simps [simp]:
  "current_chunks c (d\<lparr>db_transactions := ts\<rparr>) = current_chunks c d"
  "current_chunks c (d\<lparr>db_clusters := cs\<rparr>) = current_chunks c d"
  "current_chunks c (d\<lparr>db_cluster_seq := n\<rparr>) = current_chunks c d"
  by (simp_all add: current_chunks_def)

lemma row_ok_cong: "(\<And>c. current_chunks c d = current_chunks c d') \<Longrightarrow> row_ok d c = row_ok d' c"
  by (simp add: row_ok_def)

lemma row_ok_simps [simp]:
  "row_ok (d\<lparr>db_transactions := ts\<rparr>) c = row_ok d c"
  "row_ok (d\<lparr>db_clusters := cs\<rparr>) c = row_ok d c"
  "row_ok (d\<lparr>db_cluster_seq := n\<rparr>) c = row_ok d c"
  "row_ok (set_live P b d) c = row_ok d c"
  by (simp_all add: row_ok_def)

lemma active_view_cong:
  assumes "db_clusters d = db_clusters d'" "db_chunks d = db_chunks d'"
  shows "active_view d = active_view d'"
  using assms by (intro ext) (simp add: active_view_def row_of_def row_state_def current_chunks_def
      split: option.split)

lemma active_view_simps [simp]:
  "active_view (d\<lparr>db_transactions := ts\<rparr>) = active_view d"
  "active_view (d\<lparr>db_cluster_seq := n\<rparr>) = active_view d"
  by (rule active_view_cong; simp)+

lemma cluster_inv_uptoI:
  assumes "distinct (map cr_id (db_clusters d))"
    and "\<And>c. c \<in> set (db_clusters d) \<Longrightarrow> cr_id c < db_cluster_seq d"
    and "distinct (map chunk_key (db_chunks d))"
    and "\<And>r. r \<in> set (db_chunks d) \<Longrightarrow> \<exists>c\<in>set (db_clusters d). ch_cluster_id r = cr_id c \<and> chunk_ok S c r"
    and "\<And>c. c \<in> set (db_clusters d) \<Longrightarrow> row_ok d c"
    and "distinct (map tx_txid (db_transactions d))"
  shows "cluster_inv_upto S d"
  using assms by (simp add: cluster_inv_upto_def)

lemma cluster_inv_uptoD:
  assumes "cluster_inv_upto S d"
  shows "distinct (map cr_id (db_clusters d))"
    and "c \<in> set (db_clusters d) \<Longrightarrow> cr_id c < db_cluster_seq d"
    and "distinct (map chunk_key (db_chunks d))"
    and "r \<in> set (db_chunks d) \<Longrightarrow> \<exists>c\<in>set (db_clusters d). ch_cluster_id r = cr_id c \<and> chunk_ok S c r"
    and "c \<in> set (db_clusters d) \<Longrightarrow> row_ok d c"
    and "distinct (map tx_txid (db_transactions d))"
  using assms by (simp_all add: cluster_inv_upto_def)

lemma inv_transactions:
  "cluster_inv_upto S d \<Longrightarrow> distinct (map tx_txid ts) \<Longrightarrow> cluster_inv_upto S (d\<lparr>db_transactions := ts\<rparr>)"
  by (simp add: cluster_inv_upto_def)

lemma inv_seq:
  "cluster_inv_upto S d \<Longrightarrow> 0 \<le> n \<Longrightarrow> cluster_inv_upto S (d\<lparr>db_cluster_seq := db_cluster_seq d + n\<rparr>)"
  by (auto simp: cluster_inv_upto_def add_strict_increasing2 intro: less_le_trans)

lemma inv_map_transactions:
  "cluster_inv_upto S d \<Longrightarrow> (\<And>t. tx_txid (f t) = tx_txid t) \<Longrightarrow>
    cluster_inv_upto S (d\<lparr>db_transactions := map f (db_transactions d)\<rparr>)"
  by (rule inv_transactions) (simp_all add: cluster_inv_upto_def comp_def)

lemma inv_mono: "cluster_inv_upto S d \<Longrightarrow> S \<subseteq> S' \<Longrightarrow> cluster_inv_upto S' d"
  by (fastforce simp: cluster_inv_upto_def chunk_ok_def)

text \<open>A cluster that is not active needs no excuse.\<close>

lemma inv_closed_excused:
  assumes inv: "cluster_inv_upto S d" and closed: "\<And>i. i \<in> S \<Longrightarrow> active_view d i = None"
  shows "cluster_inv_upto {} d"
proof (rule cluster_inv_uptoI)
  note D = cluster_inv_uptoD [OF inv]
  show "\<exists>c\<in>set (db_clusters d). ch_cluster_id r = cr_id c \<and> chunk_ok {} c r"
    if r: "r \<in> set (db_chunks d)" for r
  proof -
    obtain c where c: "c \<in> set (db_clusters d)" "ch_cluster_id r = cr_id c" "chunk_ok S c r"
      using D(4) [OF r] by blast
    have "cr_status c \<noteq> Active" if "cr_id c \<in> S"
      using closed [OF that] row_of_unique [OF D(1) c(1)] by (auto simp: active_view_def)
    with c(3) have "chunk_ok {} c r"
      unfolding chunk_ok_def by blast
    with c show ?thesis
      by blast
  qed
qed (use cluster_inv_uptoD [OF inv] in blast)+

interpretation inv_calls: call_contract "\<lambda>d d'. cluster_inv d \<longrightarrow> cluster_inv d'"
  by unfold_locales (simp add: cluster_inv_def inv_seq)

lemma query_inv:
  assumes "cluster_inv d" "query fault f d = (res, d')"
    and "\<And>x d'. f d = Inr (x, d') \<Longrightarrow> cluster_inv d'"
  shows "cluster_inv d'"
  using inv_calls.call_keeps [OF assms(2)] assms(1,3) by blast

lemma query_view:
  assumes "query fault f d = (res, d')"
  shows "case res of Inl e \<Rightarrow> active_view d' = active_view d | Inr x \<Rightarrow> f d = Inr (x, d')"
  using assms by (auto simp: query_def split: option.splits prod.splits sum.splits)

section \<open>Closing\<close>

lemma active_among_iff:
  "i \<in> set (active_among ids d) \<longleftrightarrow> i \<in> set ids \<and> (\<exists>c\<in>set (db_clusters d). cr_id c = i \<and> cr_status c = Active)"
  by (auto simp: active_among_def)

lemma active_view_Some:
  assumes "distinct (map cr_id (db_clusters d))"
  shows "active_view d i = Some st \<longleftrightarrow>
    (\<exists>c\<in>set (db_clusters d). cr_id c = i \<and> cr_status c = Active \<and> st = row_state c d)"
proof
  assume "active_view d i = Some st"
  then show "\<exists>c\<in>set (db_clusters d). cr_id c = i \<and> cr_status c = Active \<and> st = row_state c d"
    by (auto simp: active_view_def dest: row_of_Some split: option.splits if_splits)
next
  assume "\<exists>c\<in>set (db_clusters d). cr_id c = i \<and> cr_status c = Active \<and> st = row_state c d"
  then show "active_view d i = Some st"
    using row_of_unique [OF assms] by (auto simp: active_view_def)
qed

lemma active_among_view:
  "distinct (map cr_id (db_clusters d)) \<Longrightarrow> set (active_among ids d) = {i \<in> set ids. active_view d i \<noteq> None}"
  by (force simp: active_among_iff active_view_Some)

text \<open>A closing update: it makes the row leave the active status and keeps what describes its
  chunks.\<close>

definition closes :: "(ClusterRow \<Rightarrow> ClusterRow) \<Rightarrow> bool" where
  "closes f \<longleftrightarrow> (\<forall>c. cr_id (f c) = cr_id c \<and> cr_version (f c) = cr_version c \<and>
     cr_total_weight (f c) = cr_total_weight c \<and> cr_total_fee (f c) = cr_total_fee c \<and>
     cr_status (f c) \<noteq> Active \<and> cr_closed_at (f c) \<noteq> None \<and>
     (cr_status c = Active \<and> cr_confirmed_at c = None \<longrightarrow>
       (cr_confirmed_at (f c) \<noteq> None \<longleftrightarrow> cr_status (f c) = Confirmed)))"

text \<open>An update of rows in place keeps the invariant if it keeps keys and each row and chunk
  stays well formed.\<close>

lemma inv_in_place:
  assumes inv: "cluster_inv_upto S d"
    and d': "db_clusters d' = map g (db_clusters d)" "db_chunks d' = map h (db_chunks d)"
      "db_cluster_seq d' = db_cluster_seq d" "db_transactions d' = db_transactions d"
    and keys: "\<And>c. cr_id (g c) = cr_id c" "\<And>r. chunk_key (h r) = chunk_key r"
    and rows: "\<And>c. c \<in> set (db_clusters d) \<Longrightarrow> row_ok d c \<Longrightarrow> row_ok d' (g c)"
    and chunks: "\<And>c r. c \<in> set (db_clusters d) \<Longrightarrow> r \<in> set (db_chunks d) \<Longrightarrow>
      ch_cluster_id r = cr_id c \<Longrightarrow> chunk_ok S c r \<Longrightarrow> chunk_ok S' (g c) (h r)"
  shows "cluster_inv_upto S' d'"
proof (rule cluster_inv_uptoI)
  show "distinct (map cr_id (db_clusters d'))" "distinct (map chunk_key (db_chunks d'))"
    "distinct (map tx_txid (db_transactions d'))"
    using cluster_inv_uptoD(1,3,6) [OF inv] by (simp_all add: d' keys comp_def)
  show "cr_id c < db_cluster_seq d'" "row_ok d' c" if "c \<in> set (db_clusters d')" for c
    using that rows cluster_inv_uptoD(2,5) [OF inv] by (auto simp: d' keys)
  show "\<exists>c\<in>set (db_clusters d'). ch_cluster_id r = cr_id c \<and> chunk_ok S' c r"
    if r: "r \<in> set (db_chunks d')" for r
  proof -
    obtain r0 where r0: "r0 \<in> set (db_chunks d)" "r = h r0"
      using r by (auto simp: d')
    then obtain c where c: "c \<in> set (db_clusters d)" "ch_cluster_id r0 = cr_id c" "chunk_ok S c r0"
      using cluster_inv_uptoD(4) [OF inv] by blast
    moreover have "ch_cluster_id r = ch_cluster_id r0"
      using keys(2) [of r0] r0(2) by (simp add: chunk_key_def)
    ultimately show ?thesis
      using chunks [OF c(1) r0(1) c(2,3)] r0(2) keys(1) by (auto simp: d' intro!: bexI [of _ c])
  qed
qed

lemma retire_update_inv:
  assumes inv: "cluster_inv_upto S d" and f: "closes f"
    and act: "\<And>c. c \<in> set (db_clusters d) \<Longrightarrow> cr_id c \<in> set ids \<Longrightarrow> cr_status c = Active"
  shows "cluster_inv_upto (S - set ids) (retire_chunks ids (update_clusters ids f d))"
proof (rule inv_in_place [OF inv])
  let ?g = "\<lambda>row. if cr_id row \<in> set ids then f row else row"
  let ?h = "\<lambda>r. if ch_cluster_id r \<in> set ids \<and> ch_live r then r\<lparr>ch_live := False\<rparr> else r"
  let ?d' = "retire_chunks ids (update_clusters ids f d)"
  show "db_clusters ?d' = map ?g (db_clusters d)" "db_chunks ?d' = map ?h (db_chunks d)"
    "db_cluster_seq ?d' = db_cluster_seq d" "db_transactions ?d' = db_transactions d"
    by (simp_all add: retire_chunks_def update_clusters_def set_live_def)
  show "cr_id (?g c) = cr_id c" for c
    using f by (simp add: closes_def)
  show "chunk_key (?h r) = chunk_key r" for r
    by (simp add: chunk_key_def)
  have fc: "cr_status (f c) \<noteq> Active" "cr_version (f c) = cr_version c" "cr_id (f c) = cr_id c" for c
    using f by (simp_all add: closes_def)
  show "chunk_ok (S - set ids) (?g c) (?h r)"
    if "ch_cluster_id r = cr_id c" and ok: "chunk_ok S c r" for c r
  proof (cases "cr_id c \<in> set ids")
    case True
    have h: "\<not> ch_live (?h r)" "ch_version (?h r) = ch_version r"
      using True that(1) by simp_all
    show ?thesis
      unfolding if_P [OF True] chunk_ok_def h(2) fc(2) using ok h(1) fc(1) [of c]
      unfolding chunk_ok_def by blast
  next
    case False
    then have "?h r = r" "?g c = c"
      using that(1) by simp_all
    moreover have "chunk_ok (S - set ids) c r"
      using ok False unfolding chunk_ok_def by blast
    ultimately show ?thesis
      by simp
  qed
  show "row_ok ?d' (?g c)" if c: "c \<in> set (db_clusters d)" and ok: "row_ok d c" for c
  proof (cases "cr_id c \<in> set ids")
    case True
    have "current_chunks (f c) d = current_chunks c d"
      by (rule current_chunks_cong) (simp_all add: fc)
    moreover have "cr_status c = Active" "cr_confirmed_at c = None"
      using act [OF c True] ok by (auto simp: row_ok_def)
    ultimately show ?thesis
      using True ok f by (simp add: row_ok_def closes_def retire_chunks_def update_clusters_def)
  next
    case False
    then show ?thesis
      using ok by (simp add: row_ok_def retire_chunks_def update_clusters_def)
  qed
qed

lemma retire_update_view:
  assumes "distinct (map cr_id (db_clusters d))" and f: "closes f"
  shows "active_view (retire_chunks ids (update_clusters ids f d)) =
    (\<lambda>i. if i \<in> set ids then None else active_view d i)"
proof
  fix i
  let ?g = "\<lambda>row. if cr_id row \<in> set ids then f row else row"
  let ?d' = "retire_chunks ids (update_clusters ids f d)"
  have "row_of ?d' i = map_option ?g (row_of d i)"
    using f by (simp add: retire_chunks_def update_clusters_def row_of_def row_of_map closes_def)
  moreover have "row_state c ?d' = row_state c d" for c
    by (simp add: row_state_def retire_chunks_def update_clusters_def)
  moreover have "cr_id c = i" if "row_of d i = Some c" for c
    using row_of_Some that by blast
  ultimately show "active_view ?d' i = (if i \<in> set ids then None else active_view d i)"
    using f by (auto simp: active_view_def closes_def split: option.splits)
qed

lemma closes_closing: "closes (\<lambda>row. row\<lparr>cr_status := closing_status k, cr_closed_at := Some now\<rparr>)"
  by (simp add: closes_def closing_status_def split: ClusterClosing.split)

lemma closes_confirm:
  "closes (\<lambda>row. row\<lparr>cr_confirmed_at := Some t, cr_status := Confirmed, cr_closed_at := Some now\<rparr>)"
  by (simp add: closes_def)

lemma active_among_active:
  assumes "distinct (map cr_id (db_clusters d))" "c \<in> set (db_clusters d)" "cr_id c \<in> set (active_among ids d)"
  shows "cr_status c = Active"
  using assms by (auto simp: active_among_iff) (metis distinct_map inj_on_contraD)

text \<open>The view without a set of ids, and why only the active ones among them matter.\<close>

definition view_without :: "cluster_id set \<Rightarrow> ClusterSnapshot \<Rightarrow> ClusterSnapshot" where
  "view_without A v = (\<lambda>i. if i \<in> A then None else v i)"

lemma view_without_eq_iff: "view_without A v = view_without A w \<longleftrightarrow> (\<forall>i. i \<notin> A \<longrightarrow> v i = w i)"
  by (auto simp: view_without_def fun_eq_iff)

lemma view_without_active_among:
  "distinct (map cr_id (db_clusters d)) \<Longrightarrow>
    (\<lambda>i. if i \<in> set (active_among ids d) then None else active_view d i) = view_without (set ids) (active_view d)"
  by (intro ext) (auto simp: view_without_def active_among_view)

lemma view_without_none:
  assumes "distinct (map cr_id (db_clusters d))" "active_among ids d = []"
  shows "view_without (set ids) (active_view d) = active_view d"
  using active_among_view [OF assms(1), of ids] assms(2) by (intro ext) (auto simp: view_without_def)

lemmas retire_active_view = trans [OF retire_update_view view_without_active_among]

lemma close_many_in_spec:
  assumes inv: "cluster_inv d" and run: "close_many_in now ids k d = Inr (n, d')"
  shows "cluster_inv d'" and "active_view d' = view_without (set ids) (active_view d)"
proof -
  let ?ids = "active_among ids d"
  let ?f = "\<lambda>row. row\<lparr>cr_status := closing_status k, cr_closed_at := Some now\<rparr>"
  let ?d2 = "retire_chunks ?ids (update_clusters ?ids ?f d)"
  let ?d3 = "?d2\<lparr>db_transactions := map (\<lambda>t. if (\<exists>i \<in> set ?ids. tx_cluster_id t = Some i)
                      then t\<lparr>tx_cluster_id := None\<rparr> else t) (db_transactions ?d2)\<rparr>"
  have inv0: "cluster_inv_upto {} d"
    using inv by (simp add: cluster_inv_def)
  note ids = cluster_inv_uptoD(1) [OF inv0]
  have "cluster_inv_upto ({} - set ?ids) ?d2"
    by (rule retire_update_inv [OF inv0 closes_closing active_among_active [OF ids]])
  then have i3: "cluster_inv ?d3"
    unfolding cluster_inv_def by (intro inv_map_transactions) simp_all
  have v3: "active_view ?d3 = view_without (set ids) (active_view d)"
    unfolding active_view_simps by (rule retire_active_view [OF ids closes_closing ids])
  have d': "d' = (if ?ids = [] then d else ?d3)"
    using run by (simp add: close_many_in_def Let_def split: if_splits)
  show "cluster_inv d'"
    unfolding d' using inv i3 by (cases "?ids = []") (simp_all only: if_True if_False simp_thms)
  show "active_view d' = view_without (set ids) (active_view d)"
    unfolding d' using v3 view_without_none [OF ids, of ids]
    by (cases "?ids = []") (simp_all only: if_True if_False simp_thms)
qed

text \<open>What a call reports: on an error the view is as before, on success the ids have left it.\<close>

lemma close_many_spec:
  assumes inv: "cluster_inv d" and run: "close_many fault now ids k d = (res, d')"
  shows "cluster_inv d'"
    and "case res of Inl e \<Rightarrow> active_view d' = active_view d
       | Inr n \<Rightarrow> active_view d' = view_without (set ids) (active_view d)"
proof -
  show "cluster_inv d'"
    using run inv query_inv [OF inv, of fault "close_many_in now ids k" res d'] close_many_in_spec(1) [OF inv]
    by (auto simp: close_many_def split: if_splits)
  show "case res of Inl e \<Rightarrow> active_view d' = active_view d
       | Inr n \<Rightarrow> active_view d' = view_without (set ids) (active_view d)"
    using run query_view [of fault "close_many_in now ids k" d res d'] close_many_in_spec(2) [OF inv]
    by (auto simp: close_many_def view_without_def split: if_splits sum.splits)
qed

lemma confirm_many_in_spec:
  assumes inv: "cluster_inv_upto S d" and run: "confirm_many_in now ids t d = Inr (n, d')" and S: "S \<subseteq> set ids"
  shows "cluster_inv d'" and "active_view d' = view_without (set ids) (active_view d)"
proof -
  let ?ids = "active_among ids d"
  let ?f = "\<lambda>row. row\<lparr>cr_confirmed_at := Some t, cr_status := Confirmed, cr_closed_at := Some now\<rparr>"
  note ids = cluster_inv_uptoD(1) [OF inv]
  have i2: "cluster_inv_upto (S - set ?ids) (retire_chunks ?ids (update_clusters ?ids ?f d))"
    by (rule retire_update_inv [OF inv closes_confirm active_among_active [OF ids]])
  have d': "d' = (if ?ids = [] then d else retire_chunks ?ids (update_clusters ?ids ?f d))"
    using run by (simp add: confirm_many_in_def Let_def split: if_splits)
  show view: "active_view d' = view_without (set ids) (active_view d)"
    unfolding d' using retire_active_view [OF ids closes_confirm ids] view_without_none [OF ids, of ids]
    by (cases "?ids = []") (simp_all only: if_True if_False simp_thms)
  have "cluster_inv_upto (S - set ?ids) d'"
    using i2 inv by (simp add: d')
  then show "cluster_inv d'"
    unfolding cluster_inv_def
    by (rule inv_closed_excused) (use S in \<open>auto simp: view view_without_def\<close>)
qed

lemma confirm_many_spec:
  assumes inv: "cluster_inv d" and run: "confirm_many fault now ids t d = (res, d')"
  shows "cluster_inv d'"
    and "case res of Inl e \<Rightarrow> active_view d' = active_view d
       | Inr n \<Rightarrow> active_view d' = view_without (set ids) (active_view d)"
proof -
  note spec = confirm_many_in_spec [OF inv [unfolded cluster_inv_def] _ empty_subsetI]
  show "cluster_inv d'"
    using run inv query_inv [OF inv, of fault "confirm_many_in now ids t" res d'] spec(1)
    by (auto simp: confirm_many_def split: if_splits)
  show "case res of Inl e \<Rightarrow> active_view d' = active_view d
       | Inr n \<Rightarrow> active_view d' = view_without (set ids) (active_view d)"
    using run query_view [of fault "confirm_many_in now ids t" d res d'] spec(2)
    by (auto simp: confirm_many_def view_without_def split: if_splits sum.splits)
qed

section \<open>A new version\<close>

lemma filter_chunk_rows:
  "filter (\<lambda>r. ch_cluster_id r = j \<and> ch_version r = w) (chunk_rows i v chunks b) =
    (if j = i \<and> w = v then chunk_rows i v chunks b else [])"
  by (cases "j = i \<and> w = v") (auto simp: filter_id_conv filter_empty_conv dest: chunk_rows_fields)

lemma current_chunks_append:
  "current_chunks c (d\<lparr>db_chunks := db_chunks d @ chunk_rows i v chunks b\<rparr>) =
    (if cr_id c = i \<and> cr_version c = v
     then map chunk_of_row (sort_key ch_position (rows_of d i v @ chunk_rows i v chunks b))
     else current_chunks c d)"
  by (simp add: current_chunks_def rows_of_def filter_chunk_rows)

lemma rows_of_new_version:
  assumes "cluster_inv_upto S d" "c \<in> set (db_clusters d)" "cr_version c < v"
  shows "rows_of d (cr_id c) v = []"
proof -
  have "ch_version r \<noteq> v" if r: "r \<in> set (db_chunks d)" "ch_cluster_id r = cr_id c" for r
  proof -
    obtain c' where c': "c' \<in> set (db_clusters d)" "ch_cluster_id r = cr_id c'" "chunk_ok S c' r"
      using cluster_inv_uptoD(4) [OF assms(1) r(1)] by blast
    then have "c' = c"
      using r(2) assms(2) cluster_inv_uptoD(1) [OF assms(1)] by (metis distinct_map inj_on_contraD)
    then have "ch_version r \<le> cr_version c"
      using c'(3) unfolding chunk_ok_def by blast
    then show ?thesis
      using assms(3) by simp
  qed
  then show ?thesis
    by (auto simp: rows_of_def filter_empty_conv)
qed

lemma rows_of_set_live: "rows_of d i v = [] \<Longrightarrow> rows_of (set_live P b d) i v = []"
  by (auto simp: rows_of_def set_live_def filter_empty_conv)

text \<open>The cluster and chunk rows after a new version was written, before the back-links.\<close>

definition with_version :: "ClusterRow \<Rightarrow> ClusterChunk list \<Rightarrow> bool \<Rightarrow> db \<Rightarrow> db" where
  "with_version old chunks live d =
    (let d1 = set_live (\<lambda>r. ch_cluster_id r = cr_id old \<and> ch_version r = cr_version old) False d;
         row = old\<lparr>cr_version := cr_version old + 1, cr_total_weight := totals_weight chunks,
                 cr_total_fee := totals_fee chunks\<rparr>
     in d1\<lparr>db_chunks := db_chunks d1 @ chunk_rows (cr_id old) (cr_version old + 1) chunks live,
           db_clusters := map (\<lambda>r. if cr_id r = cr_id old then row else r) (db_clusters d)\<rparr>)"

lemma current_chunks_with_version:
  assumes "cluster_inv_upto S d" "old \<in> set (db_clusters d)"
  shows "current_chunks c (with_version old chunks live d) =
    (if cr_id c = cr_id old \<and> cr_version c = cr_version old + 1
     then map chunk_of_row (sort_key ch_position (chunk_rows (cr_id old) (cr_version old + 1) chunks live))
     else current_chunks c d)"
  using rows_of_set_live [OF rows_of_new_version [OF assms, of "cr_version old + 1"]]
  by (simp add: with_version_def Let_def current_chunks_append)

lemma with_version_chunk_ok:
  assumes inv: "cluster_inv_upto S d" and old: "old \<in> set (db_clusters d)" "cr_status old = Active"
    and S': "S \<subseteq> S'" "live \<or> cr_id old \<in> S'"
    and r: "r \<in> set (db_chunks (with_version old chunks live d))"
  shows "\<exists>c\<in>set (db_clusters (with_version old chunks live d)). ch_cluster_id r = cr_id c \<and> chunk_ok S' c r"
proof -
  let ?d' = "with_version old chunks live d"
  let ?row = "old\<lparr>cr_version := cr_version old + 1, cr_total_weight := totals_weight chunks,
                 cr_total_fee := totals_fee chunks\<rparr>"
  let ?h = "\<lambda>r. if ch_cluster_id r = cr_id old \<and> ch_version r = cr_version old then r\<lparr>ch_live := False\<rparr> else r"
  have row: "?row \<in> set (db_clusters ?d')"
    using old(1) by (force simp: with_version_def Let_def)
  have other: "c \<in> set (db_clusters ?d')" if "c \<in> set (db_clusters d)" "cr_id c \<noteq> cr_id old" for c
    using that by (auto simp: with_version_def Let_def)
  from r consider r0 where "r0 \<in> set (db_chunks d)" "r = ?h r0"
    | "r \<in> set (chunk_rows (cr_id old) (cr_version old + 1) chunks live)"
    by (auto simp: with_version_def Let_def set_live_def)
  then show ?thesis
  proof cases
    case 1
    obtain c where c: "c \<in> set (db_clusters d)" "ch_cluster_id r0 = cr_id c" "chunk_ok S c r0"
      using cluster_inv_uptoD(4) [OF inv 1(1)] by blast
    show ?thesis
    proof (cases "cr_id c = cr_id old")
      case True
      then have "c = old"
        using c(1) old(1) cluster_inv_uptoD(1) [OF inv] by (metis distinct_map inj_on_contraD)
      then have v: "ch_version r0 \<le> cr_version old" "ch_live r0 \<Longrightarrow> ch_version r0 = cr_version old"
        using c(3) unfolding chunk_ok_def by blast+
      then have "\<not> ch_live r" "ch_version r < cr_version old + 1"
        using c(2) True unfolding 1(2) by auto
      then have "chunk_ok S' ?row r"
        by (simp add: chunk_ok_def)
      then show ?thesis
        using row c(2) True 1(2) by (intro bexI [of _ ?row]) simp_all
    next
      case False
      then have "r = r0"
        using c(2) 1(2) by simp
      moreover have "chunk_ok S' c r0"
        using c(3) S'(1) unfolding chunk_ok_def by blast
      ultimately show ?thesis
        using other [OF c(1) False] c(2) by blast
    qed
  next
    case 2
    then have "ch_cluster_id r = cr_id ?row" "ch_version r = cr_version ?row" "ch_live r = live"
      using chunk_rows_fields by fastforce+
    then have "chunk_ok S' ?row r"
      using old(2) S'(2) by (auto simp: chunk_ok_def)
    then show ?thesis
      using row \<open>ch_cluster_id r = cr_id ?row\<close> by blast
  qed
qed

lemma with_version_inv:
  assumes inv: "cluster_inv_upto S d" and old: "old \<in> set (db_clusters d)" "cr_status old = Active"
    and keys: "distinct (map chunk_key (db_chunks (with_version old chunks live d)))"
    and S': "S \<subseteq> S'" "live \<or> cr_id old \<in> S'"
  shows "cluster_inv_upto S' (with_version old chunks live d)"
proof (rule cluster_inv_uptoI)
  let ?d' = "with_version old chunks live d"
  let ?row = "old\<lparr>cr_version := cr_version old + 1, cr_total_weight := totals_weight chunks,
                 cr_total_fee := totals_fee chunks\<rparr>"
  note D = cluster_inv_uptoD [OF inv]
  have "map cr_id (db_clusters ?d') = map cr_id (db_clusters d)"
    by (simp add: with_version_def Let_def comp_def)
  then show "distinct (map cr_id (db_clusters ?d'))"
    using D(1) by simp
  show "distinct (map tx_txid (db_transactions ?d'))"
    using D(6) by (simp add: with_version_def Let_def)
  show "cr_id c < db_cluster_seq ?d'" if "c \<in> set (db_clusters ?d')" for c
    using that D(2) [of old] D(2) old(1) by (auto simp: with_version_def Let_def)
  show "row_ok ?d' c" if c: "c \<in> set (db_clusters ?d')" for c
  proof -
    have ok: "row_ok d old"
      by (rule D(5) [OF old(1)])
    from c consider "c = ?row" | "c \<in> set (db_clusters d)" "cr_id c \<noteq> cr_id old"
      by (auto simp: with_version_def Let_def)
    then show ?thesis
    proof cases
      case 1
      then show ?thesis
        using ok by (simp add: row_ok_def current_chunks_with_version [OF inv old(1)] totals_stored)
    next
      case 2
      then show ?thesis
        using D(5) [OF 2(1)] by (simp add: row_ok_def current_chunks_with_version [OF inv old(1)])
    qed
  qed
qed (use keys with_version_chunk_ok [OF inv old S'] in blast)+

lemma with_version_view:
  assumes inv: "cluster_inv_upto S d" and old: "old \<in> set (db_clusters d)" "cr_status old = Active"
    and wf: "wf_chunks chunks"
  shows "active_view (with_version old chunks live d) = (active_view d)(cr_id old \<mapsto>
    \<lparr>cs_chunks = chunks, cs_total_weight = totals_weight chunks, cs_total_fee = totals_fee chunks,
     cs_first_seen_at = cr_first_seen_at old\<rparr>)"
proof
  fix i
  let ?row = "old\<lparr>cr_version := cr_version old + 1, cr_total_weight := totals_weight chunks,
                 cr_total_fee := totals_fee chunks\<rparr>"
  let ?g = "\<lambda>r. if cr_id r = cr_id old then ?row else r"
  let ?d' = "with_version old chunks live d"
  have row: "row_of ?d' i = map_option ?g (row_of d i)"
    by (simp add: with_version_def Let_def row_of_def row_of_map)
  have other: "row_state c ?d' = row_state c d" if "cr_id c \<noteq> cr_id old" for c
    using that by (simp add: row_state_def current_chunks_with_version [OF inv old(1)])
  show "active_view ?d' i = ((active_view d)(cr_id old \<mapsto> \<lparr>cs_chunks = chunks,
     cs_total_weight = totals_weight chunks, cs_total_fee = totals_fee chunks,
     cs_first_seen_at = cr_first_seen_at old\<rparr>)) i"
  proof (cases "i = cr_id old")
    case True
    then have "row_of d i = Some old"
      using row_of_unique [OF cluster_inv_uptoD(1) [OF inv] old(1)] by simp
    then show ?thesis
      using old(2) wf unfolding active_view_def row by (simp add: True row_state_def
          current_chunks_with_version [OF inv old(1)] stored_chunks_roundtrip)
  next
    case False
    have "cr_id c = i" if "row_of d i = Some c" for c
      using row_of_Some that by blast
    with False show ?thesis
      by (auto simp: active_view_def row other split: option.splits)
  qed
qed

text \<open>The three steps on the back-links: detach, insert the missing rows, attach.\<close>

definition detach :: "cluster_id \<Rightarrow> txid list \<Rightarrow> Transaction \<Rightarrow> Transaction" where
  "detach cid members t =
    (if tx_cluster_id t = Some cid \<and> tx_txid t \<notin> set members then t\<lparr>tx_cluster_id := None\<rparr> else t)"

definition attach :: "cluster_id \<Rightarrow> txid list \<Rightarrow> Transaction \<Rightarrow> Transaction" where
  "attach cid members t =
    (if tx_txid t \<in> set members \<and> tx_cluster_id t \<noteq> Some cid then t\<lparr>tx_cluster_id := Some cid\<rparr> else t)"

definition relink :: "instant \<Rightarrow> cluster_id \<Rightarrow> txid list \<Rightarrow> Transaction list \<Rightarrow> Transaction list" where
  "relink now cid members ts =
    map (attach cid members)
      (if members = [] then map (detach cid members) ts
       else insert_hollow_rows now members (map (detach cid members) ts))"

lemma detach_attach [simp]:
  "tx_txid (detach cid members t) = tx_txid t" "tx_txid (attach cid members t) = tx_txid t"
  "tx_txid \<circ> detach cid members = tx_txid" "tx_txid \<circ> attach cid members = tx_txid"
  by (simp_all add: detach_def attach_def fun_eq_iff)

lemma relink_spec:
  assumes "distinct (map tx_txid ts)"
  shows "distinct (map tx_txid (relink now cid members ts))"
    and "t \<in> set (relink now cid members ts) \<Longrightarrow> tx_cluster_id t = Some cid \<longleftrightarrow> tx_txid t \<in> set members"
    and "tx_txid ` set (relink now cid members ts) = tx_txid ` set ts \<union> set members"
proof -
  define ts1 where "ts1 = map (detach cid members) ts"
  define ts2 where "ts2 = (if members = [] then ts1 else insert_hollow_rows now members ts1)"
  have ids1: "map tx_txid ts1 = map tx_txid ts"
    by (simp add: ts1_def)
  have d1: "distinct (map tx_txid ts1)" and set1: "tx_txid ` set ts1 = tx_txid ` set ts"
    using assms ids1 by (simp_all only: set_map [symmetric])
  note hol = insert_hollow_rows_spec [OF d1, where now = now and txids = members]
  have rel: "relink now cid members ts = map (attach cid members) ts2"
    by (simp add: relink_def ts1_def ts2_def)
  show "distinct (map tx_txid (relink now cid members ts))"
    "tx_txid ` set (relink now cid members ts) = tx_txid ` set ts \<union> set members"
    using d1 set1 hol(1,4) by (simp_all add: rel ts2_def image_image)
  have link1: "tx_txid t \<in> set members" if "t \<in> set ts1" "tx_cluster_id t = Some cid" for t
    using that by (auto simp: ts1_def detach_def split: if_splits)
  have link2: "tx_txid t \<in> set members" if "t \<in> set ts2" "tx_cluster_id t = Some cid" for t
    using that link1 hol(3) [of t] by (auto simp: ts2_def hollow_def split: if_splits)
  show "tx_cluster_id t = Some cid \<longleftrightarrow> tx_txid t \<in> set members" if "t \<in> set (relink now cid members ts)"
    using that link2 by (auto simp: rel attach_def)
qed

definition versioned :: "ClusterRow \<Rightarrow> ClusterChunk list \<Rightarrow> ClusterRow" where
  "versioned old chunks = old\<lparr>cr_version := cr_version old + 1, cr_total_weight := totals_weight chunks,
     cr_total_fee := totals_fee chunks\<rparr>"

lemma replace_chunks_in_eq:
  assumes inv: "cluster_inv_upto S d" and u: "vu_cluster_id u = cid" "vu_chunks u = chunks"
  shows "replace_chunks_in now u live d =
    (case row_of d cid of
       None \<Rightarrow> Inl NotFound
     | Some old \<Rightarrow>
         if cr_status old \<noteq> Active \<or> current_chunks old d = chunks then Inr (from_row old (current_chunks old d), d)
         else if distinct (map chunk_key (db_chunks (with_version old chunks live d)))
         then Inr (from_row (versioned old chunks) chunks,
           (with_version old chunks live d)\<lparr>db_transactions :=
             relink now cid (concat (map ck_txids chunks)) (db_transactions d)\<rparr>)
         else Inl UniqueViolation)"
proof (cases "row_of d cid")
  case None
  then show ?thesis
    by (simp add: replace_chunks_in_def row_of_def u)
next
  case (Some old)
  have old: "find (\<lambda>row. cr_id row = cid) (db_clusters d) = Some old" "cr_id old = cid"
    using Some row_of_Some [OF Some] by (simp_all add: row_of_def)
  let ?d1 = "set_live (\<lambda>r. ch_cluster_id r = cid \<and> ch_version r = cr_version old) False d"
  have "distinct (map chunk_key (db_chunks ?d1))"
    using cluster_inv_uptoD(3) [OF inv] by simp
  note ins = insert_chunks_eq [OF this, of "chunk_rows cid (cr_version old + 1) chunks live"]
  define members where "members = concat (map ck_txids chunks)"
  have mem: "cl_txids (from_row row chunks) = members" for row
    by (simp add: cl_txids_def from_row_def members_def)
  show ?thesis
  proof (cases "cr_status old \<noteq> Active \<or> current_chunks old d = chunks")
    case True
    then show ?thesis
      unfolding Some option.case by (simp add: replace_chunks_in_def u old(1) Let_def)
  next
    case False
    have keys: "distinct (map chunk_key (db_chunks ?d1 @ chunk_rows cid (cr_version old + 1) chunks live))
        = distinct (map chunk_key (db_chunks (with_version old chunks live d)))"
      by (simp add: with_version_def Let_def old(2))
    show ?thesis
    proof (cases "distinct (map chunk_key (db_chunks (with_version old chunks live d)))")
      case True
      have "replace_chunks_in now u live d = Inr (from_row (versioned old chunks) chunks,
           (with_version old chunks live d)\<lparr>db_transactions :=
             relink now cid members (db_transactions d)\<rparr>)"
        unfolding replace_chunks_in_def u Let_def old(1) option.case if_not_P [OF False] ins
          keys if_P [OF True] sum.case prod.case mem
        by (cases "members = []")
          (simp_all add: with_version_def Let_def old(2) relink_def versioned_def insert_hollow_members_def
            detach_def [abs_def] attach_def [abs_def] split del: if_split)
      with False True show ?thesis
        by (simp add: Some members_def)
    next
      case dup: False
      have "replace_chunks_in now u live d = Inl UniqueViolation"
        using False unfolding replace_chunks_in_def u Let_def old(1) option.case if_not_P [OF False] ins
          keys if_not_P [OF dup] sum.case by simp
      with False dup show ?thesis
        by (simp add: Some)
    qed
  qed
qed

lemma replace_chunks_in_cases:
  assumes inv: "cluster_inv_upto S d" and run: "replace_chunks_in now u live d = Inr (cl, d')"
  obtains (same) old where "row_of d (vu_cluster_id u) = Some old"
      "cr_status old \<noteq> Active \<or> current_chunks old d = vu_chunks u" "d' = d"
      "cl = from_row old (current_chunks old d)"
    | (changed) old where "row_of d (vu_cluster_id u) = Some old" "cr_status old = Active"
      "distinct (map chunk_key (db_chunks (with_version old (vu_chunks u) live d)))"
      "d' = (with_version old (vu_chunks u) live d)\<lparr>db_transactions :=
         relink now (vu_cluster_id u) (concat (map ck_txids (vu_chunks u))) (db_transactions d)\<rparr>"
      "cl = from_row (versioned old (vu_chunks u)) (vu_chunks u)"
proof (cases "row_of d (vu_cluster_id u)")
  case None
  then show ?thesis
    using run by (simp add: replace_chunks_in_eq [OF inv refl refl])
next
  case (Some old)
  note eq = run [unfolded replace_chunks_in_eq [OF inv refl refl] Some option.case]
  show ?thesis
  proof (cases "cr_status old \<noteq> Active \<or> current_chunks old d = vu_chunks u")
    case True
    show ?thesis
      by (rule same [OF Some True]) (use eq [unfolded if_P [OF True]] in auto)
  next
    case False
    show ?thesis
    proof (cases "distinct (map chunk_key (db_chunks (with_version old (vu_chunks u) live d)))")
      case True
      show ?thesis
        by (rule changed [OF Some _ True]) (use eq [unfolded if_not_P [OF False] if_P [OF True]] False in simp_all)
    next
      case dup: False
      show ?thesis
        using eq [unfolded if_not_P [OF False] if_not_P [OF dup]] by simp
    qed
  qed
qed

lemma replace_chunks_in_inv:
  assumes inv: "cluster_inv_upto S d" and run: "replace_chunks_in now u live d = Inr (cl, d')"
    and S': "S \<subseteq> S'" "live \<or> vu_cluster_id u \<in> S'"
  shows "cluster_inv_upto S' d'"
  using inv run
proof (cases rule: replace_chunks_in_cases)
  case (same old)
  then show ?thesis
    using inv_mono [OF inv S'(1)] by simp
next
  case (changed old)
  have mem: "old \<in> set (db_clusters d)" "cr_id old = vu_cluster_id u"
    using row_of_Some [OF changed(1)] by simp_all
  have "cluster_inv_upto S' (with_version old (vu_chunks u) live d)"
    by (rule with_version_inv [OF inv mem(1) changed(2,3) S'(1)]) (use S'(2) mem(2) in simp)
  then show ?thesis
    unfolding changed(4) by (rule inv_transactions) (rule relink_spec(1) [OF cluster_inv_uptoD(6) [OF inv]])
qed

definition cluster_state_of :: "Cluster \<Rightarrow> ClusterState" where
  "cluster_state_of cl = ac_state (active_cluster_from cl)"

lemma cluster_state_of_from_row:
  "cluster_state_of (from_row row chunks) = \<lparr>cs_chunks = chunks, cs_total_weight = cr_total_weight row,
     cs_total_fee = cr_total_fee row, cs_first_seen_at = cr_first_seen_at row\<rparr>"
  by (simp add: cluster_state_of_def ac_state_def active_cluster_from_def from_row_def)

lemma cl_from_row [simp]: "cl_id (from_row row chunks) = cr_id row"
  "cl_status (from_row row chunks) = cr_status row" "cl_chunks (from_row row chunks) = chunks"
  by (simp_all add: from_row_def)

text \<open>On the view, a new version of an active cluster is an update of that cluster's entry with
  the state the call returns; a cluster that is no longer active is reported as such and the view
  does not change.\<close>

lemma replace_chunks_in_view:
  assumes inv: "cluster_inv_upto S d" and run: "replace_chunks_in now u live d = Inr (cl, d')"
    and wf: "wf_chunks (vu_chunks u)"
  shows "cl_id cl = vu_cluster_id u"
    and "cl_status cl = Active \<longleftrightarrow> active_view d (vu_cluster_id u) \<noteq> None"
    and "cl_status cl = Active \<Longrightarrow> cl_chunks cl = vu_chunks u"
    and "active_view d' = (if cl_status cl = Active
      then (active_view d)(vu_cluster_id u \<mapsto> cluster_state_of cl) else active_view d)"
proof -
  have "cl_id cl = vu_cluster_id u \<and> (cl_status cl = Active \<longleftrightarrow> active_view d (vu_cluster_id u) \<noteq> None) \<and>
    (cl_status cl = Active \<longrightarrow> cl_chunks cl = vu_chunks u) \<and>
    active_view d' = (if cl_status cl = Active
      then (active_view d)(vu_cluster_id u \<mapsto> cluster_state_of cl) else active_view d)"
    using inv run
  proof (cases rule: replace_chunks_in_cases)
    case (same old)
    then show ?thesis
      using row_of_Some [OF same(1)]
      by (auto simp: active_view_def cluster_state_of_from_row row_state_def fun_upd_idem)
  next
    case (changed old)
    have mem: "old \<in> set (db_clusters d)" "cr_id old = vu_cluster_id u"
      using row_of_Some [OF changed(1)] by simp_all
    have "active_view d (vu_cluster_id u) \<noteq> None"
      using changed(1,2) by (simp add: active_view_def)
    then show ?thesis
      unfolding changed(4,5) active_view_simps
      using with_version_view [OF inv mem(1) changed(2) wf, of live] mem(2) changed(2)
      by (simp add: cluster_state_of_from_row versioned_def)
  qed
  then show "cl_id cl = vu_cluster_id u"
    "cl_status cl = Active \<longleftrightarrow> active_view d (vu_cluster_id u) \<noteq> None"
    "cl_status cl = Active \<Longrightarrow> cl_chunks cl = vu_chunks u"
    "active_view d' = (if cl_status cl = Active
      then (active_view d)(vu_cluster_id u \<mapsto> cluster_state_of cl) else active_view d)"
    by blast+
qed

lemma replace_chunks_spec:
  assumes inv: "cluster_inv d" and wf: "wf_chunks (vu_chunks u)"
    and run: "replace_chunks fault now u d = (res, d')"
  shows "cluster_inv d'"
    and "res = Inl e \<Longrightarrow> active_view d' = active_view d"
    and "res = Inr cl \<Longrightarrow> cl_id cl = vu_cluster_id u"
    and "res = Inr cl \<Longrightarrow> cl_status cl = Active \<longleftrightarrow> active_view d (vu_cluster_id u) \<noteq> None"
    and "res = Inr cl \<Longrightarrow> cl_status cl = Active \<Longrightarrow> cl_chunks cl = vu_chunks u"
    and "res = Inr cl \<Longrightarrow> active_view d' = (if cl_status cl = Active
      then (active_view d)(vu_cluster_id u \<mapsto> cluster_state_of cl) else active_view d)"
proof -
  note inv0 = inv [unfolded cluster_inv_def]
  show "cluster_inv d'"
    using query_inv [OF inv run [unfolded replace_chunks_def]] replace_chunks_in_inv [OF inv0, of now u True]
    by (auto simp: cluster_inv_def)
  show "res = Inl e \<Longrightarrow> active_view d' = active_view d"
    using query_view [OF run [unfolded replace_chunks_def]] by auto
  have "replace_chunks_in now u True d = Inr (cl, d')" if "res = Inr cl" for cl
    using query_view [OF run [unfolded replace_chunks_def]] that by auto
  note view = replace_chunks_in_view [OF inv0 this wf]
  show "res = Inr cl \<Longrightarrow> cl_id cl = vu_cluster_id u"
    "res = Inr cl \<Longrightarrow> cl_status cl = Active \<longleftrightarrow> active_view d (vu_cluster_id u) \<noteq> None"
    "res = Inr cl \<Longrightarrow> cl_status cl = Active \<Longrightarrow> cl_chunks cl = vu_chunks u"
    "res = Inr cl \<Longrightarrow> active_view d' = (if cl_status cl = Active
      then (active_view d)(vu_cluster_id u \<mapsto> cluster_state_of cl) else active_view d)"
    using view by blast+
qed

section \<open>Trimming to the mined part and confirming\<close>

lemma replace_each_inv:
  "cluster_inv_upto S d \<Longrightarrow> replace_each now us d = Inr (x, d') \<Longrightarrow>
    cluster_inv_upto (S \<union> vu_cluster_id ` set us) d'"
proof (induction us arbitrary: S d)
  case (Cons u us)
  obtain cl d1 where r: "replace_chunks_in now u False d = Inr (cl, d1)" and rest: "replace_each now us d1 = Inr (x, d')"
    using Cons.prems(2) by (auto split: sum.splits prod.splits)
  have "cluster_inv_upto (insert (vu_cluster_id u) S) d1"
    by (rule replace_chunks_in_inv [OF Cons.prems(1) r]) auto
  from Cons.IH [OF this rest] show ?case
    by simp
qed simp

lemma replace_each_view:
  "cluster_inv_upto S d \<Longrightarrow> \<forall>u\<in>set us. wf_chunks (vu_chunks u) \<Longrightarrow> replace_each now us d = Inr (x, d') \<Longrightarrow>
    view_without (vu_cluster_id ` set us) (active_view d') = view_without (vu_cluster_id ` set us) (active_view d)"
proof (induction us arbitrary: S d)
  case (Cons u us)
  obtain cl d1 where r: "replace_chunks_in now u False d = Inr (cl, d1)" and rest: "replace_each now us d1 = Inr (x, d')"
    using Cons.prems(3) by (auto split: sum.splits prod.splits)
  have i1: "cluster_inv_upto (insert (vu_cluster_id u) S) d1"
    by (rule replace_chunks_in_inv [OF Cons.prems(1) r]) auto
  have v1: "view_without {vu_cluster_id u} (active_view d1) = view_without {vu_cluster_id u} (active_view d)"
    using replace_chunks_in_view(4) [OF Cons.prems(1) r] Cons.prems(2)
    by (auto simp: view_without_eq_iff)
  have "view_without (vu_cluster_id ` set us) (active_view d') = view_without (vu_cluster_id ` set us) (active_view d1)"
    using Cons.IH [OF i1 _ rest] Cons.prems(2) by simp
  then show ?case
    using v1 by (auto simp: view_without_eq_iff)
qed simp

lemma trim_and_confirm_many_spec:
  assumes inv: "cluster_inv d" and run: "trim_and_confirm_many fault now us t d = (res, d')"
  shows "cluster_inv d'"
    and "\<forall>u\<in>set us. wf_chunks (vu_chunks u) \<Longrightarrow> case res of Inl e \<Rightarrow> active_view d' = active_view d
       | Inr n \<Rightarrow> active_view d' = view_without (vu_cluster_id ` set us) (active_view d)"
proof -
  let ?us = "sort_key vu_cluster_id us"
  let ?f = "\<lambda>d. case replace_each now ?us d of Inl e \<Rightarrow> Inl e
    | Inr (_, d') \<Rightarrow> confirm_many_in now (map vu_cluster_id ?us) t d'"
  note inv0 = inv [unfolded cluster_inv_def]
  have f_inv: "cluster_inv d2"
    and f_view: "\<forall>u\<in>set us. wf_chunks (vu_chunks u) \<Longrightarrow>
      active_view d2 = view_without (vu_cluster_id ` set us) (active_view d)"
    if f_run: "?f d = Inr (n, d2)" for n d2
  proof -
    obtain d1 where r: "replace_each now ?us d = Inr ((), d1)"
      and c: "confirm_many_in now (map vu_cluster_id ?us) t d1 = Inr (n, d2)"
      using f_run by (auto split: sum.splits)
    have i1: "cluster_inv_upto (vu_cluster_id ` set us) d1"
      using replace_each_inv [OF inv0 r] by simp
    note spec = confirm_many_in_spec [OF i1 c]
    show "cluster_inv d2"
      using spec(1) by simp
    show "active_view d2 = view_without (vu_cluster_id ` set us) (active_view d)"
      if "\<forall>u\<in>set us. wf_chunks (vu_chunks u)"
      using spec(2) replace_each_view [OF inv0 _ r] that by simp
  qed
  have cases: "us = [] \<and> res = Inr 0 \<and> d' = d \<or> query fault ?f d = (res, d')"
    using run by (auto simp: trim_and_confirm_many_def Let_def split: if_splits)
  then show "cluster_inv d'"
    using query_inv [OF inv, of fault ?f res d'] f_inv inv by blast
  show "case res of Inl e \<Rightarrow> active_view d' = active_view d
       | Inr n \<Rightarrow> active_view d' = view_without (vu_cluster_id ` set us) (active_view d)"
    if "\<forall>u\<in>set us. wf_chunks (vu_chunks u)"
    using cases query_view [of fault ?f d res d'] f_view that
    by (auto simp: view_without_def split: sum.splits)
qed

section \<open>New clusters\<close>

definition with_new :: "(cluster_id \<times> NewCluster) list \<Rightarrow> cluster_id \<Rightarrow> db \<Rightarrow> db" where
  "with_new pairs n d = d\<lparr>db_cluster_seq := n,
     db_clusters := db_clusters d @ map (\<lambda>(i, c). new_cluster_row i c) pairs,
     db_chunks := db_chunks d @ concat (map (\<lambda>(i, c). chunk_rows i 1 (nc_chunks c) True) pairs)\<rparr>"

lemma new_cluster_row_fields [simp]:
  "cr_id (new_cluster_row i c) = i" "cr_status (new_cluster_row i c) = Active"
  "cr_version (new_cluster_row i c) = 1"
  by (simp_all add: new_cluster_row_def)

lemma filter_new_rows:
  "distinct (map fst pairs) \<Longrightarrow>
    filter (\<lambda>r. ch_cluster_id r = i \<and> ch_version r = v) (concat (map (\<lambda>(i, c). chunk_rows i 1 (nc_chunks c) True) pairs)) =
    (if v = 1 then (case map_of pairs i of Some c \<Rightarrow> chunk_rows i 1 (nc_chunks c) True | None \<Rightarrow> []) else [])"
proof (induction pairs)
  case (Cons p pairs)
  then show ?case
    by (cases p) (auto simp: filter_chunk_rows map_of_eq_None_iff [THEN iffD2] split del: if_split split: if_split)
qed simp

text \<open>Ids drawn from the sequence for a list of new clusters.\<close>

definition fresh_ids :: "db \<Rightarrow> (cluster_id \<times> NewCluster) list \<Rightarrow> cluster_id \<Rightarrow> bool" where
  "fresh_ids d pairs n \<longleftrightarrow> cluster_inv d \<and> distinct (map fst pairs) \<and> db_cluster_seq d \<le> n \<and>
     (\<forall>i\<in>fst ` set pairs. db_cluster_seq d \<le> i \<and> i < n)"

lemma fresh_idsD:
  assumes "fresh_ids d pairs n"
  shows "cluster_inv_upto {} d" "distinct (map fst pairs)"
    and "c \<in> set (db_clusters d) \<Longrightarrow> cr_id c \<notin> fst ` set pairs"
    and "(i, nc) \<in> set pairs \<longleftrightarrow> map_of pairs i = Some nc"
proof -
  show inv: "cluster_inv_upto {} d" and dist: "distinct (map fst pairs)"
    using assms by (simp_all add: fresh_ids_def cluster_inv_def)
  show "c \<in> set (db_clusters d) \<Longrightarrow> cr_id c \<notin> fst ` set pairs"
    using cluster_inv_uptoD(2) [OF inv, of c] assms by (fastforce simp: fresh_ids_def)
  show "(i, nc) \<in> set pairs \<longleftrightarrow> map_of pairs i = Some nc"
    using dist by (metis map_of_eq_Some_iff)
qed

lemma current_new:
  assumes fresh: "fresh_ids d pairs n" and i: "map_of pairs i = Some c"
  shows "current_chunks (new_cluster_row i c) (with_new pairs n d) =
    map chunk_of_row (sort_key ch_position (chunk_rows i 1 (nc_chunks c) True))"
proof -
  have "i \<in> fst ` set pairs"
    using i by (metis domI dom_map_of_conv_image_fst)
  then have "ch_cluster_id r \<noteq> i" if "r \<in> set (db_chunks d)" for r
    using cluster_inv_uptoD(4) [OF fresh_idsD(1) [OF fresh] that] fresh_idsD(3) [OF fresh] by metis
  then have "filter (\<lambda>r. ch_cluster_id r = i \<and> ch_version r = 1) (db_chunks d) = []"
    by (auto simp: filter_empty_conv)
  then show ?thesis
    using i by (simp add: current_chunks_def with_new_def filter_new_rows [OF fresh_idsD(2) [OF fresh]])
qed

lemma current_old:
  assumes fresh: "fresh_ids d pairs n" and "cr_id c \<notin> fst ` set pairs"
  shows "current_chunks c (with_new pairs n d) = current_chunks c d"
proof -
  have "map_of pairs (cr_id c) = None"
    using assms(2) by (simp add: map_of_eq_None_iff)
  then show ?thesis
    by (simp add: current_chunks_def with_new_def filter_new_rows [OF fresh_idsD(2) [OF fresh]])
qed

lemma with_new_clusters:
  assumes fresh: "fresh_ids d pairs n"
  shows "set (db_clusters (with_new pairs n d)) =
      set (db_clusters d) \<union> {new_cluster_row i c | i c. map_of pairs i = Some c}"
    and "map cr_id (db_clusters (with_new pairs n d)) = map cr_id (db_clusters d) @ map fst pairs"
proof -
  show "set (db_clusters (with_new pairs n d)) =
      set (db_clusters d) \<union> {new_cluster_row i c | i c. map_of pairs i = Some c}"
    using fresh_idsD(4) [OF fresh] by (auto simp: with_new_def)
  have "map cr_id (map (\<lambda>(i, c). new_cluster_row i c) pairs) = map fst pairs"
    by auto
  then show "map cr_id (db_clusters (with_new pairs n d)) = map cr_id (db_clusters d) @ map fst pairs"
    by (simp add: with_new_def del: map_map)
qed

lemma with_new_chunk_ok:
  assumes fresh: "fresh_ids d pairs n" and r: "r \<in> set (db_chunks (with_new pairs n d))"
  shows "\<exists>c\<in>set (db_clusters (with_new pairs n d)). ch_cluster_id r = cr_id c \<and> chunk_ok {} c r"
proof (cases "r \<in> set (db_chunks d)")
  case True
  then show ?thesis
    using cluster_inv_uptoD(4) [OF fresh_idsD(1) [OF fresh] True] by (auto simp: with_new_clusters [OF fresh])
next
  case False
  then obtain i c where ic: "(i, c) \<in> set pairs" "r \<in> set (chunk_rows i 1 (nc_chunks c) True)"
    using r by (auto simp: with_new_def)
  then have f: "ch_cluster_id r = i" "ch_version r = 1" "ch_live r"
    using chunk_rows_fields by blast+
  have "new_cluster_row i c \<in> set (db_clusters (with_new pairs n d))"
    using ic(1) fresh_idsD(4) [OF fresh] by (auto simp: with_new_clusters [OF fresh])
  moreover have "chunk_ok {} (new_cluster_row i c) r"
    using f by (simp add: chunk_ok_def)
  ultimately show ?thesis
    using f(1) by (intro bexI [of _ "new_cluster_row i c"]) simp_all
qed

lemma with_new_inv:
  assumes fresh: "fresh_ids d pairs n"
    and keys: "distinct (map chunk_key (db_chunks (with_new pairs n d)))"
  shows "cluster_inv (with_new pairs n d)"
  unfolding cluster_inv_def
proof (rule cluster_inv_uptoI)
  let ?d' = "with_new pairs n d"
  note D = cluster_inv_uptoD [OF fresh_idsD(1) [OF fresh]]
  note clusters = with_new_clusters(1) [OF fresh] and ids = with_new_clusters(2) [OF fresh]
  show "distinct (map cr_id (db_clusters ?d'))"
    unfolding ids using D(1) fresh_idsD(2,3) [OF fresh] by auto
  show "cr_id c < db_cluster_seq ?d'" if c: "c \<in> set (db_clusters ?d')" for c
  proof -
    have "cr_id c \<in> set (map cr_id (db_clusters d) @ map fst pairs)"
      using c ids by (metis image_eqI list.set_map)
    then show ?thesis
      using D(2) fresh by (fastforce simp: with_new_def fresh_ids_def)
  qed
  show "distinct (map tx_txid (db_transactions ?d'))"
    using D(6) by (simp add: with_new_def)
  show "row_ok ?d' c" if "c \<in> set (db_clusters ?d')" for c
    using that unfolding clusters
  proof
    assume c: "c \<in> set (db_clusters d)"
    then show ?thesis
      using D(5) [OF c] current_old [OF fresh fresh_idsD(3) [OF fresh c]] by (simp add: row_ok_def)
  next
    assume "c \<in> {new_cluster_row i c | i c. map_of pairs i = Some c}"
    then obtain i nc where "c = new_cluster_row i nc" "map_of pairs i = Some nc"
      by blast
    then show ?thesis
      using current_new [OF fresh] by (simp add: row_ok_def totals_stored) (simp add: new_cluster_row_def)
  qed
qed (rule keys with_new_chunk_ok [OF fresh]; assumption)+

lemma with_new_view:
  assumes fresh: "fresh_ids d pairs n" and wf: "\<And>i c. (i, c) \<in> set pairs \<Longrightarrow> wf_chunks (nc_chunks c)"
  shows "active_view (with_new pairs n d) i = (case map_of pairs i of
      Some c \<Rightarrow> Some (cluster_state_of (from_row (new_cluster_row i c) (nc_chunks c)))
    | None \<Rightarrow> active_view d i)"
proof -
  let ?d' = "with_new pairs n d"
  have new: "find (\<lambda>row. cr_id row = i) (map (\<lambda>(i, c). new_cluster_row i c) pairs) =
      map_option (new_cluster_row i) (map_of pairs i)"
    by (induction pairs) auto
  have row: "row_of ?d' i = (case row_of d i of Some c \<Rightarrow> Some c | None \<Rightarrow> map_option (new_cluster_row i) (map_of pairs i))"
    by (simp add: row_of_def with_new_def row_of_append new split: option.split)
  show ?thesis
  proof (cases "map_of pairs i")
    case None
    have "cr_id c \<notin> fst ` set pairs" if "row_of d i = Some c" for c
      using row_of_Some [OF that] fresh_idsD(3) [OF fresh] by blast
    then have "row_state c ?d' = row_state c d" if "row_of d i = Some c" for c
      using that current_old [OF fresh] by (simp add: row_state_def)
    then show ?thesis
      using None by (auto simp: active_view_def row split: option.splits)
  next
    case (Some c)
    then have "i \<in> fst ` set pairs"
      by (metis domI dom_map_of_conv_image_fst)
    then have none: "row_of d i = None"
      unfolding row_of_None using fresh_idsD(3) [OF fresh] by blast
    have "wf_chunks (nc_chunks c)"
      using wf fresh_idsD(4) [OF fresh] Some by blast
    then have "row_state (new_cluster_row i c) ?d' =
        cluster_state_of (from_row (new_cluster_row i c) (nc_chunks c))"
      using current_new [OF fresh Some] by (simp add: row_state_def cluster_state_of_from_row stored_chunks_roundtrip)
    then show ?thesis
      using Some none by (simp add: active_view_def row)
  qed
qed

definition new_pairs :: "NewCluster list \<Rightarrow> db \<Rightarrow> (cluster_id \<times> NewCluster) list" where
  "new_pairs new d = zip (map (\<lambda>k. db_cluster_seq d + int k) [0..<length new]) new"

definition cluster_of_pair :: "cluster_id \<times> NewCluster \<Rightarrow> Cluster" where
  "cluster_of_pair p = (case p of (i, c) \<Rightarrow> from_row (new_cluster_row i c) (nc_chunks c))"

lemma new_pairs_fresh:
  assumes "cluster_inv d"
  shows "fresh_ids d (new_pairs new d) (db_cluster_seq d + int (length new))"
proof -
  have ids: "map fst (new_pairs new d) = map (\<lambda>k. db_cluster_seq d + int k) [0..<length new]"
    by (simp add: new_pairs_def)
  have "distinct (map fst (new_pairs new d))"
    unfolding ids by (simp add: distinct_map inj_on_def)
  moreover have "fst ` set (new_pairs new d) = set (map (\<lambda>k. db_cluster_seq d + int k) [0..<length new])"
    unfolding ids [symmetric] by simp
  ultimately show ?thesis using assms
    by (auto simp: fresh_ids_def)
qed

lemma zip_map_pairs: "length is = length new \<Longrightarrow>
    map (\<lambda>(row, cluster). from_row row (nc_chunks cluster)) (zip (map (\<lambda>(i, c). new_cluster_row i c) (zip is new)) new) =
    map cluster_of_pair (zip is new)"
  by (induction "is" new rule: list_induct2) (simp_all add: cluster_of_pair_def)

lemma insert_in_eq:
  fixes d new
  defines "w \<equiv> with_new (new_pairs new d) (db_cluster_seq d + int (length new)) d"
  assumes inv: "cluster_inv d" and run: "insert_in now new d = Inr (cls, d')"
  shows "distinct (map chunk_key (db_chunks w))"
    and "cls = map cluster_of_pair (new_pairs new d)"
    and "\<exists>ts. d' = w\<lparr>db_transactions := ts\<rparr> \<and> distinct (map tx_txid ts)"
proof -
  let ?ids = "map (\<lambda>k. db_cluster_seq d + int k) [0..<length new]"
  let ?rows = "map (\<lambda>(i, cluster). new_cluster_row i cluster) (zip ?ids new)"
  let ?chunks = "concat (map (\<lambda>(i, cluster). chunk_rows i 1 (nc_chunks cluster) True) (zip ?ids new))"
  let ?d1 = "d\<lparr>db_cluster_seq := db_cluster_seq d + int (length new), db_clusters := db_clusters d @ ?rows\<rparr>"
  let ?members = "concat (map (\<lambda>cluster. concat (map ck_txids (nc_chunks cluster))) new)"
  have inv0: "cluster_inv_upto {} d"
    using inv by (simp add: cluster_inv_def)
  have w: "w = ?d1\<lparr>db_chunks := db_chunks d @ ?chunks\<rparr>"
    by (simp add: w_def with_new_def new_pairs_def)
  have "distinct (map chunk_key (db_chunks ?d1))"
    using cluster_inv_uptoD(3) [OF inv0] by simp
  note ins = insert_chunks_eq [OF this, of ?chunks]
  have keys: "distinct (map chunk_key (db_chunks ?d1 @ ?chunks))"
    using run unfolding insert_in_def Let_def ins by (auto split: if_splits)
  then show "distinct (map chunk_key (db_chunks w))"
    by (simp add: w)
  let ?d3 = "insert_hollow_members now ?members (?d1\<lparr>db_chunks := db_chunks ?d1 @ ?chunks\<rparr>)"
  let ?linked = "filter (\<lambda>r. ch_cluster_id r \<in> set ?ids) (db_chunks ?d3)"
  have res: "cls = map (\<lambda>(row, cluster). from_row row (nc_chunks cluster)) (zip ?rows new)"
    "d' = ?d3\<lparr>db_transactions := map (link_members ?linked) (db_transactions ?d3)\<rparr>"
    using run unfolding insert_in_def Let_def ins if_P [OF keys] by simp_all
  show "cls = map cluster_of_pair (new_pairs new d)"
    unfolding res(1) new_pairs_def by (rule zip_map_pairs) simp
  have d3: "?d3 = w\<lparr>db_transactions := db_transactions ?d3\<rparr>" "distinct (map tx_txid (db_transactions ?d3))"
    using cluster_inv_uptoD(6) [OF inv0] insert_hollow_rows_spec(1)
    by (simp_all add: insert_hollow_members_def w)
  have "tx_txid (link_members linked t) = tx_txid t" for linked t
    by (simp add: link_members_def split: option.split)
  then have "distinct (map tx_txid (map (link_members ?linked) (db_transactions ?d3)))"
    using d3(2) by (simp add: comp_def)
  moreover have "d' = w\<lparr>db_transactions := map (link_members ?linked) (db_transactions ?d3)\<rparr>"
    unfolding res(2) by (subst (1) d3(1)) simp
  ultimately show "\<exists>ts. d' = w\<lparr>db_transactions := ts\<rparr> \<and> distinct (map tx_txid ts)"
    by blast
qed

text \<open>On the view, inserting clusters adds entries under fresh ids.\<close>

definition add_entry :: "ClusterSnapshot \<Rightarrow> Cluster \<Rightarrow> ClusterSnapshot" where
  "add_entry v cl = v(cl_id cl \<mapsto> cluster_state_of cl)"

lemma insert_in_spec:
  assumes inv: "cluster_inv d" and run: "insert_in now new d = Inr (cls, d')"
  shows "cluster_inv d'"
    and "map cl_chunks cls = map nc_chunks new" and "\<forall>cl\<in>set cls. cl_status cl = Active"
    and "distinct (map cl_id cls)" and "\<forall>cl\<in>set cls. active_view d (cl_id cl) = None"
    and "(\<And>c. c \<in> set new \<Longrightarrow> wf_chunks (nc_chunks c)) \<Longrightarrow> active_view d' = foldl add_entry (active_view d) cls"
proof -
  let ?pairs = "new_pairs new d"
  let ?w = "with_new ?pairs (db_cluster_seq d + int (length new)) d"
  note fresh = new_pairs_fresh [OF inv, of new]
  note eq = insert_in_eq [OF inv run]
  obtain ts where ts: "d' = ?w\<lparr>db_transactions := ts\<rparr>" "distinct (map tx_txid ts)"
    using eq(3) by blast
  show "cluster_inv d'"
    using with_new_inv [OF fresh eq(1)] ts inv_transactions by (simp add: cluster_inv_def)
  have pairs: "map snd ?pairs = new" "map cl_id cls = map fst ?pairs"
    by (simp_all add: new_pairs_def eq(2) cluster_of_pair_def comp_def split_beta)
  have "map cl_chunks cls = map (nc_chunks \<circ> snd) ?pairs"
    by (simp add: eq(2) cluster_of_pair_def comp_def split_beta)
  then show "map cl_chunks cls = map nc_chunks new"
    using pairs(1) by (metis map_map)
  show "\<forall>cl\<in>set cls. cl_status cl = Active"
    by (auto simp: eq(2) cluster_of_pair_def)
  show dist: "distinct (map cl_id cls)"
    using fresh_idsD(2) [OF fresh] pairs(2) by simp
  have "active_view d i = None" if "i \<in> fst ` set ?pairs" for i
  proof -
    have "row_of d i = None"
      unfolding row_of_None using fresh_idsD(3) [OF fresh] that by blast
    then show ?thesis
      by (simp add: active_view_def)
  qed
  then show "\<forall>cl\<in>set cls. active_view d (cl_id cl) = None"
    using pairs(2) by (metis (no_types, lifting) image_eqI list.set_map)
  assume wf: "\<And>c. c \<in> set new \<Longrightarrow> wf_chunks (nc_chunks c)"
  have "wf_chunks (nc_chunks c)" if "(i, c) \<in> set ?pairs" for i c
    using wf pairs(1) that by (metis image_eqI list.set_map snd_conv)
  note view = with_new_view [OF fresh this]
  have add: "foldl add_entry v (map cluster_of_pair ps) i = (case map_of ps i of
      Some c \<Rightarrow> Some (cluster_state_of (from_row (new_cluster_row i c) (nc_chunks c))) | None \<Rightarrow> v i)"
    if "distinct (map fst ps)" for v ps i
    using that
    by (induction ps arbitrary: v) (auto simp: add_entry_def cluster_of_pair_def map_of_eq_None_iff [THEN iffD2] split: option.splits)
  show "active_view d' = foldl add_entry (active_view d) cls"
    unfolding ts(1) active_view_simps eq(2)
    by (rule ext) (simp only: view add [OF fresh_idsD(2) [OF fresh]])
qed

text \<open>Clusters added to a view: active ones under distinct ids that were free.\<close>

definition added_to :: "ClusterSnapshot \<Rightarrow> Cluster list \<Rightarrow> ClusterSnapshot \<Rightarrow> bool" where
  "added_to v cls v' \<longleftrightarrow> v' = foldl add_entry v cls \<and> distinct (map cl_id cls) \<and>
     (\<forall>cl\<in>set cls. cl_status cl = Active \<and> v (cl_id cl) = None)"

lemma foldl_add_entry_other: "i \<notin> cl_id ` set cls \<Longrightarrow> foldl add_entry v cls i = v i"
  by (induction cls arbitrary: v) (auto simp: add_entry_def)

lemma foldl_add_entry_in:
  "distinct (map cl_id cls) \<Longrightarrow> cl \<in> set cls \<Longrightarrow> foldl add_entry v cls (cl_id cl) = Some (cluster_state_of cl)"
proof (induction cls arbitrary: v)
  case (Cons c cls)
  show ?case
  proof (cases "cl = c")
    case True
    then have "cl_id cl \<notin> cl_id ` set cls"
      using Cons.prems(1) by simp
    then have "foldl add_entry (add_entry v c) cls (cl_id cl) = add_entry v c (cl_id cl)"
      by (rule foldl_add_entry_other)
    with True show ?thesis
      by (simp add: add_entry_def [of v c])
  next
    case False
    with Cons show ?thesis
      by simp
  qed
qed simp

lemma added_to_trans:
  assumes "added_to v xs v'" "added_to v' ys v''"
  shows "added_to v (xs @ ys) v''"
proof -
  have "v (cl_id cl) = None \<and> cl_id cl \<notin> cl_id ` set xs" if "cl \<in> set ys" for cl
  proof -
    have none: "foldl add_entry v xs (cl_id cl) = None"
      using assms that by (auto simp: added_to_def)
    then have "cl_id cl \<notin> cl_id ` set xs"
      using assms(1) foldl_add_entry_in [of xs _ v] by (force simp: added_to_def)
    with none show ?thesis
      by (simp add: foldl_add_entry_other)
  qed
  then have none: "\<forall>cl\<in>set ys. v (cl_id cl) = None" and free: "\<forall>cl\<in>set ys. cl_id cl \<notin> cl_id ` set xs"
    by simp_all
  have disj: "cl_id ` set xs \<inter> cl_id ` set ys = {}"
  proof (rule equals0I)
    fix i
    assume i: "i \<in> cl_id ` set xs \<inter> cl_id ` set ys"
    then obtain cl where "cl \<in> set ys" "i = cl_id cl"
      by blast
    with i free show False
      by simp
  qed
  show ?thesis
    unfolding added_to_def
  proof (intro conjI)
    show "v'' = foldl add_entry v (xs @ ys)"
      using assms by (simp add: added_to_def)
    show "distinct (map cl_id (xs @ ys))"
      using assms disj by (simp add: added_to_def)
    show "\<forall>cl\<in>set (xs @ ys). cl_status cl = Active \<and> v (cl_id cl) = None"
      using assms none unfolding added_to_def set_append by blast
  qed
qed

lemma insert_in_added:
  assumes "cluster_inv d" "insert_in now new d = Inr (cls, d')" "\<And>c. c \<in> set new \<Longrightarrow> wf_chunks (nc_chunks c)"
  shows "added_to (active_view d) cls (active_view d')"
  using insert_in_spec [OF assms(1,2)] assms(3) by (simp add: added_to_def)

lemma insert_with_members_spec:
  assumes inv: "cluster_inv d" and wf: "wf_chunks (nc_chunks c)"
    and run: "insert_with_members fault now c d = (res, d')"
  shows "cluster_inv d'"
    and "case res of Inl e \<Rightarrow> active_view d' = active_view d
       | Inr cl \<Rightarrow> added_to (active_view d) [cl] (active_view d') \<and> cl_chunks cl = nc_chunks c"
proof -
  let ?f = "\<lambda>d. case insert_in now [c] d of Inl e \<Rightarrow> Inl e | Inr (inserted, d') \<Rightarrow> Inr (hd inserted, d')"
  have q: "query fault ?f d = (res, d')"
    using run by (simp add: insert_with_members_def)
  have f: "cluster_inv d2 \<and> added_to (active_view d) [cl] (active_view d2) \<and> cl_chunks cl = nc_chunks c"
    if f_run: "?f d = Inr (cl, d2)" for cl d2
  proof -
    obtain cls where cls: "insert_in now [c] d = Inr (cls, d2)" "cl = hd cls"
      using f_run by (auto split: sum.splits)
    note spec = insert_in_spec [OF inv cls(1)]
    have "cls = [cl]"
      using spec(2) cls(2) by (auto simp: map_eq_Cons_conv)
    then show ?thesis
      using spec(1,2) insert_in_added [OF inv cls(1)] wf by simp
  qed
  show "cluster_inv d'"
    by (rule query_inv [OF inv q]) (use f in blast)
  show "case res of Inl e \<Rightarrow> active_view d' = active_view d
       | Inr cl \<Rightarrow> added_to (active_view d) [cl] (active_view d') \<and> cl_chunks cl = nc_chunks c"
    using query_view [OF q] f by (cases res) auto
qed

text \<open>Batched inserts: on an error the batches before it are in, unreported.\<close>

lemma insert_batches_spec:
  assumes "cluster_inv d" "\<And>c. c \<in> set (concat bs) \<Longrightarrow> wf_chunks (nc_chunks c)"
    and "insert_batches faults now k bs d = (res, d')"
  shows "cluster_inv d' \<and> (\<exists>cls rest. added_to (active_view d) cls (active_view d') \<and>
     map nc_chunks (concat bs) = map cl_chunks cls @ rest \<and> (\<forall>x. res = Inr x \<longrightarrow> x = cls \<and> rest = []) \<and>
     (\<forall>e. res = Inl e \<longrightarrow> (\<exists>j<length bs. length cls = length (concat (take j bs)))))"
  using assms
proof (induction bs arbitrary: k d res)
  case Nil
  then show ?case
    by (auto simp: added_to_def)
next
  case (Cons b bs)
  obtain r1 d1 where q: "query (faults k) (insert_in now b) d = (r1, d1)"
    by force
  have i1: "cluster_inv d1"
    by (rule query_inv [OF Cons.prems(1) q]) (rule insert_in_spec(1) [OF Cons.prems(1)])
  show ?case
  proof (cases r1)
    case (Inl e)
    then have "res = Inl e" "d' = d1"
      using Cons.prems(3) q by simp_all
    moreover have "active_view d1 = active_view d"
      using Inl query_view [OF q] by simp
    ultimately have "res = Inl e" "d' = d1" "active_view d' = active_view d"
      by simp_all
    then show ?thesis
      using i1 by (intro conjI exI [of _ "[]"] exI [of _ "map nc_chunks (concat (b # bs))"])
        (auto simp: added_to_def intro: exI [of _ 0])
  next
    case (Inr rows)
    then have run: "insert_in now b d = Inr (rows, d1)"
      using query_view [OF q] by simp
    have a1: "added_to (active_view d) rows (active_view d1)"
      by (rule insert_in_added [OF Cons.prems(1) run]) (use Cons.prems(2) in auto)
    have c1: "map cl_chunks rows = map nc_chunks b"
      by (rule insert_in_spec(2) [OF Cons.prems(1) run])
    obtain r2 where rest: "insert_batches faults now (Suc k) bs d1 = (r2, d')"
      and res: "res = (case r2 of Inl e \<Rightarrow> Inl e | Inr x \<Rightarrow> Inr (rows @ x))"
      using Cons.prems(3) q Inr by (auto split: prod.splits sum.splits)
    obtain cls rs where "cluster_inv d'" "added_to (active_view d1) cls (active_view d')"
      "map nc_chunks (concat bs) = map cl_chunks cls @ rs" "\<forall>x. r2 = Inr x \<longrightarrow> x = cls \<and> rs = []"
      and stop: "\<And>e. r2 = Inl e \<Longrightarrow> \<exists>j<length bs. length cls = length (concat (take j bs))"
      using Cons.IH [OF i1 _ rest] Cons.prems(2) by (metis UnI2 concat.simps(2) set_append)
    moreover have "\<exists>j<length (b # bs). length (rows @ cls) = length (concat (take j (b # bs)))" if err: "res = Inl e" for e
    proof -
      obtain j where "j < length bs" "length cls = length (concat (take j bs))"
        using stop err res by (auto split: sum.splits)
      then show ?thesis
        using arg_cong [OF c1, of length] by (intro exI [of _ "Suc j"]) simp
    qed
    ultimately show ?thesis
      using added_to_trans [OF a1] c1 res
      by (intro conjI exI [of _ "rows @ cls"] exI [of _ rs]) (auto split: sum.splits)
  qed
qed

lemma insert_many_with_members_spec:
  assumes "cluster_inv d" "\<And>c. c \<in> set new \<Longrightarrow> wf_chunks (nc_chunks c)"
    and "insert_many_with_members faults now new d = (res, d')"
  shows "cluster_inv d' \<and> (\<exists>cls rest. added_to (active_view d) cls (active_view d') \<and>
     map nc_chunks new = map cl_chunks cls @ rest \<and> (\<forall>x. res = Inr x \<longrightarrow> x = cls \<and> rest = []) \<and>
     (\<forall>e. res = Inl e \<longrightarrow> rest \<noteq> [] \<and> 10000 dvd length cls))"
proof -
  let ?bs = "chunks_of MEMPOOL_DELTA_INSERT_CHUNK_SIZE new"
  have size: "0 < MEMPOOL_DELTA_INSERT_CHUNK_SIZE" "concat ?bs = new"
    by (simp_all add: MEMPOOL_DELTA_INSERT_CHUNK_SIZE_def)
  obtain cls rest where spec: "cluster_inv d'" "added_to (active_view d) cls (active_view d')" "map nc_chunks new = map cl_chunks cls @ rest"
    "\<forall>x. res = Inr x \<longrightarrow> x = cls \<and> rest = []"
    and stop: "\<And>e. res = Inl e \<Longrightarrow> \<exists>j<length ?bs. length cls = length (concat (take j ?bs))"
    using insert_batches_spec [OF assms(1) _ assms(3) [unfolded insert_many_with_members_def]] assms(2) unfolding size(2) by blast
  have "rest \<noteq> [] \<and> 10000 dvd length cls" if err: "res = Inl e" for e
  proof -
    obtain j where j: "j < length ?bs" "length cls = length (concat (take j ?bs))"
      using stop [OF err] by blast
    then have "length cls = j * 10000" "length cls < length new"
      using chunks_of_prefix [OF size(1) j(1)] by (simp_all add: MEMPOOL_DELTA_INSERT_CHUNK_SIZE_def)
    then show ?thesis
      using arg_cong [OF spec(3), of length] by auto
  qed
  with spec show ?thesis by blast
qed


section \<open>Readers\<close>

lemma group_chunks:
  "foldl group_step (out @ [cl]) (map (\<lambda>c. (row, Some c)) cs) =
    out @ [cl\<lparr>cl_chunks := cl_chunks cl @ map chunk_of_row cs\<rparr>]" if "cl_id cl = cr_id row"
  using that by (induction cs arbitrary: cl) (simp_all add: group_step_def)

lemma group_cluster:
  assumes "out = [] \<or> cl_id (last out) \<noteq> cr_id row"
  shows "foldl group_step out (if cs = [] then [(row, None)] else map (\<lambda>c. (row, Some c)) cs) =
    out @ [from_row row (map chunk_of_row cs)]"
proof (cases cs)
  case Nil
  then show ?thesis
    using assms by (simp add: group_step_def)
next
  case (Cons c rest)
  have first: "group_step out (row, Some c) = out @ [from_row row [chunk_of_row c]]"
    using assms by (auto simp: group_step_def from_row_def)
  show ?thesis
    using group_chunks [of "from_row row [chunk_of_row c]" row out rest] first
    by (simp add: Cons from_row_def)
qed

lemma group_all:
  assumes "distinct (map cr_id rows)" "out = [] \<or> cl_id (last out) \<notin> cr_id ` set rows"
  shows "foldl group_step out (concat (map (\<lambda>row. if f row = [] then [(row, None)]
      else map (\<lambda>c. (row, Some c)) (f row)) rows)) =
    out @ map (\<lambda>row. from_row row (map chunk_of_row (f row))) rows"
  using assms
proof (induction rows arbitrary: out)
  case (Cons row rows)
  let ?out = "out @ [from_row row (map chunk_of_row (f row))]"
  have "foldl group_step out (if f row = [] then [(row, None)] else map (\<lambda>c. (row, Some c)) (f row)) = ?out"
    by (rule group_cluster) (use Cons.prems(2) in auto)
  moreover have "foldl group_step ?out (concat (map (\<lambda>row. if f row = [] then [(row, None)]
      else map (\<lambda>c. (row, Some c)) (f row)) rows)) =
    ?out @ map (\<lambda>row. from_row row (map chunk_of_row (f row))) rows"
    by (rule Cons.IH) (use Cons.prems(1) in auto)
  ultimately show ?case
    by simp
qed simp

lemma load_clusters_eq:
  assumes "distinct (map cr_id (db_clusters d))"
  shows "load_clusters f d = map (\<lambda>row. from_row row (current_chunks row d))
    (sort_key cr_id (filter (filter_matches f) (db_clusters d)))"
proof -
  let ?rows = "sort_key cr_id (filter (filter_matches f) (db_clusters d))"
  have "mset (map cr_id ?rows) = mset (map cr_id (filter (filter_matches f) (db_clusters d)))"
    by simp
  then have "distinct (map cr_id ?rows)"
    using assms by (metis distinct_map_filter mset_eq_imp_distinct_iff)
  from group_all [OF this, of "[]" "\<lambda>row. sort_key ch_position
      (filter (\<lambda>r. ch_cluster_id r = cr_id row \<and> ch_version r = cr_version row) (db_chunks d))"]
  show ?thesis
    by (simp add: load_clusters_def joined_rows_def current_chunks_def Let_def)
qed

end
