(* ===== verification/Cluster_Props.thy ===== *)
theory Cluster_Props
  imports Cluster_Inv
begin

text \<open>
  The properties of the cluster repositories: the invariant, the refinement of the abstract map of
  active clusters, the lookups by txid, the stored form of chunks and the back-links.
\<close>

section \<open>What the readers return\<close>

definition sample_db :: db where
  "sample_db = \<lparr>db_clusters = [], db_cluster_seq = 1, db_chunks = [], db_transactions = [],
     db_blocks = [], db_deltas = []\<rparr>"

definition sample_new :: NewCluster where
  "sample_new = \<lparr>nc_chunks = [\<lparr>ck_txids = [''a'', ''b''], ck_fee_sats = 100, ck_weight = 800\<rparr>],
     nc_first_seen_at = 7\<rparr>"

lemma sample_db_inv: "cluster_inv sample_db"
  by (simp add: cluster_inv_def cluster_inv_upto_def sample_db_def)

lemma find_active_view:
  assumes "cluster_inv d"
  shows "snapshot_seed (map active_cluster_from (load_clusters FilterActive d)) = active_view d"
proof -
  have dist: "distinct (map cr_id (db_clusters d))"
    using cluster_inv_uptoD(1) assms by (auto simp: cluster_inv_def)
  let ?rows = "sort_key cr_id (filter (filter_matches FilterActive) (db_clusters d))"
  have rows: "set ?rows = {c \<in> set (db_clusters d). cr_status c = Active}"
    by (simp add: filter_matches_def)
  have seed: "foldl put_cluster m (map (\<lambda>row. active_cluster_from (from_row row (current_chunks row d))) rs) =
      (\<lambda>i. if i \<in> cr_id ` set rs then Some (row_state (the (row_of d i)) d) else m i)"
    if "set rs \<subseteq> set (db_clusters d)" for rs m
    using that
  proof (induction rs arbitrary: m)
    case (Cons r rs)
    have "row_of d (cr_id r) = Some r"
      using Cons.prems by (intro row_of_unique [OF dist]) simp
    moreover have "put_cluster m (active_cluster_from (from_row r (current_chunks r d))) = m(cr_id r \<mapsto> row_state r d)"
      by (simp add: put_cluster_def active_cluster_from_def from_row_def ac_state_def row_state_def)
    ultimately show ?case
      using Cons by (intro ext) auto
  qed simp
  have "snapshot_seed (map active_cluster_from (load_clusters FilterActive d)) =
      (\<lambda>i. if i \<in> cr_id ` set ?rows then Some (row_state (the (row_of d i)) d) else None)"
    unfolding snapshot_seed_def load_clusters_eq [OF dist] map_map comp_def
    by (rule seed) (simp add: rows)
  also have "\<dots> = active_view d"
  proof
    fix i
    show "(if i \<in> cr_id ` set ?rows then Some (row_state (the (row_of d i)) d) else None) = active_view d i"
    proof (cases "row_of d i")
      case None
      then have "i \<notin> cr_id ` set ?rows"
        unfolding rows row_of_None by blast
      with None show ?thesis
        by (simp add: active_view_def)
    next
      case (Some c)
      then have c: "c \<in> set (db_clusters d)" "cr_id c = i"
        using row_of_Some by blast+
      have "i \<in> cr_id ` set ?rows \<longleftrightarrow> cr_status c = Active"
        unfolding rows using c dist by (auto simp: distinct_map inj_on_def)
      with Some show ?thesis
        by (simp add: active_view_def)
    qed
  qed
  finally show ?thesis .
qed

text \<open>The live chunk rows are exactly the chunks of active clusters.\<close>

lemma live_chunk_iff:
  assumes "cluster_inv d" "r \<in> set (db_chunks d)"
  shows "ch_live r \<longleftrightarrow> (\<exists>c\<in>set (db_clusters d). cr_status c = Active \<and>
    ch_cluster_id r = cr_id c \<and> ch_version r = cr_version c)"
proof -
  have inv0: "cluster_inv_upto {} d"
    using assms(1) by (simp add: cluster_inv_def)
  obtain c where c: "c \<in> set (db_clusters d)" "ch_cluster_id r = cr_id c" "chunk_ok {} c r"
    using cluster_inv_uptoD(4) [OF inv0 assms(2)] by blast
  have "ch_live r \<longleftrightarrow> cr_status c = Active \<and> ch_version r = cr_version c"
    using c(3) unfolding chunk_ok_def by blast
  moreover have "c' = c" if "c' \<in> set (db_clusters d)" "ch_cluster_id r = cr_id c'" for c'
    using that c(1,2) cluster_inv_uptoD(1) [OF inv0] by (metis distinct_map inj_on_contraD)
  ultimately show ?thesis
    using c by blast
qed

lemma row_state_overlap: "set (cs_txids (row_state c d)) \<inter> T \<noteq> {} \<longleftrightarrow>
    (\<exists>r\<in>set (db_chunks d). ch_cluster_id r = cr_id c \<and> ch_version r = cr_version c \<and> set (ch_txids r) \<inter> T \<noteq> {})"
proof -
  have "set (cs_txids (row_state c d)) = (\<Union>r\<in>{r \<in> set (db_chunks d). ch_cluster_id r = cr_id c \<and>
      ch_version r = cr_version c}. set (ch_txids r))"
    by (simp add: cs_txids_def row_state_def current_chunks_def chunk_of_row_def)
  then show ?thesis
    by blast
qed

text \<open>Ids of the active clusters that hold one of the txids, read off the abstract map.\<close>

definition active_ids_with :: "txid set \<Rightarrow> db \<Rightarrow> cluster_id set" where
  "active_ids_with T d = {i. \<exists>st. active_view d i = Some st \<and> set (cs_txids st) \<inter> T \<noteq> {}}"

lemma find_active_ids_spec:
  assumes "cluster_inv d" "find_active_ids_by_txids fault txids d = Inr ids"
  shows "set ids = active_ids_with (set txids) d" and "distinct ids"
proof -
  have dist: "distinct (map cr_id (db_clusters d))"
    using cluster_inv_uptoD(1) assms(1) by (auto simp: cluster_inv_def)
  have with_iff: "i \<in> active_ids_with T d \<longleftrightarrow> (\<exists>c\<in>set (db_clusters d). cr_id c = i \<and> cr_status c = Active \<and>
      (\<exists>r \<in> set (db_chunks d). ch_cluster_id r = cr_id c \<and> ch_version r = cr_version c \<and> set (ch_txids r) \<inter> T \<noteq> {}))" for i T
    unfolding active_ids_with_def mem_Collect_eq active_view_Some [OF dist] row_state_overlap [symmetric] by blast
  have live: "set (map ch_cluster_id (filter (\<lambda>r. ch_live r \<and> set (ch_txids r) \<inter> T \<noteq> {}) (db_chunks d))) = active_ids_with T d" for T
  proof (rule set_eqI)
    fix i
    have "i \<in> set (map ch_cluster_id (filter (\<lambda>r. ch_live r \<and> set (ch_txids r) \<inter> T \<noteq> {}) (db_chunks d))) \<longleftrightarrow>
        (\<exists>r\<in>set (db_chunks d). ch_live r \<and> ch_cluster_id r = i \<and> set (ch_txids r) \<inter> T \<noteq> {})"
      unfolding set_map set_filter by blast
    also have "\<dots> \<longleftrightarrow> (\<exists>r\<in>set (db_chunks d). (\<exists>c\<in>set (db_clusters d). cr_status c = Active \<and>
        ch_cluster_id r = cr_id c \<and> ch_version r = cr_version c) \<and> ch_cluster_id r = i \<and> set (ch_txids r) \<inter> T \<noteq> {})"
      by (intro bex_cong refl conj_cong live_chunk_iff [OF assms(1)])
    also have "\<dots> \<longleftrightarrow> i \<in> active_ids_with T d"
      unfolding with_iff by (rule iffI; elim bexE conjE; metis)
    finally show "i \<in> set (map ch_cluster_id (filter (\<lambda>r. ch_live r \<and> set (ch_txids r) \<inter> T \<noteq> {}) (db_chunks d))) \<longleftrightarrow>
        i \<in> active_ids_with T d" .
  qed
  have join: "set (map cr_id (filter (\<lambda>c. cr_status c = Active \<and> (\<exists>r \<in> set (db_chunks d). ch_cluster_id r = cr_id c \<and>
      ch_version r = cr_version c \<and> set (ch_txids r) \<inter> T \<noteq> {})) (db_clusters d))) = active_ids_with T d" for T
    unfolding set_eq_iff with_iff set_map set_filter by blast
  have empty: "active_ids_with {} d = {}"
    by (simp add: active_ids_with_def)
  show "set ids = active_ids_with (set txids) d" and "distinct ids"
    using assms(2) live [of "set txids"] join [of "set txids"] empty
    by (auto simp: find_active_ids_by_txids_def query_def split: if_splits option.splits simp del: set_map set_filter)
qed

lemma distinct_map_filter_single:
  "distinct (map f xs) \<Longrightarrow> x \<in> set xs \<Longrightarrow> filter (\<lambda>y. f y = f x) xs = [x]"
proof (induction xs)
  case (Cons a xs)
  show ?case
  proof (cases "x = a")
    case True
    have "f y \<noteq> f a" if "y \<in> set xs" for y
      using Cons.prems(1) that by (metis distinct.simps(2) image_eqI list.set_map list.simps(9))
    with True show ?thesis
      by (simp add: filter_empty_conv)
  next
    case False
    with Cons show ?thesis
      by auto
  qed
qed simp

lemma insert_many_refines:
  assumes "cluster_inv d" "\<And>c. c \<in> set cs \<Longrightarrow> wf_chunks (nc_chunks c)"
  shows "case insert_many_with_members faults now cs d of
      (Inl e, d') \<Rightarrow> (\<exists>cls n. n < length cs \<and> 10000 dvd n \<and> map cl_chunks cls = map nc_chunks (take n cs) \<and>
        added_to (active_view d) cls (active_view d')) \<and> (length cs \<le> 10000 \<longrightarrow> active_view d' = active_view d)
    | (Inr cls, d') \<Rightarrow> map cl_chunks cls = map nc_chunks cs \<and> added_to (active_view d) cls (active_view d')"
proof -
  obtain res d' where run: "insert_many_with_members faults now cs d = (res, d')"
    by (rule prod.exhaust)
  obtain cls rest where spec: "added_to (active_view d) cls (active_view d')" "map nc_chunks cs = map cl_chunks cls @ rest"
    "\<forall>x. res = Inr x \<longrightarrow> x = cls \<and> rest = []" "\<forall>e. res = Inl e \<longrightarrow> rest \<noteq> [] \<and> 10000 dvd length cls"
    using insert_many_with_members_spec [OF assms run] by blast
  have "length cs = length cls + length rest"
    using arg_cong [OF spec(2), of length] by simp
  moreover have "map cl_chunks cls = map nc_chunks (take (length cls) cs)"
    using arg_cong [OF spec(2), of "take (length cls)"] by (simp add: take_map)
  moreover have "active_view d' = active_view d" if "length cls < length cs" "length cs \<le> 10000" "10000 dvd length cls"
  proof -
    have "length cls = 0"
      using that nat_dvd_not_less [of "length cls" 10000] by linarith
    then show ?thesis
      using spec(1) by (simp add: added_to_def)
  qed
  ultimately show ?thesis
    using run spec by (cases res) (auto intro!: exI [of _ cls] exI [of _ "length cls"])
qed

section \<open>Properties\<close>

text \<open>C14: Every writer of the cluster tables keeps them consistent, whether it succeeds, is refused by
  a constraint or is rolled back by a fault: keys stay unique, chunk rows are live exactly when
  they are the current version of an active cluster, closing times, block times and statuses
  agree, and the stored totals are those of the stored chunks.\<close>

theorem cluster_writers_keep_inv:
  assumes "cluster_inv d"
  shows "cluster_inv (snd (insert_with_members fault now c d)) \<and>
    cluster_inv (snd (insert_many_with_members faults now cs d)) \<and>
    cluster_inv (snd (replace_chunks fault now u d)) \<and>
    cluster_inv (snd (mark_evicted fault now ids d)) \<and>
    cluster_inv (snd (mark_merged fault now ids d)) \<and>
    cluster_inv (snd (confirm_many fault now ids t d)) \<and>
    cluster_inv (snd (trim_and_confirm_many fault now us t d))"
proof -
  have many: "cluster_inv (snd (insert_batches faults now k bs d))" if "cluster_inv d" for k bs d
    using that
  proof (induction bs arbitrary: k d)
    case (Cons b bs)
    have "cluster_inv (snd (query (faults k) (insert_in now b) d))"
      by (rule query_inv [OF Cons.prems prod.collapse [symmetric]]) (rule insert_in_spec(1) [OF Cons.prems])
    with Cons.IH show ?case
      by (auto split: prod.splits sum.splits) (metis snd_conv)+
  qed simp
  have one: "cluster_inv (snd (insert_with_members fault now c d))"
    unfolding insert_with_members_def
    by (rule query_inv [OF assms prod.collapse [symmetric]])
      (auto split: sum.splits dest: insert_in_spec(1) [OF assms])
  have rep: "cluster_inv (snd (replace_chunks fault now u d))"
    unfolding replace_chunks_def
    by (rule query_inv [OF assms prod.collapse [symmetric]])
      (use replace_chunks_in_inv [OF assms [unfolded cluster_inv_def]] in \<open>auto simp: cluster_inv_def\<close>)
  have close: "cluster_inv (snd (close_many fault now ids k d))" for k
    by (rule close_many_spec(1) [OF assms prod.collapse [symmetric]])
  show ?thesis
    using one rep close many [OF assms]
      confirm_many_spec(1) [OF assms prod.collapse [symmetric]]
      trim_and_confirm_many_spec(1) [OF assms prod.collapse [symmetric]]
    by (simp add: insert_many_with_members_def mark_evicted_def mark_merged_def)
qed

theorem cluster_writers_keep_inv_witness:
  "cluster_inv (snd (insert_with_members None 9 sample_new sample_db))"
  using cluster_writers_keep_inv [OF sample_db_inv] by blast

text \<open>C13: The cluster tables implement a map from active cluster ids to their chunks, totals and first
  sighting. A successful insert adds one entry under an id that was free; a successful bulk insert adds one entry per new
  cluster, in order, each under an id of its own that was free; a new version of an
  active cluster replaces its entry by the state returned to the caller; closing, confirming and
  trimming remove entries. A call that reports an error changes nothing, the bulk insert excepted: it may have added
  some first clusters of its list, a multiple of 10000 of them and not all, so nothing for a list of up to 10000.\<close>

theorem cluster_writers_refine_map:
  assumes "cluster_inv d" "wf_chunks (nc_chunks c)" "wf_chunks (vu_chunks u)"
    "\<forall>u\<in>set us. wf_chunks (vu_chunks u)" "\<forall>c\<in>set cs. wf_chunks (nc_chunks c)"
  shows "(case insert_with_members fault now c d of
        (Inl e, d') \<Rightarrow> active_view d' = active_view d
      | (Inr cl, d') \<Rightarrow> active_view d (cl_id cl) = None \<and>
          active_view d' = (active_view d)(cl_id cl \<mapsto> cluster_state_of cl) \<and> cl_chunks cl = nc_chunks c) \<and>
    (case insert_many_with_members faults now cs d of
        (Inl e, d') \<Rightarrow> (\<exists>cls n. n < length cs \<and> 10000 dvd n \<and> map cl_chunks cls = map nc_chunks (take n cs) \<and>
          added_to (active_view d) cls (active_view d')) \<and> (length cs \<le> 10000 \<longrightarrow> active_view d' = active_view d)
      | (Inr cls, d') \<Rightarrow> map cl_chunks cls = map nc_chunks cs \<and> added_to (active_view d) cls (active_view d')) \<and>
    (case replace_chunks fault now u d of
        (Inl e, d') \<Rightarrow> active_view d' = active_view d
      | (Inr cl, d') \<Rightarrow> cl_id cl = vu_cluster_id u \<and>
          (if active_view d (vu_cluster_id u) = None then active_view d' = active_view d
           else cl_chunks cl = vu_chunks u \<and>
             active_view d' = (active_view d)(vu_cluster_id u \<mapsto> cluster_state_of cl))) \<and>
    (case close_many fault now ids k d of
        (Inl e, d') \<Rightarrow> active_view d' = active_view d
      | (Inr n, d') \<Rightarrow> active_view d' = view_without (set ids) (active_view d)) \<and>
    (case confirm_many fault now ids t d of
        (Inl e, d') \<Rightarrow> active_view d' = active_view d
      | (Inr n, d') \<Rightarrow> active_view d' = view_without (set ids) (active_view d)) \<and>
    (case trim_and_confirm_many fault now us t d of
        (Inl e, d') \<Rightarrow> active_view d' = active_view d
      | (Inr n, d') \<Rightarrow> active_view d' = view_without (vu_cluster_id ` set us) (active_view d))"
proof (intro conjI)
  show "case insert_with_members fault now c d of (Inl e, d') \<Rightarrow> active_view d' = active_view d
      | (Inr cl, d') \<Rightarrow> active_view d (cl_id cl) = None \<and>
          active_view d' = (active_view d)(cl_id cl \<mapsto> cluster_state_of cl) \<and> cl_chunks cl = nc_chunks c"
    using insert_with_members_spec(2) [OF assms(1,2) prod.collapse [symmetric], of fault now]
    by (auto simp: added_to_def add_entry_def split: prod.splits sum.splits)
  show "case insert_many_with_members faults now cs d of
        (Inl e, d') \<Rightarrow> (\<exists>cls n. n < length cs \<and> 10000 dvd n \<and> map cl_chunks cls = map nc_chunks (take n cs) \<and>
          added_to (active_view d) cls (active_view d')) \<and> (length cs \<le> 10000 \<longrightarrow> active_view d' = active_view d)
      | (Inr cls, d') \<Rightarrow> map cl_chunks cls = map nc_chunks cs \<and> added_to (active_view d) cls (active_view d')"
    by (rule insert_many_refines) (use assms(1,5) in blast)+
  show "case replace_chunks fault now u d of (Inl e, d') \<Rightarrow> active_view d' = active_view d
      | (Inr cl, d') \<Rightarrow> cl_id cl = vu_cluster_id u \<and>
          (if active_view d (vu_cluster_id u) = None then active_view d' = active_view d
           else cl_chunks cl = vu_chunks u \<and>
             active_view d' = (active_view d)(vu_cluster_id u \<mapsto> cluster_state_of cl))"
    using replace_chunks_spec(2-) [OF assms(1,3) prod.collapse [symmetric], of fault now]
    by (cases "replace_chunks fault now u d") (auto split: sum.splits)
  show "case close_many fault now ids k d of (Inl e, d') \<Rightarrow> active_view d' = active_view d
      | (Inr n, d') \<Rightarrow> active_view d' = view_without (set ids) (active_view d)"
    using close_many_spec(2) [OF assms(1) prod.collapse [symmetric], of fault now ids k]
    by (auto split: prod.splits sum.splits)
  show "case confirm_many fault now ids t d of (Inl e, d') \<Rightarrow> active_view d' = active_view d
      | (Inr n, d') \<Rightarrow> active_view d' = view_without (set ids) (active_view d)"
    using confirm_many_spec(2) [OF assms(1) prod.collapse [symmetric], of fault now ids t]
    by (auto split: prod.splits sum.splits)
  show "case trim_and_confirm_many fault now us t d of (Inl e, d') \<Rightarrow> active_view d' = active_view d
      | (Inr n, d') \<Rightarrow> active_view d' = view_without (vu_cluster_id ` set us) (active_view d)"
    using trim_and_confirm_many_spec(2) [OF assms(1) prod.collapse [symmetric] assms(4), of fault now t]
    by (auto split: prod.splits sum.splits)
qed

lemma sample_new_wf: "wf_chunks (nc_chunks sample_new)"
  by (simp add: sample_new_def wf_chunks_def is_u64_def)

definition sample_update :: ClusterVersionUpdate where
  "sample_update = \<lparr>vu_cluster_id = 1, vu_chunks = [\<lparr>ck_txids = [''a''], ck_fee_sats = 60, ck_weight = 400\<rparr>]\<rparr>"

lemma sample_update_wf: "wf_chunks (vu_chunks sample_update)"
  by (simp add: sample_update_def wf_chunks_def is_u64_def)

theorem cluster_writers_refine_map_witness:
  "\<exists>cl d'. insert_with_members None 9 sample_new sample_db = (Inr cl, d') \<and>
     active_view d' (cl_id cl) = Some (cluster_state_of cl)"
proof -
  have "\<exists>cl d'. insert_with_members None 9 sample_new sample_db = (Inr cl, d')"
    by (simp add: insert_with_members_def query_def insert_in_def sample_new_def sample_db_def
        insert_chunks_eq chunk_rows_def chunk_key_def Let_def)
  then obtain cl d' where "insert_with_members None 9 sample_new sample_db = (Inr cl, d')"
    by blast
  then show ?thesis
    using cluster_writers_refine_map [OF sample_db_inv sample_new_wf sample_update_wf,
        where us = "[sample_update]" and cs = "[sample_new]" and faults = "\<lambda>_. None" and fault = None and now = 9 and ids = "[]" and k = ClosingMerged and t = 9]
    by (auto simp: sample_update_wf sample_new_wf)
qed

text \<open>C31: The two ways of finding the active clusters that hold given txids, the overlap query on live
  chunks for short lists and the join over active clusters for 64 txids or more, return the same
  set: the ids whose entry in the abstract map has one of the txids, each once.\<close>

theorem find_active_ids_branches_agree:
  assumes "cluster_inv d"
  shows "find_active_ids_by_txids (Some (e, n)) txids d = (if txids = [] then Inr [] else Inl e) \<and>
    (\<exists>ids. find_active_ids_by_txids None txids d = Inr ids \<and> distinct ids \<and>
       set ids = active_ids_with (set txids) d)"
proof
  show "find_active_ids_by_txids (Some (e, n)) txids d = (if txids = [] then Inr [] else Inl e)"
    by (simp add: find_active_ids_by_txids_def query_def)
  have "\<exists>ids. find_active_ids_by_txids None txids d = Inr ids"
    by (simp add: find_active_ids_by_txids_def query_def)
  then show "\<exists>ids. find_active_ids_by_txids None txids d = Inr ids \<and> distinct ids \<and>
       set ids = active_ids_with (set txids) d"
    using find_active_ids_spec [OF assms] by blast
qed

theorem find_active_ids_branches_agree_witness:
  "\<exists>ids. find_active_ids_by_txids None [''a''] sample_db = Inr ids \<and> distinct ids \<and>
     set ids = active_ids_with {''a''} sample_db"
  using find_active_ids_branches_agree [OF sample_db_inv, of "PoolError []" 0 "[''a'']"] by simp

text \<open>C32: After \<open>replace_chunks\<close> recorded a new version, exactly the member txids of that version are
  linked to the cluster, each member has a row, and rows are otherwise not lost.\<close>

theorem replace_chunks_backlinks:
  assumes "cluster_inv d" "row_of d (vu_cluster_id u) = Some old" "cr_status old = Active"
    "current_chunks old d \<noteq> vu_chunks u" "replace_chunks None now u d = (Inr cl, d')"
  shows "(\<forall>t\<in>set (db_transactions d'). tx_cluster_id t = Some (cl_id cl) \<longleftrightarrow> tx_txid t \<in> set (cl_txids cl)) \<and>
    tx_txid ` set (db_transactions d') = tx_txid ` set (db_transactions d) \<union> set (cl_txids cl) \<and>
    cl_txids cl = concat (map ck_txids (vu_chunks u))"
proof -
  have inv0: "cluster_inv_upto {} d"
    using assms(1) by (simp add: cluster_inv_def)
  have run: "replace_chunks_in now u True d = Inr (cl, d')"
    using query_view [OF assms(5) [unfolded replace_chunks_def]] by simp
  show ?thesis
    using inv0 run
  proof (cases rule: replace_chunks_in_cases)
    case (same old')
    then show ?thesis
      using assms(2-4) by simp
  next
    case (changed old')
    have "cl_id cl = vu_cluster_id u" "cl_txids cl = concat (map ck_txids (vu_chunks u))"
      using row_of_Some [OF changed(1)] by (simp_all add: changed(5) versioned_def cl_txids_def from_row_def)
    then show ?thesis
      using relink_spec(2,3) [OF cluster_inv_uptoD(6) [OF inv0]] by (simp add: changed(4))
  qed
qed

definition sample_db1 :: db where
  "sample_db1 = \<lparr>db_clusters = [\<lparr>cr_id = 1, cr_status = Active, cr_version = 1, cr_total_weight = 800,
       cr_total_fee = 100, cr_first_seen_at = 7, cr_confirmed_at = None, cr_closed_at = None\<rparr>],
     db_cluster_seq = 2,
     db_chunks = [\<lparr>ch_cluster_id = 1, ch_version = 1, ch_position = 0, ch_fee = 100, ch_weight = 800,
       ch_txids = [''a'', ''b''], ch_live = True\<rparr>],
     db_transactions = [(hollow 9 ''a'')\<lparr>tx_cluster_id := Some 1\<rparr>, (hollow 9 ''b'')\<lparr>tx_cluster_id := Some 1\<rparr>],
     db_blocks = [], db_deltas = []\<rparr>"

lemma sample_db1_inv: "cluster_inv sample_db1"
  by (simp add: cluster_inv_def cluster_inv_upto_def sample_db1_def row_ok_def chunk_ok_def chunk_key_def
      current_chunks_def chunk_of_row_def totals_eq i64_of_id u64_of_id is_i64_def is_u64_def hollow_def)

lemma sample_replace: "\<exists>cl d'. replace_chunks None 9 sample_update sample_db1 = (Inr cl, d')"
proof -
  have "replace_chunks_in 9 sample_update True sample_db1 \<noteq> Inl e" for e
    by (simp add: replace_chunks_in_eq [OF sample_db1_inv [unfolded cluster_inv_def] refl refl])
      (simp add: sample_db1_def sample_update_def row_of_def with_version_def Let_def set_live_def
        chunk_rows_def chunk_key_def)
  then show ?thesis
    by (auto simp: replace_chunks_def query_def split: sum.splits)
qed

theorem replace_chunks_backlinks_witness:
  "\<exists>cl d'. replace_chunks None 9 sample_update sample_db1 = (Inr cl, d') \<and> cl_txids cl = [''a''] \<and>
     tx_txid ` set (db_transactions d') = {''a'', ''b''}"
proof -
  obtain cl d' where run: "replace_chunks None 9 sample_update sample_db1 = (Inr cl, d')"
    using sample_replace by blast
  have "(\<forall>t\<in>set (db_transactions d'). tx_cluster_id t = Some (cl_id cl) \<longleftrightarrow> tx_txid t \<in> set (cl_txids cl)) \<and>
    tx_txid ` set (db_transactions d') = tx_txid ` set (db_transactions sample_db1) \<union> set (cl_txids cl) \<and>
    cl_txids cl = concat (map ck_txids (vu_chunks sample_update))"
    by (rule replace_chunks_backlinks [OF sample_db1_inv _ _ _ run, where old = "hd (db_clusters sample_db1)"])
      (simp_all add: row_of_def sample_db1_def sample_update_def current_chunks_def chunk_of_row_def)
  moreover have "concat (map ck_txids (vu_chunks sample_update)) = [''a'']" by (simp add: sample_update_def)
  moreover have "tx_txid ` set (db_transactions sample_db1) = {''a'', ''b''}" by (simp add: sample_db1_def hollow_def)
  ultimately have "cl_txids cl = [''a'']" "tx_txid ` set (db_transactions d') = {''a'', ''b''}" by (simp_all add: insert_commute)
  with run show ?thesis by blast
qed

text \<open>C33: What is stored is what was given: the chunks returned by loading a cluster by its id right
  after it was inserted or given a new version are the chunks of that call, in mining order with
  the fees and weights unchanged by their passage through signed columns.\<close>

theorem stored_cluster_roundtrip:
  assumes "cluster_inv d" "wf_chunks (nc_chunks c)" "wf_chunks (vu_chunks u)"
  shows "(\<forall>cl d'. insert_with_members fault now c d = (Inr cl, d') \<longrightarrow>
      (\<exists>cl'. find_by_ids None [cl_id cl] d' = Inr [cl'] \<and> cl_chunks cl' = nc_chunks c \<and> cl_status cl' = Active)) \<and>
    (\<forall>cl d'. replace_chunks fault now u d = (Inr cl, d') \<and> cl_status cl = Active \<longrightarrow>
      (\<exists>cl'. find_by_ids None [cl_id cl] d' = Inr [cl'] \<and> cl_chunks cl' = vu_chunks u \<and> cl_status cl' = Active))"
proof -
  have load: "\<exists>cl'. find_by_ids None [i] d' = Inr [cl'] \<and> cl_chunks cl' = cs_chunks st \<and> cl_status cl' = Active"
    if inv: "cluster_inv d'" and v: "active_view d' i = Some st" for d' i st
  proof -
    have dist: "distinct (map cr_id (db_clusters d'))"
      using cluster_inv_uptoD(1) inv by (auto simp: cluster_inv_def)
    obtain r where r: "r \<in> set (db_clusters d')" "cr_id r = i" "cr_status r = Active" "st = row_state r d'"
      using v by (auto simp: active_view_Some [OF dist])
    have "filter (filter_matches (FilterIds [i])) (db_clusters d') = [r]"
      using distinct_map_filter_single [OF dist r(1)] r(2) by (simp add: filter_matches_def cong: filter_cong)
    then show ?thesis
      using r by (simp add: find_by_ids_def query_def load_clusters_eq [OF dist] row_state_def)
  qed
  have state: "cs_chunks (cluster_state_of cl) = cl_chunks cl" for cl
    by (simp add: cluster_state_of_def ac_state_def active_cluster_from_def)
  show ?thesis
  proof (intro conjI allI impI)
    fix cl d'
    assume run: "insert_with_members fault now c d = (Inr cl, d')"
    have "active_view d' (cl_id cl) = Some (cluster_state_of cl)" "cl_chunks cl = nc_chunks c"
      using insert_with_members_spec(2) [OF assms(1,2) run] by (simp_all add: added_to_def add_entry_def)
    then show "\<exists>cl'. find_by_ids None [cl_id cl] d' = Inr [cl'] \<and> cl_chunks cl' = nc_chunks c \<and> cl_status cl' = Active"
      using load [OF insert_with_members_spec(1) [OF assms(1,2) run]] by (metis state)
  next
    fix cl d'
    assume run: "replace_chunks fault now u d = (Inr cl, d') \<and> cl_status cl = Active"
    then have run': "replace_chunks fault now u d = (Inr cl, d')" and act: "cl_status cl = Active"
      by simp_all
    note spec = replace_chunks_spec [OF assms(1,3) run']
    have "active_view d' (cl_id cl) = Some (cluster_state_of cl)" "cl_chunks cl = vu_chunks u"
      using spec(3,5,6) [OF refl] act by simp_all
    then show "\<exists>cl'. find_by_ids None [cl_id cl] d' = Inr [cl'] \<and> cl_chunks cl' = vu_chunks u \<and> cl_status cl' = Active"
      using load [OF spec(1)] by (metis state)
  qed
qed

theorem stored_cluster_roundtrip_witness:
  "\<exists>cl d' cl'. insert_with_members None 9 sample_new sample_db = (Inr cl, d') \<and>
     find_by_ids None [cl_id cl] d' = Inr [cl'] \<and> cl_chunks cl' = nc_chunks sample_new"
proof -
  have "\<exists>cl d'. insert_with_members None 9 sample_new sample_db = (Inr cl, d')"
    by (simp add: insert_with_members_def query_def insert_in_def sample_new_def sample_db_def
        insert_chunks_eq chunk_rows_def chunk_key_def Let_def)
  then show ?thesis
    using stored_cluster_roundtrip [OF sample_db_inv sample_new_wf sample_update_wf,
        where fault = None and now = 9] by blast
qed

end
