(* ===== verification/Tx_Repo.thy ===== *)
theory Tx_Repo
  imports Database
begin

text \<open>
  The repositories over transactions, blocks and mempool deltas:
  \<open>api/src/db/repositories/transaction.rs\<close>, \<open>block.rs\<close>, \<open>mempool_delta.rs\<close> and \<open>mempool_ledger.rs\<close>.
  The last one writes a journal batch in one database transaction that a block can preempt.
\<close>

section \<open>Transactions\<close>

definition existing_txids :: "fault \<Rightarrow> txid list \<Rightarrow> db \<Rightarrow> RepoError + txid list" where
  "existing_txids fault ids d =
    fst (query fault (\<lambda>d. Inr (map tx_txid (filter (\<lambda>t. tx_txid t \<in> set ids) (db_transactions d)), d)) d)"

definition find_by_txids :: "fault \<Rightarrow> txid list \<Rightarrow> db \<Rightarrow> RepoError + Transaction list" where
  "find_by_txids fault txids d =
    fst (query fault (\<lambda>d. Inr (filter (\<lambda>t. tx_txid t \<in> set txids) (db_transactions d), d)) d)"

definition find_fills_by_txids :: "fault \<Rightarrow> txid list \<Rightarrow> db \<Rightarrow> RepoError + (txid \<times> StoredTxFill) list" where
  "find_fills_by_txids fault txids d =
    fst (query fault (\<lambda>d. Inr (map (\<lambda>t. (tx_txid t, tx_fill t))
      (filter (\<lambda>t. tx_txid t \<in> set txids) (db_transactions d)), d)) d)"

text \<open>The inner join on \<open>confirmed_at_block = blocks.hash\<close>.\<close>

definition find_mined_by_txids ::
  "fault \<Rightarrow> txid list \<Rightarrow> db \<Rightarrow> RepoError + (Transaction \<times> int \<times> instant) list" where
  "find_mined_by_txids fault txids d =
    fst (query fault (\<lambda>d. Inr (concat (map (\<lambda>t.
        map (\<lambda>b. (t, bl_height b, bl_mined_at b))
          (filter (\<lambda>b. tx_confirmed_at_block t = Some (bl_hash b)) (db_blocks d)))
      (filter (\<lambda>t. tx_txid t \<in> set txids) (db_transactions d))), d)) d)"

definition insert_tx :: "fault \<Rightarrow> Transaction \<Rightarrow> db \<Rightarrow> (RepoError + nat) \<times> db" where
  "insert_tx fault tx =
    query fault (\<lambda>d. Inr (if tx_txid tx \<in> tx_txid ` set (db_transactions d) then 0 else 1,
      d\<lparr>db_transactions := insert_ignoring (db_transactions d) tx\<rparr>))"

text \<open>\<open>INSERT .. ON CONFLICT (txid) DO UPDATE SET .. WHERE ..\<close> for one row: \<open>upd\<close> is the new row when
  the stored one is to be changed. The result counts the row as written when it was inserted or
  changed.\<close>

definition upsert_row ::
  "(Transaction \<Rightarrow> Transaction \<Rightarrow> Transaction option) \<Rightarrow> Transaction \<Rightarrow> nat \<times> Transaction list \<Rightarrow> nat \<times> Transaction list" where
  "upsert_row upd row acc =
    (case acc of (n, table) \<Rightarrow>
      (case find (\<lambda>t. tx_txid t = tx_txid row) table of
         None \<Rightarrow> (n + 1, table @ [row])
       | Some old \<Rightarrow>
           (case upd old row of
              None \<Rightarrow> (n, table)
            | Some new \<Rightarrow> (n + 1, map (\<lambda>t. if tx_txid t = tx_txid row then new else t) table))))"

text \<open>One statement per batch; Postgres refuses a statement that would affect a row twice.\<close>

fun upsert_batches ::
  "(Transaction \<Rightarrow> Transaction \<Rightarrow> Transaction option) \<Rightarrow> Transaction list list \<Rightarrow> nat \<Rightarrow> nat statement" where
  "upsert_batches upd [] written d = Inr (written, d)"
| "upsert_batches upd (batch # batches) written d =
    (if distinct (map tx_txid batch)
     then (case fold (upsert_row upd) batch (written, db_transactions d) of
             (n, table) \<Rightarrow> upsert_batches upd batches n (d\<lparr>db_transactions := table\<rparr>))
     else Inl (OtherError ''cardinality violation''))"

definition fill_fee :: "Transaction \<Rightarrow> Transaction \<Rightarrow> Transaction option" where
  "fill_fee old row =
    (if tx_fee old = None \<and> tx_fee row \<noteq> None then Some (old\<lparr>tx_fee := tx_fee row\<rparr>) else None)"

definition insert_many :: "fault \<Rightarrow> Transaction list \<Rightarrow> db \<Rightarrow> (RepoError + nat) \<times> db" where
  "insert_many fault txs d =
    (if txs = [] then (Inr 0, d)
     else query fault (upsert_batches fill_fee
       (chunks_of TRANSACTION_INSERT_CHUNK_SIZE (sorted_by_txid txs)) 0) d)"

definition get_cluster_ids_by_txids :: "fault \<Rightarrow> txid list \<Rightarrow> db \<Rightarrow> RepoError + cluster_id list" where
  "get_cluster_ids_by_txids fault txids d =
    fst (query fault (\<lambda>d. Inr (remdups (List.map_filter tx_cluster_id
      (filter (\<lambda>t. tx_txid t \<in> set txids) (db_transactions d))), d)) d)"

text \<open>An \<open>UPDATE .. WHERE txid = .. AND cond RETURNING ..\<close> of a single row: what it still lacks after
  the change, \<open>None\<close> when no row matched.\<close>

definition update_returning ::
  "txid \<Rightarrow> (Transaction \<Rightarrow> bool) \<Rightarrow> (Transaction \<Rightarrow> Transaction) \<Rightarrow> StoredTxFill option statement" where
  "update_returning txid cond f d =
    (case find (\<lambda>t. tx_txid t = txid \<and> cond t) (db_transactions d) of
       None \<Rightarrow> Inr (None, d)
     | Some t \<Rightarrow> Inr (Some (tx_fill (f t)),
         d\<lparr>db_transactions := map (\<lambda>t. if tx_txid t = txid \<and> cond t then f t else t) (db_transactions d)\<rparr>))"

definition backfill_raw ::
  "fault \<Rightarrow> txid \<Rightarrow> txid list \<Rightarrow> int \<Rightarrow> db \<Rightarrow> (RepoError + StoredTxFill option) \<times> db" where
  "backfill_raw fault txid input_txids weight =
    query fault (update_returning txid (\<lambda>t. tx_input_txids t = None \<or> tx_weight t = 0)
      (\<lambda>t. t\<lparr>tx_input_txids := Some input_txids, tx_weight := weight\<rparr>))"

definition backfill_fee :: "fault \<Rightarrow> txid \<Rightarrow> int \<Rightarrow> db \<Rightarrow> (RepoError + StoredTxFill option) \<times> db" where
  "backfill_fee fault txid fee =
    query fault (update_returning txid (\<lambda>t. tx_fee t = None) (\<lambda>t. t\<lparr>tx_fee := Some fee\<rparr>))"

section \<open>Blocks\<close>

definition insert_block_row :: "NewBlock \<Rightarrow> db \<Rightarrow> nat \<times> db" where
  "insert_block_row block d =
    (if bl_hash block \<in> bl_hash ` set (db_blocks d) then (0, d)
     else (1, d\<lparr>db_blocks := db_blocks d @ [block]\<rparr>))"

definition insert_block :: "fault \<Rightarrow> NewBlock \<Rightarrow> db \<Rightarrow> (RepoError + nat) \<times> db" where
  "insert_block fault block = query fault (\<lambda>d. Inr (insert_block_row block d))"

definition confirm_row :: "Transaction \<Rightarrow> Transaction \<Rightarrow> Transaction option" where
  "confirm_row old row = Some (old\<lparr>tx_confirmed_at := tx_confirmed_at row, tx_fee := tx_fee row,
     tx_weight := tx_weight row, tx_confirmed_at_block := tx_confirmed_at_block row,
     tx_input_txids := tx_input_txids row\<rparr>)"

definition insert_or_confirm_many :: "Transaction list \<Rightarrow> nat statement" where
  "insert_or_confirm_many txs =
    upsert_batches confirm_row (chunks_of TRANSACTION_INSERT_CHUNK_SIZE (sorted_by_txid txs)) 0"

definition insert_with_transactions ::
  "fault \<Rightarrow> NewBlock \<Rightarrow> Transaction list \<Rightarrow> db \<Rightarrow> (RepoError + unit) \<times> db" where
  "insert_with_transactions fault block txs =
    query fault (\<lambda>d. case insert_or_confirm_many txs (snd (insert_block_row block d)) of
      Inl e \<Rightarrow> Inl e | Inr (_, d') \<Rightarrow> Inr ((), d'))"

definition latest_height :: "fault \<Rightarrow> db \<Rightarrow> RepoError + int option" where
  "latest_height fault d =
    fst (query fault (\<lambda>d. Inr (if db_blocks d = [] then None
      else Some (Max (set (map bl_height (db_blocks d)))), d)) d)"

definition missing_heights :: "fault \<Rightarrow> db \<Rightarrow> RepoError + int" where
  "missing_heights fault d =
    fst (query fault (\<lambda>d. Inr (if db_blocks d = [] then 0
      else Max (set (map bl_height (db_blocks d))) - Min (set (map bl_height (db_blocks d))) + 1
           - int (length (db_blocks d)), d)) d)"

definition latest_block :: "fault \<Rightarrow> db \<Rightarrow> RepoError + (int \<times> instant) option" where
  "latest_block fault d =
    fst (query fault (\<lambda>d. Inr (case sort_key (\<lambda>b. - bl_height b) (db_blocks d) of
        [] \<Rightarrow> None | b # _ \<Rightarrow> Some (bl_height b, bl_mined_at b), d)) d)"

section \<open>Mempool deltas\<close>

text \<open>Rows of \<open>mempool_deltas\<close> get increasing ids, so table order is id order.\<close>

definition SNAPSHOT_REPLAY_WINDOW :: int where
  "SNAPSHOT_REPLAY_WINDOW = 15 * 24 * 3600 * 1000000000"

definition apply_delta_row :: "MempoolDelta \<Rightarrow> txid set \<Rightarrow> txid set" where
  "apply_delta_row row S =
    (case reason_direction (dl_reason row) of
       Add \<Rightarrow> insert (dl_txid row) S | Remove \<Rightarrow> S - {dl_txid row})"

definition reconstruct_snapshot :: "fault \<Rightarrow> instant \<Rightarrow> db \<Rightarrow> RepoError + txid set" where
  "reconstruct_snapshot fault now d =
    (let cutoff = now - SNAPSHOT_REPLAY_WINDOW in
     fst (query fault (\<lambda>d. Inr (fold apply_delta_row
       (filter (\<lambda>r. dl_created_at r \<ge> cutoff) (db_deltas d)) {}, d)) d))"

definition count_adds_since :: "fault \<Rightarrow> instant \<Rightarrow> db \<Rightarrow> RepoError + nat" where
  "count_adds_since fault cutoff d =
    fst (query fault (\<lambda>d. Inr (length (filter (\<lambda>r. dl_created_at r \<ge> cutoff \<and>
      dl_reason r \<in> set (reasons_with_direction Add)) (db_deltas d)), d)) d)"

definition count_reason :: "DeltaReason \<Rightarrow> instant \<Rightarrow> instant \<Rightarrow> db \<Rightarrow> nat" where
  "count_reason reason from to d =
    length (filter (\<lambda>r. dl_created_at r > from \<and> dl_created_at r \<le> to \<and> dl_reason r = reason) (db_deltas d))"

definition count_deltas_in :: "fault \<Rightarrow> instant \<Rightarrow> instant \<Rightarrow> db \<Rightarrow> RepoError + nat \<times> nat \<times> nat" where
  "count_deltas_in fault from to d =
    fst (query fault (\<lambda>d. Inr ((count_reason AddMempool from to d,
      count_reason RemoveConfirmed from to d, count_reason RemoveEvicted from to d), d)) d)"

section \<open>Writing a journal batch\<close>

record FlushOutcome =
  fo_new_txids :: "txid list"
  fo_existing :: "(txid \<times> StoredTxFill) list"
  fo_confirmed :: "txid list"
  fo_evicted :: "txid list"

text \<open>The preemption check is asked before every statement: \<open>pre k\<close> is its answer the \<open>k\<close>-th time.
  Each piece returns how often it asked, so the next piece continues the count.\<close>

type_synonym asked = nat

fun bail_each :: "(nat \<Rightarrow> bool) \<Rightarrow> asked \<Rightarrow> nat \<Rightarrow> (DieselError + asked)" where
  "bail_each pre k 0 = Inr k"
| "bail_each pre k (Suc n) = (if pre k then Inl RollbackTransaction else bail_each pre (Suc k) n)"

definition stored_confirmed :: "txid list \<Rightarrow> db \<Rightarrow> txid list" where
  "stored_confirmed txids d =
    map tx_txid (filter (\<lambda>t. tx_txid t \<in> set txids \<and> tx_confirmed_at t \<noteq> None) (db_transactions d))"

definition classify :: "txid set \<Rightarrow> JournalEntry \<Rightarrow> MempoolDelta" where
  "classify confirmed entry =
    \<lparr>dl_txid = je_txid entry,
     dl_reason = (case je_direction entry of
        Add \<Rightarrow> AddMempool
      | Remove \<Rightarrow> if je_txid entry \<in> confirmed then RemoveConfirmed else RemoveEvicted),
     dl_created_at = je_observed_at entry\<rparr>"

definition write_deltas ::
  "(txid set \<Rightarrow> txid list) \<Rightarrow> (nat \<Rightarrow> bool) \<Rightarrow> JournalEntry list \<Rightarrow> (asked \<times> txid list \<times> txid list) statement" where
  "write_deltas it pre entries d =
    (let remove_txids = distinct_txids it entries Remove;
         lookups = chunks_of MEMPOOL_DELTA_INSERT_CHUNK_SIZE remove_txids
     in case bail_each pre 0 (length lookups) of
          Inl e \<Rightarrow> Inl e
        | Inr k \<Rightarrow>
            (let confirmed = set (concat (map (\<lambda>chunk. stored_confirmed chunk d) lookups));
                 rows = map (classify confirmed) entries;
                 evicted = set (map dl_txid (filter (\<lambda>r. dl_reason r = RemoveEvicted) rows));
                 inserts = chunks_of MEMPOOL_DELTA_INSERT_CHUNK_SIZE rows
             in case bail_each pre k (length inserts) of
                  Inl e \<Rightarrow> Inl e
                | Inr k' \<Rightarrow> Inr ((k', it confirmed, it evicted),
                    d\<lparr>db_deltas := db_deltas d @ concat inserts\<rparr>)))"

definition insert_hollow_transactions ::
  "(txid set \<Rightarrow> txid list) \<Rightarrow> (nat \<Rightarrow> bool) \<Rightarrow> instant \<Rightarrow> asked \<Rightarrow> JournalEntry list
    \<Rightarrow> (asked \<times> txid list \<times> (txid \<times> StoredTxFill) list) statement" where
  "insert_hollow_transactions it pre now k entries d =
    (let add_txids = distinct_txids it entries Add;
         lookups = chunks_of MEMPOOL_DELTA_INSERT_CHUNK_SIZE add_txids
     in case bail_each pre k (length lookups) of
          Inl e \<Rightarrow> Inl e
        | Inr k1 \<Rightarrow>
            (let existing = concat (map (\<lambda>chunk. map (\<lambda>t. (tx_txid t, tx_fill t))
                   (filter (\<lambda>t. tx_txid t \<in> set chunk) (db_transactions d))) lookups);
                 new_txids = filter (\<lambda>txid. txid \<notin> fst ` set existing) add_txids;
                 rows = sorted_by_txid (map (hollow now) new_txids)
             in case bail_each pre k1 (length (chunks_of TRANSACTION_INSERT_CHUNK_SIZE rows)) of
                  Inl e \<Rightarrow> Inl e
                | Inr k2 \<Rightarrow> Inr ((k2, new_txids, existing),
                    d\<lparr>db_transactions := insert_hollow_rows now new_txids (db_transactions d)\<rparr>)))"

definition write_batch_in ::
  "(txid set \<Rightarrow> txid list) \<Rightarrow> (nat \<Rightarrow> bool) \<Rightarrow> instant \<Rightarrow> JournalEntry list \<Rightarrow> FlushOutcome statement" where
  "write_batch_in it pre now entries d =
    (case write_deltas it pre entries d of
       Inl e \<Rightarrow> Inl e
     | Inr ((k, confirmed, evicted), d1) \<Rightarrow>
         (case insert_hollow_transactions it pre now k entries d1 of
            Inl e \<Rightarrow> Inl e
          | Inr ((k2, new_txids, existing), d2) \<Rightarrow>
              (case bail_each pre k2 1 of
                 Inl e \<Rightarrow> Inl e
               | Inr _ \<Rightarrow> Inr (\<lparr>fo_new_txids = new_txids, fo_existing = existing,
                   fo_confirmed = confirmed, fo_evicted = evicted\<rparr>, d2))))"

text \<open>A rollback asked for by the preemption check is not an error: the result is \<open>None\<close>.\<close>

definition write_batch ::
  "(txid set \<Rightarrow> txid list) \<Rightarrow> fault \<Rightarrow> (nat \<Rightarrow> bool) \<Rightarrow> instant \<Rightarrow> JournalEntry list \<Rightarrow> db
    \<Rightarrow> (RepoError + FlushOutcome option) \<times> db" where
  "write_batch it fault pre now entries d =
    (if entries = [] then (Inr (Some \<lparr>fo_new_txids = [], fo_existing = [], fo_confirmed = [], fo_evicted = []\<rparr>), d)
     else query fault (\<lambda>d. case write_batch_in it pre now entries d of
         Inl RollbackTransaction \<Rightarrow> Inr (None, d)
       | Inl e \<Rightarrow> Inl e
       | Inr (outcome, d') \<Rightarrow> Inr (Some outcome, d')) d)"

section \<open>What a batch leaves\<close>

interpretation deltas: residency_log dl_txid "\<lambda>r. reason_direction (dl_reason r) = Add" apply_delta_row
  by unfold_locales (simp add: apply_delta_row_def split: DeltaDirection.split)

text \<open>The residency the whole table stands for.\<close>

definition residency :: "db \<Rightarrow> txid set" where
  "residency d = fold apply_delta_row (db_deltas d) {}"

lemma bail_each_Inr: "bail_each pre k n = Inr k' \<longleftrightarrow> k' = k + n \<and> (\<forall>j<n. \<not> pre (k + j))"
  by (induction pre k n rule: bail_each.induct) (auto simp: less_Suc_eq_0_disj)

lemma bail_each_Inl: "bail_each pre k n = Inl e \<Longrightarrow> e = RollbackTransaction"
  by (induction pre k n rule: bail_each.induct) (auto split: if_splits)

lemma classify_direction [simp]: "reason_direction (dl_reason (classify C e)) = je_direction e"
  by (simp add: classify_def reason_direction_def split: DeltaDirection.split)

lemma classify_txid [simp]: "dl_txid (classify C e) = je_txid e"
  by (simp add: classify_def)

lemma apply_classified: "apply_delta_row (classify C e) = apply_entry e"
  by (rule ext) (simp add: apply_delta_row_def apply_entry_def split: DeltaDirection.split)

lemma fold_classified: "fold apply_delta_row (map (classify C) es) S = replay es S"
  by (induction es arbitrary: S) (simp_all add: apply_classified)

lemma set_distinct_txids:
  "iterates it \<Longrightarrow> set (distinct_txids it es dir) = {je_txid e | e. e \<in> set es \<and> je_direction e = dir}"
  by (auto simp: distinct_txids_def iter_simps)

lemma distinct_distinct_txids: "iterates it \<Longrightarrow> distinct (distinct_txids it es dir)"
  by (simp add: distinct_txids_def iter_simps)

definition mined_in :: "db \<Rightarrow> txid set" where
  "mined_in d = {tx_txid t | t. t \<in> set (db_transactions d) \<and> tx_confirmed_at t \<noteq> None}"

definition removed_by :: "JournalEntry list \<Rightarrow> txid set" where
  "removed_by es = {je_txid e | e. e \<in> set es \<and> je_direction e = Remove}"

definition added_by :: "JournalEntry list \<Rightarrow> txid set" where
  "added_by es = {je_txid e | e. e \<in> set es \<and> je_direction e = Add}"

lemma classified_evicted:
  "set (map dl_txid (filter (\<lambda>r. dl_reason r = RemoveEvicted) (map (classify C) es))) = removed_by es - C"
proof -
  have "dl_reason (classify C e) = RemoveEvicted \<longleftrightarrow> je_direction e = Remove \<and> je_txid e \<notin> C" for e
    by (simp add: classify_def split: DeltaDirection.split)
  then show ?thesis
    by (induction es) (auto simp: removed_by_def)
qed

lemma finite_by [simp]: "finite (removed_by es)" "finite (added_by es)"
  by (simp_all add: removed_by_def added_by_def)

lemma concat_map_chunks:
  assumes "0 < n"
  shows "set (concat (map (\<lambda>c. map f (filter (\<lambda>t. g t \<in> set c) ts)) (chunks_of n xs))) =
    f ` {t \<in> set ts. g t \<in> set xs}"
proof -
  have "set xs = (\<Union>c\<in>set (chunks_of n xs). set c)"
    using concat_chunks_of [OF assms, of xs] by (metis set_concat)
  then show ?thesis
    by auto
qed

lemma stored_confirmed_chunks:
  "set (concat (map (\<lambda>chunk. stored_confirmed chunk d) (chunks_of MEMPOOL_DELTA_INSERT_CHUNK_SIZE txids))) =
    mined_in d \<inter> set txids"
proof -
  have "stored_confirmed chunk d = map tx_txid (filter (\<lambda>t. tx_txid t \<in> set chunk)
      (filter (\<lambda>t. tx_confirmed_at t \<noteq> None) (db_transactions d)))" for chunk
    by (simp add: stored_confirmed_def conj_commute)
  then show ?thesis
    using concat_map_chunks [of MEMPOOL_DELTA_INSERT_CHUNK_SIZE tx_txid tx_txid
        "filter (\<lambda>t. tx_confirmed_at t \<noteq> None) (db_transactions d)" txids]
    by (auto simp: MEMPOOL_DELTA_INSERT_CHUNK_SIZE_def mined_in_def)
qed

lemma write_deltas_spec:
  assumes it: "iterates it" and run: "write_deltas it pre es d = Inr ((k, confirmed, evicted), d')"
  shows "\<exists>C. d' = d\<lparr>db_deltas := db_deltas d @ map (classify C) es\<rparr> \<and> C = mined_in d \<inter> removed_by es"
    and "set confirmed = removed_by es \<inter> mined_in d" "distinct confirmed"
    and "set evicted = removed_by es - mined_in d" "distinct evicted"
    and "k = length (chunks_of MEMPOOL_DELTA_INSERT_CHUNK_SIZE (distinct_txids it es Remove)) +
      length (chunks_of MEMPOOL_DELTA_INSERT_CHUNK_SIZE es) \<and> (\<forall>j<k. \<not> pre j)"
proof -
  let ?rem = "distinct_txids it es Remove"
  let ?lookups = "chunks_of MEMPOOL_DELTA_INSERT_CHUNK_SIZE ?rem"
  let ?C = "set (concat (map (\<lambda>chunk. stored_confirmed chunk d) ?lookups))"
  let ?rows = "map (classify ?C) es"
  let ?ev = "set (map dl_txid (filter (\<lambda>r. dl_reason r = RemoveEvicted) ?rows))"
  have C: "?C = mined_in d \<inter> removed_by es"
    unfolding stored_confirmed_chunks set_distinct_txids [OF it] removed_by_def ..
  obtain k1 where k1: "bail_each pre 0 (length ?lookups) = Inr k1"
    and k2: "bail_each pre k1 (length (chunks_of MEMPOOL_DELTA_INSERT_CHUNK_SIZE ?rows)) = Inr k"
    and res: "confirmed = it ?C" "evicted = it ?ev"
      "d' = d\<lparr>db_deltas := db_deltas d @ concat (chunks_of MEMPOOL_DELTA_INSERT_CHUNK_SIZE ?rows)\<rparr>"
    using run unfolding write_deltas_def Let_def by (auto split: sum.splits)
  show "\<exists>C. d' = d\<lparr>db_deltas := db_deltas d @ map (classify C) es\<rparr> \<and> C = mined_in d \<inter> removed_by es"
    using res(3) C by (intro exI [of _ ?C]) (simp add: MEMPOOL_DELTA_INSERT_CHUNK_SIZE_def)
  show "set confirmed = removed_by es \<inter> mined_in d" "distinct confirmed"
    unfolding res(1) C using it by (auto simp: iter_simps)
  have "?ev = removed_by es - mined_in d"
    unfolding classified_evicted C by blast
  then show "set evicted = removed_by es - mined_in d" "distinct evicted"
    unfolding res(2) using it by (simp_all add: iter_simps)
  have "length (chunks_of n (map f xs)) = length (chunks_of n xs)" for n f and xs :: "JournalEntry list"
    by (rule length_chunks_of_map)
  then show "k = length (chunks_of MEMPOOL_DELTA_INSERT_CHUNK_SIZE ?rem) +
      length (chunks_of MEMPOOL_DELTA_INSERT_CHUNK_SIZE es) \<and> (\<forall>j<k. \<not> pre j)"
    using k1 k2 unfolding bail_each_Inr by (auto simp: less_diff_conv2) (metis add_diff_inverse_nat nat_add_left_cancel_less not_less)
qed

lemma insert_hollow_transactions_spec:
  assumes it: "iterates it" and dist: "distinct (map tx_txid (db_transactions d))"
    and run: "insert_hollow_transactions it pre now k es d = Inr ((k', new_txids, existing), d')"
  shows "d' = d\<lparr>db_transactions := insert_hollow_rows now new_txids (db_transactions d)\<rparr>"
    and "set new_txids = added_by es - tx_txid ` set (db_transactions d)" "distinct new_txids"
    and "set existing = {(tx_txid t, tx_fill t) | t. t \<in> set (db_transactions d) \<and> tx_txid t \<in> added_by es}"
    and "k \<le> k'" "\<forall>j. k \<le> j \<and> j < k' \<longrightarrow> \<not> pre j"
proof -
  let ?add = "distinct_txids it es Add"
  let ?lookups = "chunks_of MEMPOOL_DELTA_INSERT_CHUNK_SIZE ?add"
  let ?ex = "concat (map (\<lambda>chunk. map (\<lambda>t. (tx_txid t, tx_fill t))
       (filter (\<lambda>t. tx_txid t \<in> set chunk) (db_transactions d))) ?lookups)"
  have add: "set ?add = added_by es"
    unfolding set_distinct_txids [OF it] added_by_def ..
  have ex: "set ?ex = (\<lambda>t. (tx_txid t, tx_fill t)) ` {t \<in> set (db_transactions d). tx_txid t \<in> added_by es}"
    using concat_map_chunks [of MEMPOOL_DELTA_INSERT_CHUNK_SIZE "\<lambda>t. (tx_txid t, tx_fill t)" tx_txid "db_transactions d" ?add]
    by (simp add: MEMPOOL_DELTA_INSERT_CHUNK_SIZE_def add)
  obtain k1 where k1: "bail_each pre k (length ?lookups) = Inr k1"
    and k2: "bail_each pre k1 (length (chunks_of TRANSACTION_INSERT_CHUNK_SIZE (sorted_by_txid (map (hollow now) new_txids)))) = Inr k'"
    and res: "existing = ?ex" "new_txids = filter (\<lambda>txid. txid \<notin> fst ` set ?ex) ?add"
      "d' = d\<lparr>db_transactions := insert_hollow_rows now new_txids (db_transactions d)\<rparr>"
    using run unfolding insert_hollow_transactions_def Let_def by (auto split: sum.splits)
  show "d' = d\<lparr>db_transactions := insert_hollow_rows now new_txids (db_transactions d)\<rparr>"
    by (rule res(3))
  have "fst ` set ?ex = added_by es \<inter> tx_txid ` set (db_transactions d)"
    unfolding ex by force
  then show "set new_txids = added_by es - tx_txid ` set (db_transactions d)"
    unfolding res(2) set_filter add by blast
  show "distinct new_txids"
    unfolding res(2) using distinct_distinct_txids [OF it] by simp
  show "set existing = {(tx_txid t, tx_fill t) | t. t \<in> set (db_transactions d) \<and> tx_txid t \<in> added_by es}"
    unfolding res(1) ex by blast
  have 1: "k1 = k + length ?lookups" "\<And>j. j < length ?lookups \<Longrightarrow> \<not> pre (k + j)"
    using k1 by (auto simp: bail_each_Inr)
  have 2: "k1 \<le> k'" "\<And>j. j < k' - k1 \<Longrightarrow> \<not> pre (k1 + j)"
    using k2 by (auto simp: bail_each_Inr)
  show "k \<le> k'"
    using 1(1) 2(1) by simp
  show "\<forall>j. k \<le> j \<and> j < k' \<longrightarrow> \<not> pre j"
  proof (intro allI impI)
    fix j
    assume j: "k \<le> j \<and> j < k'"
    show "\<not> pre j"
    proof (cases "j < k1")
      case True
      then have "j - k < length ?lookups"
        using j 1(1) by linarith
      from 1(2) [OF this] j show ?thesis
        by simp
    next
      case False
      then have "j - k1 < k' - k1"
        using j by linarith
      from 2(2) [OF this] False show ?thesis
        by simp
    qed
  qed
qed

lemma write_batch_in_spec:
  assumes it: "iterates it" and dist: "distinct (map tx_txid (db_transactions d))"
    and run: "write_batch_in it pre now es d = Inr (out, d')"
  shows "db_deltas d' = db_deltas d @ map (classify (mined_in d \<inter> removed_by es)) es"
    and "db_transactions d' = insert_hollow_rows now (fo_new_txids out) (db_transactions d)"
    and "set (fo_confirmed out) = removed_by es \<inter> mined_in d" "set (fo_evicted out) = removed_by es - mined_in d"
    and "set (fo_new_txids out) = added_by es - tx_txid ` set (db_transactions d)"
    and "set (fo_existing out) = {(tx_txid t, tx_fill t) | t. t \<in> set (db_transactions d) \<and> tx_txid t \<in> added_by es}"
    and "distinct (fo_confirmed out)" "distinct (fo_evicted out)" "distinct (fo_new_txids out)"
    and "db_clusters d' = db_clusters d" "db_chunks d' = db_chunks d" "db_cluster_seq d' = db_cluster_seq d"
      "db_blocks d' = db_blocks d"
    and "\<not> pre 0"
proof -
  obtain k confirmed evicted d1 k2 where
    w: "write_deltas it pre es d = Inr ((k, confirmed, evicted), d1)"
    and h: "insert_hollow_transactions it pre now k es d1 = Inr ((k2, fo_new_txids out, fo_existing out), d')"
    and b: "bail_each pre k2 1 = Inr (Suc k2)"
    and out: "fo_confirmed out = confirmed" "fo_evicted out = evicted"
    using run unfolding write_batch_in_def
    by (auto split: sum.splits prod.splits if_splits)
  note ws = write_deltas_spec [OF it w]
  have d1: "d1 = d\<lparr>db_deltas := db_deltas d @ map (classify (mined_in d \<inter> removed_by es)) es\<rparr>"
    using ws(1) by blast
  have "distinct (map tx_txid (db_transactions d1))"
    using dist by (simp add: d1)
  note hs = insert_hollow_transactions_spec [OF it this h]
  show "db_deltas d' = db_deltas d @ map (classify (mined_in d \<inter> removed_by es)) es"
    "db_transactions d' = insert_hollow_rows now (fo_new_txids out) (db_transactions d)"
    "db_clusters d' = db_clusters d" "db_chunks d' = db_chunks d" "db_cluster_seq d' = db_cluster_seq d"
    "db_blocks d' = db_blocks d"
    unfolding hs(1) d1 by simp_all
  show "set (fo_confirmed out) = removed_by es \<inter> mined_in d" "set (fo_evicted out) = removed_by es - mined_in d"
    "distinct (fo_confirmed out)" "distinct (fo_evicted out)"
    using ws(2-5) out by simp_all
  show "set (fo_new_txids out) = added_by es - tx_txid ` set (db_transactions d)" "distinct (fo_new_txids out)"
    "set (fo_existing out) = {(tx_txid t, tx_fill t) | t. t \<in> set (db_transactions d) \<and> tx_txid t \<in> added_by es}"
    using hs(2-4) by (simp_all add: d1)
  have "\<forall>j<k. \<not> pre j"
    using ws(6) by blast
  moreover have "\<not> pre k2"
    using b by (auto split: if_splits)
  ultimately show "\<not> pre 0"
    using hs(5,6) by (cases "k = 0"; cases "k2 = 0") auto
qed

text \<open>The row of an entry of a batch.\<close>

lemma classify_spec:
  assumes "e \<in> set es"
  shows "dl_txid (classify (mined_in d \<inter> removed_by es) e) = je_txid e \<and>
    dl_created_at (classify (mined_in d \<inter> removed_by es) e) = je_observed_at e \<and>
    dl_reason (classify (mined_in d \<inter> removed_by es) e) = (if je_direction e = Add then AddMempool
      else if je_txid e \<in> mined_in d then RemoveConfirmed else RemoveEvicted)"
  using assms by (auto simp: classify_def removed_by_def split: DeltaDirection.split)

lemma residency_append: "db_deltas d' = db_deltas d @ map (classify C) es \<Longrightarrow> residency d' = replay es (residency d)"
  by (simp add: residency_def fold_classified)

text \<open>The tables, leaving out the id sequence, which an aborted statement may have advanced.\<close>

definition same_tables :: "db \<Rightarrow> db \<Rightarrow> bool" where
  "same_tables d d' \<longleftrightarrow> d' = d\<lparr>db_cluster_seq := db_cluster_seq d'\<rparr>"

lemma query_cases:
  assumes "query fault f d = (res, d')"
  shows "(\<exists>e. res = Inl e \<and> same_tables d d') \<or> (\<exists>x. res = Inr x \<and> f d = Inr (x, d'))"
  using assms by (auto simp: query_def same_tables_def split: option.splits prod.splits sum.splits)

lemma write_batch_cases:
  assumes "write_batch it fault pre now es d = (res, d')" "es \<noteq> []"
  obtains (failed) e where "res = Inl e" "same_tables d d'"
    | (preempted) "res = Inr None" "d' = d"
    | (written) out where "res = Inr (Some out)" "write_batch_in it pre now es d = Inr (out, d')"
proof -
  let ?f = "\<lambda>d. case write_batch_in it pre now es d of Inl RollbackTransaction \<Rightarrow> Inr (None, d)
       | Inl e \<Rightarrow> Inl e | Inr (outcome, d') \<Rightarrow> Inr (Some outcome, d')"
  have q: "query fault ?f d = (res, d')"
    using assms by (simp add: write_batch_def)
  from query_cases [OF q] show ?thesis
  proof
    assume "\<exists>e. res = Inl e \<and> same_tables d d'"
    then show ?thesis
      using failed by blast
  next
    assume "\<exists>x. res = Inr x \<and> ?f d = Inr (x, d')"
    then obtain x where x: "res = Inr x" "?f d = Inr (x, d')"
      by blast
    show ?thesis
    proof (cases "write_batch_in it pre now es d")
      case (Inl e)
      then show ?thesis
        using x preempted by (cases e) auto
    next
      case (Inr p)
      then show ?thesis
        using x written by (cases p) auto
    qed
  qed
qed

lemma bail_each_never: "bail_each (\<lambda>_. False) k n = Inr (k + n)"
  by (simp add: bail_each_Inr)

lemma write_batch_undisturbed:
  "\<exists>out d'. write_batch it None (\<lambda>_. False) now es d = (Inr (Some out), d')"
  by (simp add: write_batch_def query_def write_batch_in_def write_deltas_def Let_def bail_each_never
      insert_hollow_transactions_def del: bail_each.simps)

section \<open>Properties\<close>



text \<open>What a restart reconstructs. When delta rows were written in time order, the txids rebuilt
  from the last fifteen days are exactly the residents whose last row lies in that window; so the
  reconstruction is the full residency unless a resident's last transition is older than that.\<close>

theorem reconstruct_snapshot_window:
  assumes "sorted (map dl_created_at (db_deltas d))"
  shows "reconstruct_snapshot None now d = Inr {t \<in> residency d.
      \<exists>r\<in>set (db_deltas d). dl_txid r = t \<and> dl_created_at r \<ge> now - SNAPSHOT_REPLAY_WINDOW}"
proof -
  let ?recent = "\<lambda>r. dl_created_at r \<ge> now - SNAPSHOT_REPLAY_WINDOW"
  have split: "db_deltas d = filter (\<lambda>r. \<not> ?recent r) (db_deltas d) @ filter ?recent (db_deltas d)"
    using assms by (rule sorted_map_filter_split)
  have "t \<in> fold apply_delta_row (filter ?recent (db_deltas d)) {} \<longleftrightarrow>
      t \<in> residency d \<and> (\<exists>r\<in>set (db_deltas d). dl_txid r = t \<and> ?recent r)" for t
  proof -
    have "t \<in> residency d \<longleftrightarrow> t \<in> fold apply_delta_row (filter ?recent (db_deltas d)) {} \<or>
        t \<notin> dl_txid ` set (filter ?recent (db_deltas d)) \<and> t \<in> fold apply_delta_row (filter (\<lambda>r. \<not> ?recent r) (db_deltas d)) {}"
      unfolding residency_def by (subst split) (rule deltas.fold_suffix)
    moreover have "t \<notin> fold apply_delta_row (filter ?recent (db_deltas d)) {}"
      if "t \<notin> dl_txid ` set (filter ?recent (db_deltas d))"
      using deltas.untouched_fold [OF that] by simp
    ultimately show ?thesis
      by auto
  qed
  then have "fold apply_delta_row (filter ?recent (db_deltas d)) {} =
      {t \<in> residency d. \<exists>r\<in>set (db_deltas d). dl_txid r = t \<and> ?recent r}"
    by blast
  then show ?thesis
    by (simp add: reconstruct_snapshot_def query_def Let_def)
qed

theorem reconstruct_snapshot_window_witness:
  "reconstruct_snapshot None (20 * 24 * 3600 * 1000000000)
     \<lparr>db_clusters = [], db_cluster_seq = 1, db_chunks = [], db_transactions = [], db_blocks = [],
      db_deltas = [\<lparr>dl_txid = ''old'', dl_reason = AddMempool, dl_created_at = 0\<rparr>,
        \<lparr>dl_txid = ''new'', dl_reason = AddMempool, dl_created_at = 19 * 24 * 3600 * 1000000000\<rparr>]\<rparr>
   = Inr {''new''}"
  by (subst reconstruct_snapshot_window)
    (auto simp: residency_def apply_delta_row_def reason_direction_def SNAPSHOT_REPLAY_WINDOW_def)

text \<open>Consecutive counting windows neither double-count nor drop a delta.\<close>

lemma count_reason_split:
  assumes "a \<le> b" "b \<le> c"
  shows "count_reason reason a c d = count_reason reason a b d + count_reason reason b c d"
proof -
  have "length (filter (\<lambda>x. a < f x \<and> f x \<le> c \<and> P x) xs) =
      length (filter (\<lambda>x. a < f x \<and> f x \<le> b \<and> P x) xs) + length (filter (\<lambda>x. b < f x \<and> f x \<le> c \<and> P x) xs)"
    for f :: "MempoolDelta \<Rightarrow> int" and P xs
    using assms by (induction xs) auto
  then show ?thesis by (simp add: count_reason_def)
qed

end
