(* ===== verification/Cluster_Service.thy ===== *)
theory Cluster_Service
  imports Cluster_Inv Tx_Repo "HOL-Library.While_Combinator"
begin

text \<open>
  The cluster service (\<open>api/src/services/cluster.rs\<close>): it asks the node which cluster a
  transaction belongs to, keeps the cluster tables in step, and publishes what changed. The
  outside is an \<open>env\<close>: what the node answers, which repository calls fail, what the clocks show
  and how hash containers iterate, indexed by a step counter that every outside call advances. The
  inside is a \<open>world\<close>: the ledger, the snapshot, the database and what was published or logged.
  A sync round is modelled without other writers of the cluster tables running inside it, which
  is what the block gate is for.
\<close>

section \<open>Outside and inside\<close>

record env =
  ev_vb :: "int \<Rightarrow> int"
  ev_it_ids :: "cluster_id set \<Rightarrow> cluster_id list"
  ev_it_txids :: "txid set \<Rightarrow> txid list"
  ev_now :: "nat \<Rightarrow> instant"
  ev_push_clk :: "nat \<Rightarrow> clock"
  ev_fault :: "nat \<Rightarrow> fault"
  ev_cluster :: "nat \<Rightarrow> txid \<Rightarrow> ObserverError + GetMempoolClusterModel"

text \<open>The one error log the properties speak about: the bulk insert of \<open>n\<close> new clusters failed.\<close>

datatype LogEntry = FailedToInsertClusters nat

datatype BusEvent =
    BusClusterDelta ClusterDeltaEvent
  | BusMempoolDelta MempoolDeltaEvent
  | BusNewBlock NewBlockInfoEvent

record world =
  w_ledger :: Inner
  w_snapshot :: ClusterSnapshot
  w_db :: db
  w_bus :: "BusEvent list"
  w_log :: "LogEntry list"
  w_steps :: nat

definition step :: "world \<Rightarrow> world" where
  "step w = w\<lparr>w_steps := Suc (w_steps w)\<rparr>"

definition db_read :: "env \<Rightarrow> (fault \<Rightarrow> db \<Rightarrow> 'a) \<Rightarrow> world \<Rightarrow> 'a \<times> world" where
  "db_read env f w = (f (ev_fault env (w_steps w)) (w_db w), step w)"

definition db_write :: "env \<Rightarrow> (fault \<Rightarrow> instant \<Rightarrow> db \<Rightarrow> 'a \<times> db) \<Rightarrow> world \<Rightarrow> 'a \<times> world" where
  "db_write env f w =
    (case f (ev_fault env (w_steps w)) (ev_now env (w_steps w)) (w_db w) of
       (x, d') \<Rightarrow> (x, step (w\<lparr>w_db := d'\<rparr>)))"

section \<open>Recorded changes\<close>

record ClusterDeltaSet =
  ds_upserted :: "cluster_id \<rightharpoonup> ActiveCluster"
  ds_removed :: "cluster_id set"

definition delta_default :: ClusterDeltaSet where
  "delta_default = \<lparr>ds_upserted = Map.empty, ds_removed = {}\<rparr>"

definition mark_removed :: "cluster_id \<Rightarrow> ClusterDeltaSet \<Rightarrow> ClusterDeltaSet" where
  "mark_removed i s = \<lparr>ds_upserted = (ds_upserted s)(i := None), ds_removed = insert i (ds_removed s)\<rparr>"

definition mark_upserted :: "Cluster \<Rightarrow> ClusterDeltaSet \<Rightarrow> ClusterDeltaSet" where
  "mark_upserted cluster s =
    (if cl_status cluster \<noteq> Active then mark_removed (cl_id cluster) s
     else \<lparr>ds_upserted = (ds_upserted s)(cl_id cluster \<mapsto> active_cluster_from cluster),
           ds_removed = ds_removed s - {cl_id cluster}\<rparr>)"

definition ds_is_empty :: "ClusterDeltaSet \<Rightarrow> bool" where
  "ds_is_empty s \<longleftrightarrow> ds_upserted s = Map.empty \<and> ds_removed s = {}"

text \<open>The two loops of \<open>merge\<close> touch each id once, so their order does not matter: first the other
  set's upserts win over what was recorded, then its removals.\<close>

definition merge :: "ClusterDeltaSet \<Rightarrow> ClusterDeltaSet \<Rightarrow> ClusterDeltaSet" where
  "merge s other =
    (let s1 = \<lparr>ds_upserted = ds_upserted s ++ ds_upserted other,
               ds_removed = ds_removed s - dom (ds_upserted other)\<rparr>
     in \<lparr>ds_upserted = (\<lambda>i. if i \<in> ds_removed other then None else ds_upserted s1 i),
         ds_removed = ds_removed s1 \<union> ds_removed other\<rparr>)"

definition publish_delta :: "env \<Rightarrow> ClusterDeltaSet \<Rightarrow> world \<Rightarrow> world" where
  "publish_delta env changes w =
    (case publish_clusters (ev_vb env)
        (map (\<lambda>i. the (ds_upserted changes i)) (ev_it_ids env (dom (ds_upserted changes))))
        (ev_it_ids env (ds_removed changes)) (w_snapshot w) of
       (ev, m) \<Rightarrow> w\<lparr>w_snapshot := m,
         w_bus := w_bus w @ (case ev of None \<Rightarrow> [] | Some e \<Rightarrow> [BusClusterDelta e])\<rparr>)"

section \<open>Upserting one group\<close>

definition new_cluster :: "instant \<Rightarrow> GetMempoolClusterModel \<Rightarrow> NewCluster" where
  "new_cluster now cluster = \<lparr>nc_chunks = mc_chunks cluster, nc_first_seen_at = now\<rparr>"

text \<open>\<open>Iterator::min_by_key\<close>: the first of the smallest.\<close>

definition min_by_key :: "('a \<Rightarrow> 'b::linorder) \<Rightarrow> 'a list \<Rightarrow> 'a option" where
  "min_by_key f xs =
    (case xs of [] \<Rightarrow> None | y # ys \<Rightarrow> Some (foldl (\<lambda>m z. if f z < f m then z else m) y ys))"

definition upsert ::
  "env \<Rightarrow> GetMempoolClusterModel \<Rightarrow> cluster_id list \<Rightarrow> world \<Rightarrow> (ClusterDeltaSet \<times> txid list) \<times> world" where
  "upsert env cluster existing_ids w =
    (let txids = mc_txids cluster in
     if existing_ids = [] then
       (case db_write env (\<lambda>fault now. insert_with_members fault now (new_cluster now cluster)) w of
          (Inl e, w1) \<Rightarrow> ((delta_default, []), w1)
        | (Inr row, w1) \<Rightarrow> ((mark_upserted row delta_default, []), w1))
     else
       (case db_read env (\<lambda>fault. find_by_ids fault existing_ids) w of
          (Inl e, w1) \<Rightarrow> ((delta_default, []), w1)
        | (Inr existing, w1) \<Rightarrow>
            (case min_by_key cl_first_seen_at existing of
               None \<Rightarrow> ((delta_default, []), w1)
             | Some keep \<Rightarrow>
                 (let detached = filter (\<lambda>txid. txid \<notin> set txids) (concat (map cl_txids existing));
                      keep_id = cl_id keep;
                      clusters_to_remove = filter (\<lambda>i. i \<noteq> keep_id) (map cl_id existing);
                      merged = (if clusters_to_remove = [] then (Inr (0::nat), w1)
                        else db_write env (\<lambda>fault now. mark_merged fault now clusters_to_remove) w1)
                  in case merged of
                       (Inl e, w2) \<Rightarrow> ((delta_default, []), w2)
                     | (Inr _, w2) \<Rightarrow>
                         (let changes = foldl (\<lambda>s i. mark_removed i s) delta_default clusters_to_remove
                          in case db_write env (\<lambda>fault now. replace_chunks fault now
                                 \<lparr>vu_cluster_id = keep_id, vu_chunks = mc_chunks cluster\<rparr>) w2 of
                               (Inl e, w3) \<Rightarrow> ((changes, detached), w3)
                             | (Inr row, w3) \<Rightarrow> ((mark_upserted row changes, detached), w3))))))"

section \<open>The work queue\<close>

record queue =
  q_changes :: ClusterDeltaSet
  q_pending :: "txid list"
  q_out :: "txid set"
  q_fresh :: "txid \<rightharpoonup> NewCluster"
  q_world :: world

definition absent_txid :: "env \<Rightarrow> txid \<Rightarrow> queue \<Rightarrow> queue" where
  "absent_txid env txid q =
    q\<lparr>q_world := (step (q_world q))\<lparr>w_ledger :=
         assert_absent (ev_push_clk env (w_steps (q_world q))) [txid] (w_ledger (q_world q))\<rparr>,
      q_out := insert txid (q_out q)\<rparr>"

text \<open>What follows a non-empty answer of the node.\<close>

definition handle_group :: "env \<Rightarrow> GetMempoolClusterModel \<Rightarrow> queue \<Rightarrow> queue" where
  "handle_group env cluster q =
    (let txids = mc_txids cluster;
         w1 = (step (q_world q))\<lparr>w_ledger :=
                 assert_present (ev_push_clk env (w_steps (q_world q))) txids (w_ledger (q_world q))\<rparr>;
         q1 = q\<lparr>q_out := q_out q \<union> set txids\<rparr>
     in case db_read env (\<lambda>fault. find_active_ids_by_txids fault txids) w1 of
          (Inl e, w2) \<Rightarrow> q1\<lparr>q_world := w2\<rparr>
        | (Inr existing_ids, w2) \<Rightarrow>
            (if existing_ids = [] \<and> length txids = 1
             then q1\<lparr>q_fresh := (q_fresh q1)(hd txids \<mapsto> new_cluster (ev_now env (w_steps w2)) cluster), q_world := w2\<rparr>
             else
               (let fresh = (\<lambda>t. if t \<in> set txids then None else q_fresh q1 t)
                in case upsert env cluster existing_ids w2 of
                     ((changes, detached), w3) \<Rightarrow>
                       q1\<lparr>q_fresh := fresh, q_changes := merge (q_changes q1) changes,
                          q_pending := q_pending q1 @ filter (\<lambda>txid. txid \<notin> q_out q1) detached,
                          q_world := w3\<rparr>)))"

definition candidate_step :: "env \<Rightarrow> queue \<Rightarrow> queue" where
  "candidate_step env q =
    (case q_pending q of
       [] \<Rightarrow> q
     | txid # rest \<Rightarrow>
         (let q = q\<lparr>q_pending := rest\<rparr> in
          if txid \<in> q_out q then q
          else
            (case ev_cluster env (w_steps (q_world q)) txid of
               Inl (TxNotFoundInMempool _) \<Rightarrow> absent_txid env txid q
             | Inl _ \<Rightarrow> q\<lparr>q_world := step (q_world q)\<rparr>
             | Inr cluster \<Rightarrow>
                 if mc_txids cluster = [] then absent_txid env txid q else handle_group env cluster q)))"

text \<open>The singletons that never merged with anything are inserted in bulk at the end.\<close>

definition flush_singletons :: "env \<Rightarrow> queue \<Rightarrow> ClusterDeltaSet \<times> world" where
  "flush_singletons env q =
    (if dom (q_fresh q) = {} then (q_changes q, q_world q)
     else
       (let w = q_world q;
            batch = map (\<lambda>t. the (q_fresh q t)) (ev_it_txids env (dom (q_fresh q)))
        in case insert_many_with_members (\<lambda>k. ev_fault env (w_steps w + k)) (ev_now env (w_steps w)) batch (w_db w) of
             (res, d') \<Rightarrow>
               (let w1 = w\<lparr>w_db := d',
                     w_steps := w_steps w + length (chunks_of MEMPOOL_DELTA_INSERT_CHUNK_SIZE batch)\<rparr>
                in case res of
                     Inr rows \<Rightarrow> (foldl (\<lambda>s row. mark_upserted row s) (q_changes q) rows, w1)
                   | Inl e \<Rightarrow> (q_changes q, w1\<lparr>w_log := w_log w1 @ [FailedToInsertClusters (length batch)]\<rparr>))))"

text \<open>A queue that never empties would not return: \<open>None\<close>.\<close>

definition handle_candidates_covering ::
  "env \<Rightarrow> txid list \<Rightarrow> txid set \<Rightarrow> world \<Rightarrow> (ClusterDeltaSet \<times> world) option" where
  "handle_candidates_covering env candidate_txids out_of_mempool w =
    map_option (flush_singletons env)
      (while_option (\<lambda>q. q_pending q \<noteq> []) (candidate_step env)
        \<lparr>q_changes = delta_default, q_pending = candidate_txids, q_out = out_of_mempool,
         q_fresh = Map.empty, q_world = w\<rparr>)"

definition handle_candidates :: "env \<Rightarrow> txid list \<Rightarrow> world \<Rightarrow> (ClusterDeltaSet \<times> world) option" where
  "handle_candidates env candidate_txids w = handle_candidates_covering env candidate_txids {} w"

section \<open>Mined clusters\<close>

record MinedBlock =
  mb_txids :: "txid list"
  mb_fees :: "txid \<rightharpoonup> int"
  mb_weights :: "txid \<rightharpoonup> int"
  mb_confirmed_at :: instant

definition block_contains :: "MinedBlock \<Rightarrow> txid \<Rightarrow> bool" where
  "block_contains block txid \<longleftrightarrow> txid \<in> set (mb_txids block)"

definition split_chunk :: "MinedBlock \<Rightarrow> txid list \<Rightarrow> ClusterChunk" where
  "split_chunk block txids =
    \<lparr>ck_txids = txids, ck_fee_sats = u64_of (i64_sum (List.map_filter (mb_fees block) txids)),
     ck_weight = u64_of (i64_sum (List.map_filter (mb_weights block) txids))\<rparr>"

record MinedTrim =
  mt_cluster_id :: cluster_id
  mt_mined :: "ClusterChunk list"
  mt_pending :: "txid list"

definition trim_chunk ::
  "MinedBlock \<Rightarrow> ClusterChunk list \<times> txid list \<Rightarrow> ClusterChunk \<Rightarrow> ClusterChunk list \<times> txid list" where
  "trim_chunk block acc chunk =
    (case acc of (mined, pending) \<Rightarrow>
      (let in_block = filter (block_contains block) (ck_txids chunk);
           left = filter (\<lambda>txid. \<not> block_contains block txid) (ck_txids chunk)
       in (if left = [] then mined @ [chunk]
           else if in_block \<noteq> [] then mined @ [split_chunk block in_block] else mined,
           pending @ left)))"

definition mined_trim_new :: "Cluster \<Rightarrow> MinedBlock \<Rightarrow> MinedTrim" where
  "mined_trim_new cluster block =
    (case foldl (trim_chunk block) ([], []) (cl_chunks cluster) of
       (mined, pending) \<Rightarrow> \<lparr>mt_cluster_id = cl_id cluster, mt_mined = mined, mt_pending = pending\<rparr>)"

definition as_update :: "MinedTrim \<Rightarrow> ClusterVersionUpdate" where
  "as_update trim = \<lparr>vu_cluster_id = mt_cluster_id trim, vu_chunks = mt_mined trim\<rparr>"

definition find_active_clusters_containing :: "env \<Rightarrow> txid list \<Rightarrow> world \<Rightarrow> Cluster list \<times> world" where
  "find_active_clusters_containing env txids w =
    (case db_read env (\<lambda>fault. find_active_ids_by_txids fault txids) w of
       (Inl e, w1) \<Rightarrow> ([], w1)
     | (Inr ids, w1) \<Rightarrow>
         if ids = [] then ([], w1)
         else (case db_read env (\<lambda>fault. find_by_ids fault ids) w1 of
                 (Inl e, w2) \<Rightarrow> ([], w2) | (Inr rows, w2) \<Rightarrow> (rows, w2)))"

definition confirm_full :: "env \<Rightarrow> cluster_id list \<Rightarrow> instant \<Rightarrow> world \<Rightarrow> ClusterDeltaSet \<times> world" where
  "confirm_full env full_ids confirmed_at w =
    (if full_ids = [] then (delta_default, w)
     else (case db_write env (\<lambda>fault now. confirm_many fault now full_ids confirmed_at) w of
             (Inr _, w1) \<Rightarrow> (foldl (\<lambda>s i. mark_removed i s) delta_default full_ids, w1)
           | (Inl e, w1) \<Rightarrow> (delta_default, w1)))"

definition confirm_mined_inner :: "env \<Rightarrow> MinedBlock \<Rightarrow> world \<Rightarrow> (ClusterDeltaSet \<times> world) option" where
  "confirm_mined_inner env block w =
    (case find_active_clusters_containing env (mb_txids block) w of
       (clusters, w1) \<Rightarrow>
         (let is_full = (\<lambda>cluster. \<forall>txid \<in> set (cl_txids cluster). block_contains block txid);
              full = filter is_full clusters;
              partial = filter (\<lambda>c. \<not> is_full c) clusters
          in case confirm_full env (map cl_id full) (mb_confirmed_at block) w1 of
               (changes, w2) \<Rightarrow>
                 (if partial = [] then Some (changes, w2)
                  else
                    (let trims = map (\<lambda>cluster. mined_trim_new cluster block) partial
                     in case db_write env (\<lambda>fault now. trim_and_confirm_many fault now (map as_update trims)
                            (mb_confirmed_at block)) w2 of
                          (Inl e, w3) \<Rightarrow> Some (changes, w3)
                        | (Inr _, w3) \<Rightarrow>
                            (let changes1 = foldl (\<lambda>s trim. mark_removed (mt_cluster_id trim) s) changes trims
                             in map_option (\<lambda>(sync_changes, w4). (merge changes1 sync_changes, w4))
                                  (handle_candidates env (concat (map mt_pending trims)) w3))))))"

definition confirm_mined ::
  "env \<Rightarrow> txid list \<Rightarrow> (txid \<rightharpoonup> int) \<Rightarrow> (txid \<rightharpoonup> int) \<Rightarrow> instant \<Rightarrow> world \<Rightarrow> world option" where
  "confirm_mined env txids fees weights confirmed_at w =
    map_option (\<lambda>(changes, w1). publish_delta env changes w1)
      (confirm_mined_inner env \<lparr>mb_txids = txids, mb_fees = fees, mb_weights = weights,
         mb_confirmed_at = confirmed_at\<rparr> w)"

text \<open>\<open>MinedTxs::by_block\<close>: a sorted map from \<open>(height, hash)\<close> to the block's transactions.\<close>

definition add_mined ::
  "(int \<times> string \<rightharpoonup> MinedBlock) \<Rightarrow> Transaction \<times> int \<times> instant \<Rightarrow> (int \<times> string \<rightharpoonup> MinedBlock)" where
  "add_mined blocks p =
    (case p of (tx, height, mined_at) \<Rightarrow>
      (case tx_confirmed_at_block tx of
         None \<Rightarrow> blocks
       | Some hash \<Rightarrow>
           (let block = (case blocks (height, hash) of Some b \<Rightarrow> b
                | None \<Rightarrow> \<lparr>mb_txids = [], mb_fees = Map.empty, mb_weights = Map.empty, mb_confirmed_at = mined_at\<rparr>);
                block1 = (case tx_fee tx of Some fee \<Rightarrow> block\<lparr>mb_fees := (mb_fees block)(tx_txid tx \<mapsto> fee)\<rparr>
                          | None \<Rightarrow> block)
            in blocks((height, hash) \<mapsto> block1\<lparr>mb_weights := (mb_weights block1)(tx_txid tx \<mapsto> tx_weight tx),
                 mb_txids := mb_txids block1 @ [tx_txid tx]\<rparr>))))"

definition by_block :: "(Transaction \<times> int \<times> instant) list \<Rightarrow> MinedBlock list" where
  "by_block rows =
    (let blocks = foldl add_mined Map.empty rows
     in map (\<lambda>k. the (blocks k)) (sorted_list_of_set (dom blocks)))"

fun confirm_blocks :: "env \<Rightarrow> MinedBlock list \<Rightarrow> ClusterDeltaSet \<Rightarrow> world \<Rightarrow> (ClusterDeltaSet \<times> world) option" where
  "confirm_blocks env [] changes w = Some (changes, w)"
| "confirm_blocks env (block # blocks) changes w =
    (case confirm_mined_inner env block w of
       None \<Rightarrow> None
     | Some (extra, w1) \<Rightarrow> confirm_blocks env blocks (merge changes extra) w1)"

definition handle_confirmed :: "env \<Rightarrow> txid list \<Rightarrow> world \<Rightarrow> (ClusterDeltaSet \<times> world) option" where
  "handle_confirmed env confirmed_txids w =
    (case db_read env (\<lambda>fault. find_active_ids_by_txids fault confirmed_txids) w of
       (Inl e, w1) \<Rightarrow> Some (delta_default, w1)
     | (Inr ids, w1) \<Rightarrow>
         if ids = [] then Some (delta_default, w1)
         else (case db_read env (\<lambda>fault. find_by_ids fault ids) w1 of
             (Inl e, w2) \<Rightarrow> Some (delta_default, w2)
           | (Inr clusters, w2) \<Rightarrow>
               (case db_read env (\<lambda>fault. find_mined_by_txids fault (concat (map cl_txids clusters))) w2 of
                  (Inl e, w3) \<Rightarrow> Some (delta_default, w3)
                | (Inr rows, w3) \<Rightarrow> confirm_blocks env (by_block rows) delta_default w3)))"

section \<open>Evicted clusters\<close>

definition evict_scan ::
  "txid set \<Rightarrow> txid set \<Rightarrow> cluster_id list \<times> txid list \<Rightarrow> Cluster \<Rightarrow> cluster_id list \<times> txid list" where
  "evict_scan evicted live acc cluster =
    (case acc of (emptied, survivors) \<Rightarrow>
      (if cl_status cluster \<noteq> Active then acc
       else if \<not> (\<exists>txid \<in> set (cl_txids cluster). txid \<in> evicted) then acc
       else
         (let remaining = filter (\<lambda>txid. txid \<notin> evicted \<and> txid \<in> live) (cl_txids cluster)
          in if remaining = [] then (emptied @ [cl_id cluster], survivors)
             else (emptied, survivors @ remaining))))"

definition handle_evicted :: "env \<Rightarrow> txid list \<Rightarrow> world \<Rightarrow> (ClusterDeltaSet \<times> world) option" where
  "handle_evicted env evicted_txids w =
    (if evicted_txids = [] then Some (delta_default, w)
     else (case db_read env (\<lambda>fault. find_active_ids_by_txids fault evicted_txids) w of
         (Inl e, w1) \<Rightarrow> Some (delta_default, w1)
       | (Inr cluster_ids, w1) \<Rightarrow>
           if cluster_ids = [] then Some (delta_default, w1)
           else (case db_read env (\<lambda>fault. find_by_ids fault cluster_ids) w1 of
               (Inl e, w2) \<Rightarrow> Some (delta_default, w2)
             | (Inr clusters, w2) \<Rightarrow>
                 (case foldl (evict_scan (set evicted_txids) (lg_live (w_ledger w2))) ([], []) clusters of
                    (emptied, survivors) \<Rightarrow>
                      (case (if emptied = [] then (delta_default, w2)
                             else (case db_write env (\<lambda>fault now. mark_evicted fault now emptied) w2 of
                                 (Inr _, w3) \<Rightarrow> (foldl (\<lambda>s i. mark_removed i s) delta_default emptied, w3)
                               | (Inl e, w3) \<Rightarrow> (delta_default, w3))) of
                         (changes, w3) \<Rightarrow>
                           (if survivors = [] then Some (changes, w3)
                            else map_option (\<lambda>(extra, w4). (merge changes extra, w4))
                              (handle_candidates_covering env survivors (set evicted_txids) w3)))))))"

section \<open>A sync round\<close>

definition merge_stage ::
  "bool \<Rightarrow> (world \<Rightarrow> (ClusterDeltaSet \<times> world) option) \<Rightarrow> ClusterDeltaSet \<times> world \<Rightarrow> (ClusterDeltaSet \<times> world) option" where
  "merge_stage run f acc =
    (case acc of (changes, w) \<Rightarrow>
      (if run then map_option (\<lambda>(extra, w1). (merge changes extra, w1)) (f w) else Some (changes, w)))"

definition sync_clusters :: "env \<Rightarrow> txid list \<Rightarrow> txid list \<Rightarrow> txid list \<Rightarrow> world \<Rightarrow> world option" where
  "sync_clusters env candidate_txids confirmed_txids evicted_txids w =
    (case Option.bind (merge_stage (confirmed_txids \<noteq> []) (handle_confirmed env confirmed_txids) (delta_default, w))
        (\<lambda>acc. Option.bind (merge_stage (evicted_txids \<noteq> []) (handle_evicted env evicted_txids) acc)
          (merge_stage (candidate_txids \<noteq> []) (handle_candidates env candidate_txids))) of
       None \<Rightarrow> None
     | Some (changes, w1) \<Rightarrow> Some (if ds_is_empty changes then w1 else publish_delta env changes w1))"

definition sync_clusters_for :: "env \<Rightarrow> txid list \<Rightarrow> txid list \<Rightarrow> world \<Rightarrow> world option" where
  "sync_clusters_for env candidate_txids evicted_txids w = sync_clusters env candidate_txids [] evicted_txids w"

definition sync_clusters_after_flush :: "env \<Rightarrow> txid list \<Rightarrow> FlushOutcome \<Rightarrow> world \<Rightarrow> world option" where
  "sync_clusters_after_flush env added outcome w =
    sync_clusters env added (fo_confirmed outcome) (fo_evicted outcome) w"

definition seed_snapshot :: "env \<Rightarrow> world \<Rightarrow> world" where
  "seed_snapshot env w =
    (case db_read env (\<lambda>fault. find_active fault) w of
       (Inr rows, w1) \<Rightarrow> w1\<lparr>w_snapshot := snapshot_seed (map active_cluster_from rows)\<rparr>
     | (Inl e, w1) \<Rightarrow> w1)"

end
