(* ===== verification/Cluster_Sync.thy ===== *)
theory Cluster_Sync
  imports Cluster_Service Cluster_Props
begin

text \<open>
  What a sync round of the cluster service does to the map of active clusters: every stage records
  in its \<open>ClusterDeltaSet\<close> exactly what it changed in the tables, keeps the clusters disjoint, and
  the work queue empties.
\<close>

section \<open>Recorded changes as functions on the map of active clusters\<close>

definition apply_delta :: "ClusterDeltaSet \<Rightarrow> ClusterSnapshot \<Rightarrow> ClusterSnapshot" where
  "apply_delta s v =
    (\<lambda>i. if i \<in> ds_removed s then None
         else (case ds_upserted s i of Some c \<Rightarrow> Some (ac_state c) | None \<Rightarrow> v i))"

definition delta_wf :: "ClusterDeltaSet \<Rightarrow> bool" where
  "delta_wf s \<longleftrightarrow> finite (dom (ds_upserted s)) \<and> finite (ds_removed s) \<and>
     (\<forall>i c. ds_upserted s i = Some c \<longrightarrow> ac_id c = i)"

text \<open>A log of changes over a store: stages that each record what they did compose.\<close>

locale change_log =
  fixes app :: "'c \<Rightarrow> 'v \<Rightarrow> 'v" and join :: "'c \<Rightarrow> 'c \<Rightarrow> 'c" and none :: 'c and good :: "'c \<Rightarrow> bool"
  assumes app_none: "app none v = v"
    and app_join: "app (join a b) v = app b (app a v)"
    and good_none: "good none"
    and good_join: "good a \<Longrightarrow> good b \<Longrightarrow> good (join a b)"
begin

definition recorded :: "'c \<Rightarrow> 'v \<Rightarrow> 'v \<Rightarrow> bool" where
  "recorded c v v' \<longleftrightarrow> good c \<and> v' = app c v"

lemma recorded_none: "recorded none v v"
  by (simp add: recorded_def app_none good_none)

lemma recorded_join: "recorded a v v1 \<Longrightarrow> recorded b v1 v2 \<Longrightarrow> recorded (join a b) v v2"
  by (simp add: recorded_def app_join good_join)

end

interpretation delta_log: change_log apply_delta merge delta_default delta_wf
proof unfold_locales
  show "apply_delta delta_default v = v" for v
    by (simp add: apply_delta_def delta_default_def)
  show "apply_delta (merge a b) v = apply_delta b (apply_delta a v)" for a b v
    by (intro ext) (auto simp: apply_delta_def merge_def Let_def map_add_def split: option.splits)
  show "delta_wf delta_default"
    by (simp add: delta_wf_def delta_default_def)
  show "delta_wf (merge a b)" if wf: "delta_wf a" "delta_wf b" for a b
  proof -
    have "dom (ds_upserted (merge a b)) \<subseteq> dom (ds_upserted a) \<union> dom (ds_upserted b)"
      by (auto simp: merge_def Let_def map_add_def split: if_splits option.splits)
    then have "finite (dom (ds_upserted (merge a b)))"
      by (rule finite_subset) (use wf in \<open>simp add: delta_wf_def\<close>)
    then show ?thesis
      using wf by (auto simp: delta_wf_def merge_def Let_def map_add_def split: if_splits option.splits)
  qed
qed

abbreviation "recorded \<equiv> delta_log.recorded"

lemmas recorded_def = delta_log.recorded_def
lemmas recorded_none [simp] = delta_log.recorded_none
lemmas recorded_join = delta_log.recorded_join

lemma apply_mark_removed: "apply_delta (mark_removed i s) v = view_without {i} (apply_delta s v)"
  by (intro ext) (simp add: apply_delta_def mark_removed_def view_without_def)

lemma delta_wf_mark_removed: "delta_wf s \<Longrightarrow> delta_wf (mark_removed i s)"
  by (auto simp: delta_wf_def mark_removed_def split: if_splits)

lemma recorded_removed: "recorded s v v' \<Longrightarrow> recorded (mark_removed i s) v (view_without {i} v')"
  by (simp add: recorded_def apply_mark_removed delta_wf_mark_removed)

lemma view_without_view_without [simp]: "view_without A (view_without B v) = view_without (A \<union> B) v"
  by (intro ext) (simp add: view_without_def)

lemma view_without_empty [simp]: "view_without {} v = v"
  by (simp add: view_without_def)

lemma recorded_removed_all:
  "recorded s v v' \<Longrightarrow> recorded (foldl (\<lambda>s x. mark_removed (f x) s) s xs) v (view_without (f ` set xs) v')"
proof (induction xs arbitrary: s v')
  case (Cons x xs)
  from Cons.IH [OF recorded_removed [OF Cons.prems, of "f x"]] show ?case
    by simp
qed simp

lemma recorded_upserted:
  assumes "recorded s v v'" "cl_status cl = Active"
  shows "recorded (mark_upserted cl s) v (v'(cl_id cl \<mapsto> cluster_state_of cl))"
proof -
  have "apply_delta (mark_upserted cl s) v = (apply_delta s v)(cl_id cl \<mapsto> cluster_state_of cl)"
    using assms(2) by (intro ext) (auto simp: apply_delta_def mark_upserted_def cluster_state_of_def)
  moreover have "delta_wf (mark_upserted cl s)"
    using assms by (auto simp: recorded_def delta_wf_def mark_upserted_def active_cluster_from_def)
  ultimately show ?thesis
    using assms(1) by (simp add: recorded_def)
qed

lemma recorded_upserted_all:
  "recorded s v v' \<Longrightarrow> \<forall>cl\<in>set cls. cl_status cl = Active \<Longrightarrow>
    recorded (foldl (\<lambda>s cl. mark_upserted cl s) s cls) v (foldl add_entry v' cls)"
proof (induction cls arbitrary: s v')
  case (Cons cl cls)
  have "recorded (mark_upserted cl s) v (add_entry v' cl)"
    using Cons.prems recorded_upserted by (simp add: add_entry_def)
  with Cons show ?case
    by simp
qed simp

text \<open>Publishing brings the snapshot to where the recorded changes lead.\<close>

lemma foldl_put_cluster_map:
  assumes "\<And>i. i \<in> set is \<Longrightarrow> ac_id (f i) = i"
  shows "foldl put_cluster m (map f is) = (\<lambda>i. if i \<in> set is then Some (ac_state (f i)) else m i)"
  using assms by (induction "is" arbitrary: m) (auto simp: put_cluster_def)

lemma publish_delta_snapshot:
  assumes "delta_wf s" "iterates (ev_it_ids env)"
  shows "w_snapshot (publish_delta env s w) = apply_delta s (w_snapshot w)"
proof -
  let ?us = "ev_it_ids env (dom (ds_upserted s))"
  have us: "set ?us = dom (ds_upserted s)" "set (ev_it_ids env (ds_removed s)) = ds_removed s"
    using assms by (simp_all add: delta_wf_def iter_simps)
  have "foldl put_cluster m (map (\<lambda>i. the (ds_upserted s i)) ?us) =
      (\<lambda>i. if i \<in> set ?us then Some (ac_state (the (ds_upserted s i))) else m i)" for m
    by (rule foldl_put_cluster_map) (use assms us in \<open>auto simp: delta_wf_def\<close>)
  then show ?thesis
    unfolding publish_delta_def split_beta
    by (intro ext) (auto simp: publish_clusters_state us apply_delta_def split: option.splits)
qed

lemma publish_delta_same [simp]:
  "w_db (publish_delta env s w) = w_db w" "w_log (publish_delta env s w) = w_log w"
  "w_ledger (publish_delta env s w) = w_ledger w" "w_steps (publish_delta env s w) = w_steps w"
  by (simp_all add: publish_delta_def split_beta)

section \<open>Disjoint clusters\<close>

definition members :: "ClusterSnapshot \<Rightarrow> txid set" where
  "members v = {t. \<exists>i st. v i = Some st \<and> t \<in> set (cs_txids st)}"

definition holders :: "txid set \<Rightarrow> ClusterSnapshot \<Rightarrow> cluster_id set" where
  "holders T v = {i. \<exists>st. v i = Some st \<and> set (cs_txids st) \<inter> T \<noteq> {}}"

text \<open>No transaction is in two active clusters, no active cluster is empty, and every one has
  chunks that storage keeps.\<close>

definition view_ok :: "ClusterSnapshot \<Rightarrow> bool" where
  "view_ok v \<longleftrightarrow>
     (\<forall>i j s t. v i = Some s \<longrightarrow> v j = Some t \<longrightarrow> i \<noteq> j \<longrightarrow> set (cs_txids s) \<inter> set (cs_txids t) = {}) \<and>
     (\<forall>i s. v i = Some s \<longrightarrow> cs_txids s \<noteq> [] \<and> wf_chunks (cs_chunks s))"

lemma active_ids_with_holders: "active_ids_with T d = holders T (active_view d)"
  by (simp add: active_ids_with_def holders_def)

lemma view_ok_without: "view_ok v \<Longrightarrow> view_ok (view_without A v)"
  unfolding view_ok_def view_without_def by (auto split: if_splits)

lemma members_without: "members (view_without A v) \<subseteq> members v"
  by (auto simp: members_def view_without_def split: if_splits)

lemma view_ok_add:
  assumes "view_ok v" "cs_txids st \<noteq> []" "wf_chunks (cs_chunks st)" "set (cs_txids st) \<inter> members (v(k := None)) = {}"
  shows "view_ok (v(k \<mapsto> st))"
proof -
  have apart: "set (cs_txids st) \<inter> set (cs_txids s) = {}" if "v i = Some s" "i \<noteq> k" for i s
    using assms(4) that by (fastforce simp: members_def)
  show ?thesis
    unfolding view_ok_def
  proof (intro conjI allI impI)
    show "set (cs_txids s) \<inter> set (cs_txids t) = {}"
      if "(v(k \<mapsto> st)) i = Some s" "(v(k \<mapsto> st)) j = Some t" "i \<noteq> j" for i j s t
      using that apart [of i s] apart [of j t] assms(1)
      by (cases "i = k"; cases "j = k") (auto simp: view_ok_def)
    show "cs_txids s \<noteq> []" "wf_chunks (cs_chunks s)" if "(v(k \<mapsto> st)) i = Some s" for i s
      using that assms(1-3) by (auto simp: view_ok_def split: if_splits)
  qed
qed

lemma members_add: "members (v(k \<mapsto> st)) = set (cs_txids st) \<union> members (v(k := None))"
  by (fastforce simp: members_def split: if_splits)

lemma holders_cover: "t \<in> T \<Longrightarrow> t \<in> members v \<Longrightarrow> \<exists>i\<in>holders T v. \<exists>st. v i = Some st \<and> t \<in> set (cs_txids st)"
  by (fastforce simp: holders_def members_def)

lemma members_without_holders: "members (view_without (holders T v) v) \<inter> T = {}"
  by (auto simp: members_def holders_def view_without_def split: if_splits)

text \<open>What an answer of the node may do to the active clusters: close some of those that hold one
  of its transactions, or replace them all by one cluster with exactly its chunks.\<close>

definition regrouped :: "ClusterChunk list \<Rightarrow> ClusterSnapshot \<Rightarrow> ClusterSnapshot \<Rightarrow> bool" where
  "regrouped chunks v v' \<longleftrightarrow>
    (let A = holders (set (concat (map ck_txids chunks))) v in
     \<exists>k st. (k \<in> A \<or> v k = None) \<and> cs_chunks st = chunks \<and> v' = (view_without A v)(k \<mapsto> st))"

definition may_regroup :: "ClusterChunk list \<Rightarrow> ClusterSnapshot \<Rightarrow> ClusterSnapshot \<Rightarrow> bool" where
  "may_regroup chunks v v' \<longleftrightarrow> regrouped chunks v v' \<or>
     (\<exists>R \<subseteq> holders (set (concat (map ck_txids chunks))) v. v' = view_without R v)"

lemma regrouped_view_ok:
  assumes "regrouped chunks v v'" "view_ok v" "wf_chunks chunks" "concat (map ck_txids chunks) \<noteq> []"
  shows "view_ok v'"
proof -
  let ?T = "set (concat (map ck_txids chunks))"
  let ?A = "holders ?T v"
  obtain k st where k: "cs_chunks st = chunks" "v' = (view_without ?A v)(k \<mapsto> st)"
    using assms(1) by (auto simp: regrouped_def Let_def)
  have txids: "set (cs_txids st) = ?T" "cs_txids st \<noteq> []"
    using assms(4) by (simp_all add: cs_txids_def k(1) del: concat_eq_Nil_conv)
  have "members ((view_without ?A v)(k := None)) \<subseteq> members (view_without ?A v)"
    by (auto simp: members_def split: if_splits)
  then have "set (cs_txids st) \<inter> members ((view_without ?A v)(k := None)) = {}"
    using members_without_holders [of ?T v] txids(1) by blast
  then show ?thesis
    unfolding k(2) using assms(2,3) txids(2) by (intro view_ok_add view_ok_without) (simp_all add: k(1))
qed

lemma may_regroup_view_ok:
  assumes "may_regroup chunks v v'" "view_ok v" "wf_chunks chunks" "concat (map ck_txids chunks) \<noteq> []"
  shows "view_ok v'"
  using assms regrouped_view_ok view_ok_without by (auto simp: may_regroup_def)

lemma may_regroup_members:
  assumes "may_regroup chunks v v'"
  shows "members v' \<subseteq> members v \<union> set (concat (map ck_txids chunks))"
proof -
  have "members (w(k \<mapsto> st)) \<subseteq> members w \<union> set (cs_txids st)" for w :: ClusterSnapshot and k st
    by (auto simp: members_def split: if_splits)
  then show ?thesis
    using assms members_without unfolding may_regroup_def regrouped_def Let_def cs_txids_def by fastforce
qed

section \<open>What the repository calls do to the map\<close>

lemma ids_distinct: "cluster_inv d \<Longrightarrow> distinct (map cr_id (db_clusters d))"
  using cluster_inv_uptoD(1) by (auto simp: cluster_inv_def)

lemma find_by_ids_spec:
  assumes "cluster_inv d" "find_by_ids fault ids d = Inr rows"
  shows "distinct (map cl_id rows)"
    and "cl \<in> set rows \<Longrightarrow> cl_id cl \<in> set ids"
    and "cl \<in> set rows \<Longrightarrow> cl_status cl = Active \<Longrightarrow> active_view d (cl_id cl) = Some (cluster_state_of cl)"
    and "cl \<in> set rows \<Longrightarrow> active_view d (cl_id cl) \<noteq> None \<Longrightarrow> cl_status cl = Active"
    and "i \<in> set ids \<Longrightarrow> active_view d i \<noteq> None \<Longrightarrow> i \<in> cl_id ` set rows"
proof -
  note dist = ids_distinct [OF assms(1)]
  let ?rs = "sort_key cr_id (filter (filter_matches (FilterIds ids)) (db_clusters d))"
  have rows: "rows = map (\<lambda>row. from_row row (current_chunks row d)) ?rs"
    using assms(2) by (simp add: find_by_ids_def query_def load_clusters_eq [OF dist] split: option.splits prod.splits)
  have rs: "set ?rs = {c \<in> set (db_clusters d). cr_id c \<in> set ids}"
    by (auto simp: filter_matches_def)
  have "mset (map cr_id ?rs) = mset (map cr_id (filter (filter_matches (FilterIds ids)) (db_clusters d)))"
    by simp
  then have "distinct (map cr_id ?rs)"
    using dist by (metis distinct_map_filter mset_eq_imp_distinct_iff)
  then show "distinct (map cl_id rows)"
    unfolding rows by (simp add: comp_def)
  have row: "row_of d (cr_id r) = Some r" if "r \<in> set ?rs" for r
    using that row_of_unique [OF dist] unfolding rs by blast
  show "cl_id cl \<in> set ids" if "cl \<in> set rows"
    using that unfolding rows set_map rs by auto
  show "active_view d (cl_id cl) = Some (cluster_state_of cl)" if "cl \<in> set rows" "cl_status cl = Active"
    using that row unfolding rows by (auto simp: active_view_def row_state_def cluster_state_of_from_row)
  show "cl_status cl = Active" if "cl \<in> set rows" "active_view d (cl_id cl) \<noteq> None"
    using that row unfolding rows by (auto simp: active_view_def split: if_splits)
  show "i \<in> cl_id ` set rows" if i: "i \<in> set ids" "active_view d i \<noteq> None"
  proof -
    obtain c where "c \<in> set (db_clusters d)" "cr_id c = i"
      using i(2) row_of_Some by (fastforce simp: active_view_def split: option.splits)
    then have "c \<in> set ?rs"
      using i(1) unfolding rs by simp
    then show ?thesis
      using \<open>cr_id c = i\<close> unfolding rows by (force simp: image_image)
  qed
qed

lemma min_by_key_spec:
  "min_by_key f xs = None \<longleftrightarrow> xs = []" "min_by_key f xs = Some x \<Longrightarrow> x \<in> set xs \<and> (\<forall>y\<in>set xs. f x \<le> f y)"
proof -
  show "min_by_key f xs = None \<longleftrightarrow> xs = []"
    by (simp add: min_by_key_def split: list.split)
  have "foldl (\<lambda>m z. if f z < f m then z else m) y ys \<in> set (y # ys) \<and>
      (\<forall>z\<in>set (y # ys). f (foldl (\<lambda>m z. if f z < f m then z else m) y ys) \<le> f z)" for y ys
  proof (induction ys arbitrary: y)
    case (Cons a ys)
    then show ?case
      using Cons.IH [of a] Cons.IH [of y] by (auto simp: not_less dest: order.trans less_imp_le)
  qed simp
  then show "min_by_key f xs = Some x \<Longrightarrow> x \<in> set xs \<and> (\<forall>y\<in>set xs. f x \<le> f y)"
    by (auto simp: min_by_key_def split: list.splits)
qed

lemma distinct_keys_append:
  assumes "distinct (map f xs)" "distinct (map f ys)" "\<And>x. x \<in> set xs \<Longrightarrow> f x \<notin> f ` set ys"
  shows "distinct (map f (xs @ ys))"
  using assms by auto

lemma chunk_rows_keys_distinct:
  assumes "length chunks \<le> 2 ^ 15"
  shows "distinct (map chunk_key (chunk_rows i v chunks b))"
proof -
  have "ch_position (chunk_rows i v chunks b ! n) = int n" if "n < length chunks" for n
    using that assms by (simp add: chunk_rows_def i16_of_small)
  then have "map ch_position (chunk_rows i v chunks b) = map int [0..<length chunks]"
    by (intro nth_equalityI) auto
  then have "distinct (map (snd \<circ> snd) (map chunk_key (chunk_rows i v chunks b)))"
    by (simp add: chunk_key_def comp_def distinct_map)
  then show ?thesis
    using distinct_map by blast
qed

text \<open>Under the invariant no constraint is ever violated.\<close>

lemma replace_chunks_succeeds:
  assumes inv: "cluster_inv d" and "active_view d (vu_cluster_id u) \<noteq> None" "wf_chunks (vu_chunks u)"
  shows "\<exists>cl d'. replace_chunks None now u d = (Inr cl, d')"
proof -
  note inv0 = inv [unfolded cluster_inv_def]
  obtain old where old: "row_of d (vu_cluster_id u) = Some old" "cr_status old = Active"
    using assms(2) by (auto simp: active_view_def split: option.splits if_splits)
  have mem: "old \<in> set (db_clusters d)" "cr_id old = vu_cluster_id u"
    using row_of_Some [OF old(1)] by simp_all
  let ?new = "chunk_rows (cr_id old) (cr_version old + 1) (vu_chunks u) True"
  let ?d1 = "set_live (\<lambda>r. ch_cluster_id r = cr_id old \<and> ch_version r = cr_version old) False d"
  have none: "rows_of ?d1 (cr_id old) (cr_version old + 1) = []"
    by (rule rows_of_set_live [OF rows_of_new_version [OF inv0 mem(1)]]) simp
  have "chunk_key r \<notin> chunk_key ` set ?new" if r: "r \<in> set (db_chunks ?d1)" for r
  proof
    assume "chunk_key r \<in> chunk_key ` set ?new"
    then have "ch_cluster_id r = cr_id old" "ch_version r = cr_version old + 1"
      by (auto simp: chunk_key_def dest: chunk_rows_fields)
    then show False
      using none r by (auto simp: rows_of_def filter_empty_conv)
  qed
  moreover have "distinct (map chunk_key (db_chunks ?d1))"
    using cluster_inv_uptoD(3) [OF inv0] by simp
  moreover have "distinct (map chunk_key ?new)"
    using assms(3) by (intro chunk_rows_keys_distinct) (simp add: wf_chunks_def)
  ultimately have "distinct (map chunk_key (db_chunks ?d1 @ ?new))"
    by (intro distinct_keys_append)
  then have "distinct (map chunk_key (db_chunks (with_version old (vu_chunks u) True d)))"
    by (simp add: with_version_def Let_def)
  then have "\<exists>cl d'. replace_chunks_in now u True d = Inr (cl, d')"
    unfolding replace_chunks_in_eq [OF inv0 refl refl] old(1) by simp
  then show ?thesis
    by (auto simp: replace_chunks_def query_def)
qed

lemma insert_in_succeeds:
  assumes inv: "cluster_inv d" and wf: "\<And>c. c \<in> set new \<Longrightarrow> wf_chunks (nc_chunks c)"
  shows "\<exists>cls d'. insert_in now new d = Inr (cls, d')"
proof -
  note inv0 = inv [unfolded cluster_inv_def] and fresh = new_pairs_fresh [OF inv, of new]
  let ?rows = "\<lambda>pairs. concat (map (\<lambda>(i, c). chunk_rows i 1 (nc_chunks c) True) pairs)"
  have ids: "ch_cluster_id r \<in> fst ` set pairs" if "r \<in> set (?rows pairs)" for r pairs
    using that by (force dest: chunk_rows_fields)
  have new_keys: "distinct (map chunk_key (?rows pairs))"
    if "distinct (map fst pairs)" "\<forall>p\<in>set pairs. wf_chunks (nc_chunks (snd p))" for pairs
    using that
  proof (induction pairs)
    case (Cons p pairs)
    have "chunk_key r \<notin> chunk_key ` set (?rows pairs)" if "r \<in> set (chunk_rows (fst p) 1 (nc_chunks (snd p)) True)" for r
    proof
      assume "chunk_key r \<in> chunk_key ` set (?rows pairs)"
      then have "ch_cluster_id r \<in> fst ` set pairs"
        using ids by (fastforce simp: chunk_key_def)
      then show False
        using chunk_rows_fields [OF that] Cons.prems(1) by simp
    qed
    moreover have "distinct (map chunk_key (chunk_rows (fst p) 1 (nc_chunks (snd p)) True))"
      using Cons.prems(2) by (intro chunk_rows_keys_distinct) (simp add: wf_chunks_def)
    ultimately have "distinct (map chunk_key (chunk_rows (fst p) 1 (nc_chunks (snd p)) True @ ?rows pairs))"
      using Cons by (intro distinct_keys_append) simp_all
    then show ?case
      by (cases p) simp
  qed simp
  have "snd ` set (new_pairs new d) \<subseteq> set new"
    by (auto simp: new_pairs_def dest: set_zip_rightD)
  then have "distinct (map chunk_key (?rows (new_pairs new d)))"
    using fresh_idsD(2) [OF fresh] wf by (intro new_keys) auto
  moreover have "chunk_key r \<notin> chunk_key ` set (?rows (new_pairs new d))" if r: "r \<in> set (db_chunks d)" for r
  proof
    assume "chunk_key r \<in> chunk_key ` set (?rows (new_pairs new d))"
    then have "ch_cluster_id r \<in> fst ` set (new_pairs new d)"
      using ids by (fastforce simp: chunk_key_def)
    then show False
      using cluster_inv_uptoD(4) [OF inv0 r] fresh_idsD(3) [OF fresh] by metis
  qed
  ultimately have keys: "distinct (map chunk_key (db_chunks d @ ?rows (new_pairs new d)))"
    using cluster_inv_uptoD(3) [OF inv0] by (intro distinct_keys_append)
  have "distinct (map chunk_key (db_chunks (d\<lparr>db_cluster_seq := n, db_clusters := cs\<rparr>)))" for n cs
    using cluster_inv_uptoD(3) [OF inv0] by simp
  note ins = insert_chunks_eq [OF this]
  show ?thesis
    using keys unfolding insert_in_def Let_def ins new_pairs_def by simp
qed
section \<open>Upserting one group\<close>

lemma db_write_spec:
  "db_write env f w = (x, w') \<longleftrightarrow>
    (\<exists>d'. f (ev_fault env (w_steps w)) (ev_now env (w_steps w)) (w_db w) = (x, d') \<and> w' = step (w\<lparr>w_db := d'\<rparr>))"
  by (auto simp: db_write_def split: prod.splits)

lemma step_same [simp]: "w_db (step w) = w_db w" "w_snapshot (step w) = w_snapshot w" "w_bus (step w) = w_bus w"
  "w_log (step w) = w_log w" "w_ledger (step w) = w_ledger w"
  by (simp_all add: step_def)

text \<open>The effect of one \<open>upsert\<close>, on every path through it: the changes recorded are those made, the
  clusters touched are holders of the group's transactions, and whoever loses its cluster without
  being in the group is reported as detached.\<close>

definition upsert_effect :: "GetMempoolClusterModel \<Rightarrow> world \<Rightarrow> ClusterDeltaSet \<times> txid list \<Rightarrow> world \<Rightarrow> bool" where
  "upsert_effect m w r w' \<longleftrightarrow>
    (let v = active_view (w_db w); v' = active_view (w_db w') in
     cluster_inv (w_db w') \<and> recorded (fst r) v v' \<and> may_regroup (mc_chunks m) v v' \<and>
     set (snd r) \<subseteq> members v - set (mc_txids m) \<and>
     members v \<subseteq> members v' \<union> set (mc_txids m) \<union> set (snd r) \<and>
     w' = w\<lparr>w_db := w_db w', w_steps := w_steps w'\<rparr>)"

lemma upsert_effect_none:
  assumes "cluster_inv (w_db w')" "active_view (w_db w') = active_view (w_db w)"
    "w' = w\<lparr>w_db := w_db w', w_steps := w_steps w'\<rparr>"
  shows "upsert_effect m w (delta_default, []) w'"
  using assms by (auto simp: upsert_effect_def may_regroup_def Let_def intro!: exI [of _ "{}"])

lemma upsert_insert:
  assumes inv: "cluster_inv (w_db w)" and wf: "wf_chunks (mc_chunks m)"
    and none: "holders (set (mc_txids m)) (active_view (w_db w)) = {}"
    and run: "upsert env m [] w = (r, w')"
  shows "upsert_effect m w r w'"
    and "ev_fault env = (\<lambda>_. None) \<Longrightarrow> regrouped (mc_chunks m) (active_view (w_db w)) (active_view (w_db w'))"
proof -
  let ?c = "new_cluster (ev_now env (w_steps w)) m"
  let ?f = "ev_fault env (w_steps w)"
  obtain res d' where ins: "insert_with_members ?f (ev_now env (w_steps w)) ?c (w_db w) = (res, d')"
    by force
  have wf': "wf_chunks (nc_chunks ?c)"
    using wf by (simp add: new_cluster_def)
  note spec = insert_with_members_spec [OF inv wf' ins]
  have w': "w' = step (w\<lparr>w_db := d'\<rparr>)"
    "r = (case res of Inl e \<Rightarrow> delta_default | Inr cl \<Rightarrow> mark_upserted cl delta_default, [])"
    using run ins by (auto simp: upsert_def db_write_def Let_def split: sum.splits)
  have re: "regrouped (mc_chunks m) (active_view (w_db w)) (active_view d')" if "res = Inr cl" for cl
    using spec(2) none unfolding that sum.case added_to_def regrouped_def Let_def mc_txids_def
    by (auto simp: new_cluster_def add_entry_def cluster_state_of_def ac_state_def active_cluster_from_def
        intro!: exI [of _ "cl_id cl"] exI [of _ "cluster_state_of cl"])
  show "upsert_effect m w r w'"
  proof (cases res)
    case (Inl e)
    then show ?thesis
      using spec by (simp add: w') (rule upsert_effect_none; simp add: step_def)
  next
    case (Inr cl)
    have v': "active_view d' = (active_view (w_db w))(cl_id cl \<mapsto> cluster_state_of cl)" "cl_status cl = Active"
      "active_view (w_db w) (cl_id cl) = None"
      using spec(2) by (simp_all add: Inr added_to_def add_entry_def)
    have "members (active_view (w_db w)) \<subseteq> members (active_view d')"
      unfolding v'(1) using v'(3) by (auto simp: members_def) (metis option.distinct(1))
    then show ?thesis
      using spec(1) re [OF Inr] recorded_upserted [OF recorded_none v'(2)]
      by (auto simp: upsert_effect_def Let_def w' Inr may_regroup_def v'(1) step_def)
  qed
  show "regrouped (mc_chunks m) (active_view (w_db w)) (active_view (w_db w'))" if "ev_fault env = (\<lambda>_. None)"
  proof -
    have "\<exists>cl. res = Inr cl"
      using ins insert_in_succeeds [OF inv, of "[?c]" "ev_now env (w_steps w)"] wf'
      by (auto simp: that insert_with_members_def query_def split: sum.splits)
    then show ?thesis
      using re by (auto simp: w')
  qed
qed
lemma cs_txids_of: "cs_txids (cluster_state_of cl) = cl_txids cl"
  by (simp add: cs_txids_def cluster_state_of_def ac_state_def active_cluster_from_def cl_txids_def)

lemma cs_chunks_of: "cs_chunks (cluster_state_of cl) = cl_chunks cl"
  by (simp add: cluster_state_of_def ac_state_def active_cluster_from_def)

lemma holders_sub: "i \<in> holders T v \<Longrightarrow> v i \<noteq> None"
  by (auto simp: holders_def)

text \<open>Rows loaded for all holders of a set of transactions.\<close>

lemma find_holders_spec:
  assumes inv: "cluster_inv d" and ids: "set ids = holders T (active_view d)"
    and run: "find_by_ids fault ids d = Inr rows"
  shows "cl_id ` set rows = holders T (active_view d)"
    and "\<And>cl. cl \<in> set rows \<Longrightarrow> cl_status cl = Active \<and> active_view d (cl_id cl) = Some (cluster_state_of cl)"
    and "set (concat (map cl_txids rows)) = members (\<lambda>i. if i \<in> holders T (active_view d) then active_view d i else None)"
proof -
  note spec = find_by_ids_spec [OF inv run]
  show rows: "cl_id ` set rows = holders T (active_view d)"
    using spec(2,5) ids holders_sub by blast
  show act: "cl_status cl = Active \<and> active_view d (cl_id cl) = Some (cluster_state_of cl)" if "cl \<in> set rows" for cl
    using that spec(3,4) rows holders_sub by blast
  show "set (concat (map cl_txids rows)) = members (\<lambda>i. if i \<in> holders T (active_view d) then active_view d i else None)"
    (is "_ = members ?v")
  proof (rule set_eqI)
    fix t
    have "t \<in> members ?v \<longleftrightarrow> (\<exists>i\<in>cl_id ` set rows. \<exists>st. active_view d i = Some st \<and> t \<in> set (cs_txids st))"
      unfolding rows members_def by (auto split: if_splits)
    also have "\<dots> \<longleftrightarrow> (\<exists>cl\<in>set rows. t \<in> set (cl_txids cl))"
      using act by (auto simp: cs_txids_of)
    finally show "t \<in> set (concat (map cl_txids rows)) \<longleftrightarrow> t \<in> members ?v"
      by auto
  qed
qed

lemma close_holders_members:
  assumes "R \<subseteq> A"
  shows "members v \<subseteq> members (view_without R v) \<union> members (\<lambda>i. if i \<in> A then v i else None)"
proof
  fix t
  assume "t \<in> members v"
  then obtain i st where "v i = Some st" "t \<in> set (cs_txids st)"
    by (auto simp: members_def)
  with assms show "t \<in> members (view_without R v) \<union> members (\<lambda>i. if i \<in> A then v i else None)"
    by (cases "i \<in> R") (auto simp: members_def view_without_def)
qed

lemma merge_others_spec:
  assumes inv: "cluster_inv (w_db w)"
    and run: "(if rem = [] then (Inr (0::nat), w)
      else db_write env (\<lambda>fault now. mark_merged fault now rem) w) = (res, w')"
  shows "w' = w\<lparr>w_db := w_db w', w_steps := w_steps w'\<rparr>" "cluster_inv (w_db w')"
    "case res of Inl e \<Rightarrow> active_view (w_db w') = active_view (w_db w)
     | Inr n \<Rightarrow> active_view (w_db w') = view_without (set rem) (active_view (w_db w))"
    "ev_fault env = (\<lambda>_. None) \<Longrightarrow> \<exists>n. res = Inr n"
proof -
  have run': "rem = [] \<and> res = Inr 0 \<and> w' = w \<or> rem \<noteq> [] \<and> w' = step (w\<lparr>w_db := w_db w'\<rparr>) \<and>
      mark_merged (ev_fault env (w_steps w)) (ev_now env (w_steps w)) rem (w_db w) = (res, w_db w')"
    using run by (auto simp: db_write_spec split: if_splits)
  then show "w' = w\<lparr>w_db := w_db w', w_steps := w_steps w'\<rparr>"
    by (auto simp: step_def) (metis world.select_convs world.surjective world.update_convs)
  show "cluster_inv (w_db w')" "case res of Inl e \<Rightarrow> active_view (w_db w') = active_view (w_db w)
     | Inr n \<Rightarrow> active_view (w_db w') = view_without (set rem) (active_view (w_db w))"
    using run' inv close_many_spec [OF inv] by (auto simp: mark_merged_def)
  show "\<exists>n. res = Inr n" if "ev_fault env = (\<lambda>_. None)"
    using run' that by (auto simp: mark_merged_def close_many_def query_def close_many_in_def Let_def split: if_splits)
qed

text \<open>The last step of an upsert: the kept cluster takes the group's chunks.\<close>

lemma upsert_replace:
  assumes inv: "cluster_inv (w_db w1)" and wf: "wf_chunks (mc_chunks m)"
    and k: "k \<in> holders (set (mc_txids m)) v"
    and v1: "active_view (w_db w1) = view_without (holders (set (mc_txids m)) v - {k}) v"
    and ch: "recorded ch v (active_view (w_db w1))"
    and run: "replace_chunks fault now \<lparr>vu_cluster_id = k, vu_chunks = mc_chunks m\<rparr> (w_db w1) = (res, d')"
  shows "cluster_inv d'" "may_regroup (mc_chunks m) v (active_view d')"
    and "recorded (case res of Inl e \<Rightarrow> ch | Inr row \<Rightarrow> mark_upserted row ch) v (active_view d')"
    and "\<exists>R \<subseteq> holders (set (mc_txids m)) v. members (view_without R v) \<subseteq> members (active_view d')"
    and "fault = None \<Longrightarrow> regrouped (mc_chunks m) v (active_view d')"
proof -
  let ?u = "\<lparr>vu_cluster_id = k, vu_chunks = mc_chunks m\<rparr>"
  let ?A = "holders (set (mc_txids m)) v"
  have wf': "wf_chunks (vu_chunks ?u)"
    using wf by simp
  note spec = replace_chunks_spec [OF inv wf' run]
  have vk: "active_view (w_db w1) k \<noteq> None"
    using holders_sub [OF k] by (simp add: v1 view_without_def)
  have e: "active_view d' = view_without (?A - {k}) v" if "res = Inl e" for e
    using spec(2) that v1 by simp
  have row: "cl_status row = Active" "cl_id row = k" "cl_chunks row = mc_chunks m"
    "active_view d' = (view_without ?A v)(k \<mapsto> cluster_state_of row)" if "res = Inr row" for row
    using spec(3-6) [OF that] vk k unfolding v1 by (auto simp: view_without_def)
  have re: "regrouped (mc_chunks m) v (active_view d')" if "res = Inr row" for row
    using k row [OF that] unfolding regrouped_def Let_def mc_txids_def [symmetric]
    by (auto simp: cluster_state_of_def ac_state_def active_cluster_from_def
        intro!: exI [of _ k] exI [of _ "cluster_state_of row"])
  show "cluster_inv d'"
    by (rule spec(1))
  show "may_regroup (mc_chunks m) v (active_view d')"
    using e re by (cases res) (auto simp: may_regroup_def mc_txids_def)
  show "recorded (case res of Inl e \<Rightarrow> ch | Inr row \<Rightarrow> mark_upserted row ch) v (active_view d')"
  proof (cases res)
    case (Inr row)
    have "active_view d' = (active_view (w_db w1))(cl_id row \<mapsto> cluster_state_of row)"
      using spec(6) [OF Inr] row(1,2) [OF Inr] by simp
    then show ?thesis
      using recorded_upserted [OF ch row(1) [OF Inr]] Inr by simp
  qed (use ch e v1 in simp)
  show "\<exists>R \<subseteq> ?A. members (view_without R v) \<subseteq> members (active_view d')"
  proof (cases res)
    case (Inr row)
    have "(view_without ?A v)(k := None) = view_without ?A v"
      using k by (simp add: view_without_def fun_eq_iff)
    then have "members (view_without ?A v) \<subseteq> members (active_view d')"
      unfolding row(4) [OF Inr] members_add by simp
    then show ?thesis
      by blast
  qed (use e in \<open>auto intro!: exI [of _ "?A - {k}"]\<close>)
  show "regrouped (mc_chunks m) v (active_view d')" if "fault = None"
    using replace_chunks_succeeds [OF inv _ wf', of now] vk run re that by auto
qed

lemma upsert_existing:
  assumes inv: "cluster_inv (w_db w)" and wf: "wf_chunks (mc_chunks m)"
    and ids: "set ids = holders (set (mc_txids m)) (active_view (w_db w))" "ids \<noteq> []"
    and run: "upsert env m ids w = (r, w')"
  shows "upsert_effect m w r w' \<and> (ev_fault env = (\<lambda>_. None) \<longrightarrow>
    regrouped (mc_chunks m) (active_view (w_db w)) (active_view (w_db w')))"
proof (cases "find_by_ids (ev_fault env (w_steps w)) ids (w_db w)")
  case (Inl e)
  then have "r = (delta_default, [])" "w' = step w" "ev_fault env \<noteq> (\<lambda>_. None)"
    using run ids(2) by (auto simp: upsert_def db_read_def find_by_ids_def query_def)
  then show ?thesis
    using inv by (auto intro!: upsert_effect_none simp: step_def)
next
  case (Inr rows)
  let ?d = "w_db w" and ?T = "set (mc_txids m)"
  let ?v = "active_view ?d"
  let ?A = "holders ?T ?v"
  note rows = find_holders_spec [OF inv ids(1) Inr]
  have "rows \<noteq> []"
    using rows(1) ids by (metis image_is_empty set_empty)
  then obtain keep where keep: "min_by_key cl_first_seen_at rows = Some keep" "keep \<in> set rows"
    using min_by_key_spec(1) [of cl_first_seen_at rows] min_by_key_spec(2) [of cl_first_seen_at rows]
    by (cases "min_by_key cl_first_seen_at rows") auto
  let ?k = "cl_id keep"
  define det where "det = filter (\<lambda>t. t \<notin> ?T) (concat (map cl_txids rows))"
  define rem where "rem = filter (\<lambda>i. i \<noteq> ?k) (map cl_id rows)"
  define ch where "ch = foldl (\<lambda>s i. mark_removed i s) delta_default rem"
  have k: "?k \<in> ?A" and rem: "set rem = ?A - {?k}"
    using keep(2) rows(1) by (auto simp: rem_def)
  have det: "set det \<subseteq> members ?v - ?T"
    "R \<subseteq> ?A \<Longrightarrow> members ?v \<subseteq> members (view_without R ?v) \<union> ?T \<union> set det" for R
    using rows(3) close_holders_members [of R ?A ?v] unfolding det_def
    by (auto simp: members_def split: if_splits)
  have ch: "recorded ch ?v (view_without (?A - {?k}) ?v)"
    using recorded_removed_all [OF recorded_none, of "\<lambda>i. i" rem ?v] by (simp add: ch_def rem)
  let ?merged = "if rem = [] then (Inr (0::nat), step w)
      else db_write env (\<lambda>fault now. mark_merged fault now rem) (step w)"
  let ?u = "\<lparr>vu_cluster_id = ?k, vu_chunks = mc_chunks m\<rparr>"
  have run1: "(case ?merged of (Inl e, w2) \<Rightarrow> ((delta_default, []), w2)
      | (Inr _, w2) \<Rightarrow> (case db_write env (\<lambda>fault now. replace_chunks fault now ?u) w2 of
            (Inl e, w3) \<Rightarrow> ((ch, det), w3) | (Inr row, w3) \<Rightarrow> ((mark_upserted row ch, det), w3))) = (r, w')"
    using run ids(2) Inr keep(1) unfolding upsert_def db_read_def Let_def rem_def det_def ch_def by simp
  obtain res1 w1 where m1: "?merged = (res1, w1)"
    by force
  have "cluster_inv (w_db (step w))"
    using inv by simp
  note w1 = merge_others_spec [OF this m1, unfolded step_same rem]
  have w1': "w1 = w\<lparr>w_db := w_db w1, w_steps := w_steps w1\<rparr>"
    by (subst w1(1)) (simp add: step_def)
  show ?thesis
  proof (cases res1)
    case e1: (Inl e)
    have "r = (delta_default, [])" "w' = w1"
      using run1 unfolding m1 e1 by simp_all
    then show ?thesis
      using w1 w1' e1 by (auto intro!: upsert_effect_none)
  next
    case ok1: (Inr n)
    have v1: "active_view (w_db w1) = view_without (?A - {?k}) ?v"
      using w1(3) ok1 by simp
    obtain res2 d2 where m2: "replace_chunks (ev_fault env (w_steps w1)) (ev_now env (w_steps w1)) ?u (w_db w1) = (res2, d2)"
      by force
    note spec = upsert_replace [OF w1(2) wf k v1 ch [folded v1] m2]
    have run': "w' = step (w1\<lparr>w_db := d2\<rparr>)"
      "r = (case res2 of Inl e \<Rightarrow> ch | Inr row \<Rightarrow> mark_upserted row ch, det)"
      using run1 m2 unfolding m1 ok1 by (auto simp: db_write_def split: sum.splits)
    have w': "w' = w\<lparr>w_db := w_db w', w_steps := w_steps w'\<rparr>"
      unfolding run'(1) by (subst w1') (simp add: step_def)
    obtain R where "R \<subseteq> ?A" "members (view_without R ?v) \<subseteq> members (active_view d2)"
      using spec(4) by blast
    then have "members ?v \<subseteq> members (active_view d2) \<union> ?T \<union> set det"
      using det(2) [of R] by blast
    then show ?thesis
      using spec(1-3,5) det(1) w' by (simp add: upsert_effect_def Let_def run')
  qed
qed

end
