(* ===== verification/Cluster_Queue.thy ===== *)
theory Cluster_Queue
  imports Cluster_Sync
begin

text \<open>
  The work queue of \<open>handle_candidates_covering\<close>: what one iteration may do, the invariant of the
  loop and the measure that makes it end.
\<close>

section \<open>One iteration\<close>

text \<open>The node answers with the cluster of the transaction it was asked about, in chunks that
  storage keeps.\<close>

definition node_ok :: "env \<Rightarrow> bool" where
  "node_ok env \<longleftrightarrow> (\<forall>n t m. ev_cluster env n t = Inr m \<and> mc_txids m \<noteq> [] \<longrightarrow>
     t \<in> set (mc_txids m) \<and> wf_chunks (mc_chunks m))"

definition no_faults :: "env \<Rightarrow> bool" where
  "no_faults env \<longleftrightarrow> ev_fault env = (\<lambda>_. None)"

definition quiet :: "world \<Rightarrow> world \<Rightarrow> bool" where
  "quiet w w' \<longleftrightarrow> w_snapshot w' = w_snapshot w \<and> w_bus w' = w_bus w \<and> w_log w' = w_log w"

lemma quiet_refl [simp]: "quiet w w"
  and quiet_trans: "quiet w w1 \<Longrightarrow> quiet w1 w2 \<Longrightarrow> quiet w w2"
  by (simp_all add: quiet_def)

lemma quiet_db: "w' = w\<lparr>w_db := d, w_steps := n\<rparr> \<Longrightarrow> quiet w w'"
  by (simp add: quiet_def)

lemma upsert_effect_quiet: "upsert_effect m w r w' \<Longrightarrow> quiet w w'"
  unfolding upsert_effect_def Let_def by (elim conjE) (rule quiet_db)

abbreviation view_of :: "world \<Rightarrow> ClusterSnapshot" where
  "view_of w \<equiv> active_view (w_db w)"

lemma handle_group_cases:
  assumes inv: "cluster_inv (w_db (q_world q))" and wf: "wf_chunks (mc_chunks m)" and ne: "mc_txids m \<noteq> []"
  obtains
    (failed) w where "w_db w = w_db (q_world q)" "quiet (q_world q) w" "\<not> no_faults env"
      "handle_group env m q = q\<lparr>q_out := q_out q \<union> set (mc_txids m), q_world := w\<rparr>"
  | (fresh) w t now where "w_db w = w_db (q_world q)" "quiet (q_world q) w" "mc_txids m = [t]"
      "t \<notin> members (view_of (q_world q))"
      "handle_group env m q = q\<lparr>q_out := q_out q \<union> set (mc_txids m),
         q_fresh := (q_fresh q)(t \<mapsto> \<lparr>nc_chunks = mc_chunks m, nc_first_seen_at = now\<rparr>), q_world := w\<rparr>"
  | (regroup) w r w' where "w_db w = w_db (q_world q)" "quiet (q_world q) w'" "upsert_effect m w r w'"
      "no_faults env \<Longrightarrow> regrouped (mc_chunks m) (view_of (q_world q)) (view_of w')"
      "handle_group env m q = q\<lparr>q_out := q_out q \<union> set (mc_txids m),
         q_fresh := (\<lambda>t. if t \<in> set (mc_txids m) then None else q_fresh q t),
         q_changes := merge (q_changes q) (fst r),
         q_pending := q_pending q @ filter (\<lambda>t. t \<notin> q_out q \<union> set (mc_txids m)) (snd r), q_world := w'\<rparr>"
proof -
  let ?T = "mc_txids m"
  define w1 where "w1 = (step (q_world q))\<lparr>w_ledger :=
      assert_present (ev_push_clk env (w_steps (q_world q))) ?T (w_ledger (q_world q))\<rparr>"
  have w1: "w_db (step w1) = w_db (q_world q)" "w_db w1 = w_db (q_world q)" "quiet (q_world q) (step w1)"
    by (simp_all add: w1_def quiet_def)
  define look where "look = find_active_ids_by_txids (ev_fault env (w_steps w1)) ?T (w_db (q_world q))"
  have eq: "handle_group env m q = (case look of
      Inl e \<Rightarrow> q\<lparr>q_out := q_out q \<union> set ?T, q_world := step w1\<rparr>
    | Inr ids \<Rightarrow>
        if ids = [] \<and> length ?T = 1
        then q\<lparr>q_out := q_out q \<union> set ?T,
               q_fresh := (q_fresh q)(hd ?T \<mapsto> new_cluster (ev_now env (w_steps (step w1))) m), q_world := step w1\<rparr>
        else (case upsert env m ids (step w1) of (r, w3) \<Rightarrow>
               q\<lparr>q_out := q_out q \<union> set ?T, q_fresh := (\<lambda>t. if t \<in> set ?T then None else q_fresh q t),
                 q_changes := merge (q_changes q) (fst r),
                 q_pending := q_pending q @ filter (\<lambda>t. t \<notin> q_out q \<union> set ?T) (snd r), q_world := w3\<rparr>))"
    unfolding handle_group_def db_read_def Let_def w1_def [symmetric] look_def w1(2)
    by (auto split: sum.split prod.split cong: if_cong)
  show ?thesis
  proof (cases look)
    case (Inl e)
    then have "\<not> no_faults env"
      by (auto simp: look_def no_faults_def find_active_ids_by_txids_def query_def split: if_splits)
    then show ?thesis
      using failed [OF w1(1,3)] eq Inl by simp
  next
    case (Inr ids)
    have ids: "set ids = holders (set ?T) (view_of (q_world q))"
      using find_active_ids_spec(1) [OF inv Inr [unfolded look_def]] by (simp add: active_ids_with_holders)
    show ?thesis
    proof (cases "ids = [] \<and> length ?T = 1")
      case True
      then obtain t where t: "?T = [t]"
        by (auto simp: length_Suc_conv)
      have "t \<notin> members (view_of (q_world q))"
        using holders_cover [of t "set ?T" "view_of (q_world q)"] ids True by (auto simp: t)
      then show ?thesis
        using fresh [OF w1(1,3) t, of "ev_now env (w_steps (step w1))"] eq True Inr t by (simp add: new_cluster_def)
    next
      case False
      obtain r w3 where up: "upsert env m ids (step w1) = (r, w3)"
        by (rule prod.exhaust)
      have inv': "cluster_inv (w_db (step w1))"
        using inv w1 by simp
      have ids': "set ids = holders (set ?T) (view_of (step w1))"
        using ids w1 by simp
      have "upsert_effect m (step w1) r w3 \<and> (no_faults env \<longrightarrow> regrouped (mc_chunks m) (view_of (step w1)) (view_of w3))"
      proof (cases "ids = []")
        case True
        then show ?thesis
          using upsert_insert [OF inv' wf, of env r w3] ids' up by (auto simp: no_faults_def)
      next
        case False
        then show ?thesis
          using upsert_existing [OF inv' wf ids' False up] by (simp add: no_faults_def)
      qed
      moreover from this have "quiet (step w1) w3"
        using upsert_effect_quiet by blast
      ultimately show ?thesis
        using regroup [of "step w1" w3 r] w1 eq Inr False up quiet_trans [OF w1(3)] by auto
    qed
  qed
qed
section \<open>The invariant of the loop\<close>

text \<open>\<open>v0\<close> is the map of active clusters when the loop started and \<open>U\<close> the transactions that can ever
  be asked about: the candidates and the members of those clusters.\<close>

definition fresh_ok :: "txid \<Rightarrow> NewCluster \<Rightarrow> bool" where
  "fresh_ok t c \<longleftrightarrow> concat (map ck_txids (nc_chunks c)) = [t] \<and> wf_chunks (nc_chunks c)"

definition queue_inv :: "txid set \<Rightarrow> ClusterSnapshot \<Rightarrow> queue \<Rightarrow> bool" where
  "queue_inv U v0 q \<longleftrightarrow>
    (let v = view_of (q_world q) in
     cluster_inv (w_db (q_world q)) \<and> view_ok v \<and> recorded (q_changes q) v0 v \<and>
     members v \<subseteq> U \<union> q_out q \<and> set (q_pending q) \<subseteq> U \<and> finite (dom (q_fresh q)) \<and>
     (\<forall>t c. q_fresh q t = Some c \<longrightarrow> fresh_ok t c \<and> t \<notin> members v))"

lemma queue_invD:
  assumes "queue_inv U v0 q"
  shows "cluster_inv (w_db (q_world q))" "view_ok (view_of (q_world q))"
    "recorded (q_changes q) v0 (view_of (q_world q))" "members (view_of (q_world q)) \<subseteq> U \<union> q_out q"
    "set (q_pending q) \<subseteq> U" "finite (dom (q_fresh q))"
    "q_fresh q t = Some c \<Longrightarrow> fresh_ok t c \<and> t \<notin> members (view_of (q_world q))"
  using assms by (simp_all add: queue_inv_def Let_def)

lemma handle_group_inv:
  assumes q: "queue_inv U v0 q" and wf: "wf_chunks (mc_chunks m)" and ne: "mc_txids m \<noteq> []"
  shows "queue_inv U v0 (handle_group env m q)" "quiet (q_world q) (q_world (handle_group env m q))"
    "q_out (handle_group env m q) = q_out q \<union> set (mc_txids m)"
proof -
  note D = queue_invD [OF q]
  show "queue_inv U v0 (handle_group env m q)"
    using D(1) wf ne
  proof (cases rule: handle_group_cases [where env = env])
    case (failed w)
    then show ?thesis
      using q by (auto simp: queue_inv_def Let_def)
  next
    case (fresh w t now)
    then show ?thesis
      using q wf by (auto simp: queue_inv_def Let_def fresh_ok_def mc_txids_def)
  next
    case (regroup w r w')
    let ?v = "view_of (q_world q)" and ?v' = "view_of w'"
    have eff: "cluster_inv (w_db w')" "recorded (fst r) ?v ?v'" "may_regroup (mc_chunks m) ?v ?v'"
      "set (snd r) \<subseteq> members ?v - set (mc_txids m)"
      using regroup(1,3) by (simp_all add: upsert_effect_def Let_def)
    have mem: "members ?v' \<subseteq> members ?v \<union> set (mc_txids m)"
      using may_regroup_members [OF eff(3)] by (simp add: mc_txids_def)
    have "view_ok ?v'"
      using may_regroup_view_ok [OF eff(3) D(2) wf] ne by (simp add: mc_txids_def)
    moreover have "recorded (merge (q_changes q) (fst r)) v0 ?v'"
      by (rule recorded_join [OF D(3) eff(2)])
    moreover have "finite (dom (\<lambda>t. if t \<in> set (mc_txids m) then None else q_fresh q t))"
      by (rule finite_subset [OF _ D(6)]) (auto split: if_splits)
    ultimately show ?thesis
      unfolding regroup(5) queue_inv_def Let_def using eff(1,4) D(4,5,7) mem
      by (auto split: if_splits)
  qed
  show "quiet (q_world q) (q_world (handle_group env m q))"
    "q_out (handle_group env m q) = q_out q \<union> set (mc_txids m)"
    using D(1) wf ne by (cases rule: handle_group_cases [where env = env]; simp)+
qed

lemma absent_txid_inv:
  "queue_inv U v0 q \<Longrightarrow> queue_inv U v0 (absent_txid env t q)"
  by (auto simp: queue_inv_def Let_def absent_txid_def)

lemma absent_txid_quiet: "quiet (q_world q) (q_world (absent_txid env t q))"
  by (simp add: quiet_def absent_txid_def)

text \<open>One iteration keeps the invariant and either asks about a transaction of \<open>U\<close> for the last time
  or shortens the queue.\<close>

lemma candidate_step_cases:
  assumes "q_pending q = t # rest"
  obtains (known) "t \<in> q_out q" "candidate_step env q = q\<lparr>q_pending := rest\<rparr>"
  | (gone) "t \<notin> q_out q" "candidate_step env q = absent_txid env t (q\<lparr>q_pending := rest\<rparr>)"
      "(\<exists>x. ev_cluster env (w_steps (q_world q)) t = Inl (TxNotFoundInMempool x)) \<or>
       (\<exists>m. ev_cluster env (w_steps (q_world q)) t = Inr m \<and> mc_txids m = [])"
  | (error) e where "t \<notin> q_out q" "ev_cluster env (w_steps (q_world q)) t = Inl e" "\<nexists>x. e = TxNotFoundInMempool x"
      "candidate_step env q = q\<lparr>q_pending := rest, q_world := step (q_world q)\<rparr>"
  | (group) m where "t \<notin> q_out q" "ev_cluster env (w_steps (q_world q)) t = Inr m" "mc_txids m \<noteq> []"
      "candidate_step env q = handle_group env m (q\<lparr>q_pending := rest\<rparr>)"
proof (cases "t \<in> q_out q")
  case True
  then show ?thesis
    using known assms by (simp add: candidate_step_def)
next
  case out: False
  show ?thesis
  proof (cases "ev_cluster env (w_steps (q_world q)) t")
    case (Inl e)
    then show ?thesis
      using out assms gone error by (cases e) (simp_all add: candidate_step_def)
  next
    case (Inr m)
    then show ?thesis
      using out assms gone group by (cases "mc_txids m = []") (simp_all add: candidate_step_def)
  qed
qed

lemma candidate_step_inv:
  assumes node: "node_ok env" and q: "queue_inv U v0 q" and ne: "q_pending q \<noteq> []" and fin: "finite U"
  shows "queue_inv U v0 (candidate_step env q)" "quiet (q_world q) (q_world (candidate_step env q))"
    and "((card (U - q_out (candidate_step env q)), length (q_pending (candidate_step env q))),
          (card (U - q_out q), length (q_pending q))) \<in> less_than <*lex*> less_than"
proof -
  obtain t rest where t: "q_pending q = t # rest"
    using ne by (cases "q_pending q") simp_all
  let ?q = "q\<lparr>q_pending := rest\<rparr>"
  have q': "queue_inv U v0 ?q"
    using q by (auto simp: queue_inv_def Let_def t)
  have tU: "t \<in> U"
    using queue_invD(5) [OF q] t by simp
  have less: "card (U - out') < card (U - q_out q)" if "t \<notin> q_out q" "q_out q \<subseteq> out'" "t \<in> out'" for out'
    by (rule psubset_card_mono) (use that tU fin in auto)
  have "queue_inv U v0 (candidate_step env q) \<and> quiet (q_world q) (q_world (candidate_step env q)) \<and>
    ((card (U - q_out (candidate_step env q)), length (q_pending (candidate_step env q))),
          (card (U - q_out q), length (q_pending q))) \<in> less_than <*lex*> less_than"
    using t
  proof (cases rule: candidate_step_cases [where env = env])
    case known
    then show ?thesis
      using q' t by simp
  next
    case gone
    then show ?thesis
      using absent_txid_inv [OF q', of env t] absent_txid_quiet [of ?q env t] less [of "insert t (q_out q)"]
      by (simp add: absent_txid_def subset_insertI)
  next
    case (error e)
    then show ?thesis
      using q' t by (auto simp: queue_inv_def Let_def quiet_def)
  next
    case (group m)
    have m: "t \<in> set (mc_txids m)" "wf_chunks (mc_chunks m)"
      using node group(2,3) by (auto simp: node_ok_def)
    show ?thesis
      using group handle_group_inv [OF q' m(2) group(3), of env] less [of "q_out q \<union> set (mc_txids m)"] m(1)
      by simp
  qed
  then show "queue_inv U v0 (candidate_step env q)" "quiet (q_world q) (q_world (candidate_step env q))"
    and "((card (U - q_out (candidate_step env q)), length (q_pending (candidate_step env q))),
          (card (U - q_out q), length (q_pending q))) \<in> less_than <*lex*> less_than"
    by simp_all
qed
section \<open>The loop ends\<close>

lemma queue_loop:
  assumes node: "node_ok env" and fin: "finite U" and q0: "queue_inv U v0 q0" "P q0"
    and keep: "\<And>q. queue_inv U v0 q \<Longrightarrow> P q \<Longrightarrow> q_pending q \<noteq> [] \<Longrightarrow> P (candidate_step env q)"
  obtains q' where "while_option (\<lambda>q. q_pending q \<noteq> []) (candidate_step env) q0 = Some q'"
    "queue_inv U v0 q'" "P q'" "q_pending q' = []" "quiet (q_world q0) (q_world q')"
proof -
  let ?I = "\<lambda>q. queue_inv U v0 q \<and> P q \<and> quiet (q_world q0) (q_world q)"
  let ?b = "\<lambda>q. q_pending q \<noteq> []"
  let ?m = "\<lambda>q. (card (U - q_out q), length (q_pending q))"
  have step: "?I (candidate_step env q)" if "?I q" "?b q" for q
    using that candidate_step_inv(1,2) [OF node _ _ fin] keep quiet_trans by blast
  have "{(t, s). (?I s \<and> ?b s) \<and> t = candidate_step env s} \<subseteq> inv_image (less_than <*lex*> less_than) ?m"
    using candidate_step_inv(3) [OF node _ _ fin] by fastforce
  then have "wf {(t, s). (?I s \<and> ?b s) \<and> t = candidate_step env s}"
    by (rule wf_subset [rotated]) auto
  then obtain q' where q': "while_option ?b (candidate_step env) q0 = Some q'"
    using wf_while_option_Some [of ?I ?b "candidate_step env" q0] step q0 by auto
  moreover have "?I q'"
    by (rule while_option_rule [where P = ?I, OF step q']) (use q0 in simp_all)
  moreover have "q_pending q' = []"
    using while_option_stop [OF q'] by simp
  ultimately show ?thesis
    using that by blast
qed

section \<open>Inserting the remaining singletons\<close>

lemma members_add_fresh: "v k = None \<Longrightarrow> members (v(k \<mapsto> st)) = set (cs_txids st) \<union> members v"
  by (simp add: members_add fun_upd_idem)

lemma add_singletons:
  assumes "map cl_txids cls = map (\<lambda>t. [t]) ts" "distinct ts" "set ts \<inter> members v = {}"
    and "\<forall>cl\<in>set cls. wf_chunks (cl_chunks cl) \<and> v (cl_id cl) = None" "distinct (map cl_id cls)" "view_ok v"
  shows "view_ok (foldl add_entry v cls) \<and> members (foldl add_entry v cls) = members v \<union> set ts \<and>
    v \<subseteq>\<^sub>m foldl add_entry v cls"
  using assms
proof (induction cls arbitrary: v ts)
  case (Cons cl cls)
  obtain t ts' where ts: "ts = t # ts'" "cl_txids cl = [t]" "map cl_txids cls = map (\<lambda>t. [t]) ts'"
    using Cons.prems(1) by (cases ts) auto
  let ?v = "add_entry v cl"
  have none: "v (cl_id cl) = None"
    using Cons.prems(4) by simp
  have mem: "members ?v = insert t (members v)"
    using members_add_fresh [where v = v, OF none] ts(2) by (simp add: add_entry_def cs_txids_of)
  have "view_ok ?v"
    unfolding add_entry_def
    using Cons.prems(3,4,6) ts none by (intro view_ok_add)
      (simp_all add: cs_txids_of cs_chunks_of fun_upd_idem)
  moreover have "\<forall>c\<in>set cls. wf_chunks (cl_chunks c) \<and> ?v (cl_id c) = None"
    using Cons.prems(4,5) by (auto simp: add_entry_def) (metis image_eqI)
  moreover have "v \<subseteq>\<^sub>m ?v"
    using none by (auto simp: add_entry_def map_le_def)
  ultimately show ?case
    using Cons.IH [of ts' ?v] Cons.prems(2,3,5) ts mem map_le_trans by auto
qed simp

lemma insert_many_error:
  assumes "insert_many_with_members faults now new d = (Inl e, d')" "length new \<le> 10000"
  shows "active_view d' = active_view d"
proof (cases "new = []")
  case False
  have "chunks_of MEMPOOL_DELTA_INSERT_CHUNK_SIZE new = [new]"
    using False assms(2) by (simp add: chunks_of_step MEMPOOL_DELTA_INSERT_CHUNK_SIZE_def)
  then have "query (faults 0) (insert_in now new) d = (Inl e, d')"
    using assms(1) by (auto simp: insert_many_with_members_def split: prod.splits sum.splits)
  then show ?thesis
    using query_view by fastforce
qed (use assms in \<open>simp add: insert_many_with_members_def\<close>)

lemma insert_batches_succeed:
  assumes "cluster_inv d" "\<And>c. c \<in> set (concat bs) \<Longrightarrow> wf_chunks (nc_chunks c)"
  shows "\<exists>cls d'. insert_batches (\<lambda>_. None) now k bs d = (Inr cls, d')"
  using assms
proof (induction bs arbitrary: d k)
  case (Cons b bs)
  obtain cls d1 where b: "insert_in now b d = Inr (cls, d1)"
    using insert_in_succeeds [OF Cons.prems(1), of b now] Cons.prems(2) by auto
  obtain cls' d2 where "insert_batches (\<lambda>_. None) now (Suc k) bs d1 = (Inr cls', d2)"
    using Cons.IH [OF insert_in_spec(1) [OF Cons.prems(1) b], of "Suc k"] Cons.prems(2) by auto
  then show ?case
    by (simp add: query_def b)
qed simp

text \<open>\<open>small_failures\<close>: no bulk insert of more than one batch failed among the new log entries.\<close>

definition small_failures :: "LogEntry list \<Rightarrow> bool" where
  "small_failures new \<longleftrightarrow> (\<forall>n. FailedToInsertClusters n \<in> set new \<longrightarrow> n \<le> 10000)"

definition stage_effect :: "ClusterSnapshot \<Rightarrow> world \<Rightarrow> ClusterDeltaSet \<times> world \<Rightarrow> bool" where
  "stage_effect v0 w r \<longleftrightarrow>
    (case r of (ch, w') \<Rightarrow> cluster_inv (w_db w') \<and> view_ok (view_of w') \<and> delta_wf ch \<and>
       w_snapshot w' = w_snapshot w \<and> w_bus w' = w_bus w \<and>
       (\<exists>new. w_log w' = w_log w @ new \<and> (small_failures new \<longrightarrow> recorded ch v0 (view_of w'))))"

definition fresh_batch :: "env \<Rightarrow> queue \<Rightarrow> NewCluster list" where
  "fresh_batch env q = map (\<lambda>t. the (q_fresh q t)) (ev_it_txids env (dom (q_fresh q)))"

lemma fresh_batch_ok:
  assumes "queue_inv U v0 q" "iterates (ev_it_txids env)" "c \<in> set (fresh_batch env q)"
  shows "wf_chunks (nc_chunks c)"
proof -
  obtain t where "t \<in> dom (q_fresh q)" "c = the (q_fresh q t)"
    using assms(2,3) queue_invD(6) [OF assms(1)] by (auto simp: fresh_batch_def iter_simps)
  then show ?thesis
    using queue_invD(7) [OF assms(1)] by (force simp: fresh_ok_def)
qed

lemma fresh_batch_added:
  assumes q: "queue_inv U v0 q" and it: "iterates (ev_it_txids env)"
    and add: "added_to (view_of (q_world q)) cls v'"
    and cls: "map nc_chunks (fresh_batch env q) = map cl_chunks cls @ rest"
  shows "view_ok v'" "view_of (q_world q) \<subseteq>\<^sub>m v'"
    and "rest = [] \<Longrightarrow> members v' = members (view_of (q_world q)) \<union> dom (q_fresh q)"
    and "rest = [] \<Longrightarrow> q_fresh q t = Some c \<Longrightarrow> \<exists>i st. v' i = Some st \<and> cs_chunks st = nc_chunks c"
proof -
  let ?v = "view_of (q_world q)" and ?ks = "ev_it_txids env (dom (q_fresh q))"
  let ?ts = "take (length cls) ?ks"
  note D = queue_invD [OF q]
  have ks: "set ?ks = dom (q_fresh q)" "distinct ?ks"
    using it D(6) by (simp_all add: iter_simps)
  have chunks: "map cl_chunks cls = map (\<lambda>t. nc_chunks (the (q_fresh q t))) ?ts"
    using arg_cong [OF cls, of "take (length cls)"] by (simp add: fresh_batch_def take_map comp_def)
  have len: "length cls \<le> length ?ks" "rest = [] \<Longrightarrow> length cls = length ?ks"
    using arg_cong [OF cls, of length] by (simp_all add: fresh_batch_def)
  have ok: "fresh_ok t (the (q_fresh q t)) \<and> t \<notin> members ?v" if "t \<in> set ?ts" for t
    using in_set_takeD [OF that] ks(1) D(7) by fastforce
  have "map cl_txids cls = map (\<lambda>cs. concat (map ck_txids cs)) (map cl_chunks cls)"
    by (simp add: cl_txids_def)
  also have "\<dots> = map (\<lambda>t. [t]) ?ts"
    unfolding chunks using ok by (simp add: fresh_ok_def)
  finally have txids: "map cl_txids cls = map (\<lambda>t. [t]) ?ts" .
  have "cl_chunks cl \<in> set (map (\<lambda>t. nc_chunks (the (q_fresh q t))) ?ts)" if "cl \<in> set cls" for cl
    using that unfolding chunks [symmetric] by simp
  then have wf: "\<forall>cl\<in>set cls. wf_chunks (cl_chunks cl) \<and> ?v (cl_id cl) = None"
    using ok add by (fastforce simp: fresh_ok_def added_to_def)
  have "view_ok v' \<and> members v' = members ?v \<union> set ?ts \<and> ?v \<subseteq>\<^sub>m v'"
    using add_singletons [OF txids _ _ wf _ D(2)] ks(2) ok add by (auto simp: added_to_def)
  then show "view_ok v'" "?v \<subseteq>\<^sub>m v'"
    and "rest = [] \<Longrightarrow> members v' = members ?v \<union> dom (q_fresh q)"
    using len(2) ks(1) by simp_all
  show "\<exists>i st. v' i = Some st \<and> cs_chunks st = nc_chunks c" if "rest = []" "q_fresh q t = Some c"
  proof -
    have "nc_chunks c \<in> set (map nc_chunks (fresh_batch env q))"
      using that(2) ks(1) by (force simp: fresh_batch_def)
    then have "nc_chunks c \<in> set (map cl_chunks cls)"
      unfolding cls that(1) by simp
    then obtain cl where "cl \<in> set cls" "nc_chunks c = cl_chunks cl"
      by auto
    then show ?thesis
      using add foldl_add_entry_in by (metis added_to_def cs_chunks_of)
  qed
qed
lemma flush_singletons_spec:
  assumes q: "queue_inv U v0 q" and it: "iterates (ev_it_txids env)"
  shows "stage_effect v0 (q_world q) (flush_singletons env q)"
    and "view_of (q_world q) \<subseteq>\<^sub>m view_of (snd (flush_singletons env q))"
    and "no_faults env \<Longrightarrow> members (view_of (snd (flush_singletons env q))) =
      members (view_of (q_world q)) \<union> dom (q_fresh q) \<and> w_log (snd (flush_singletons env q)) = w_log (q_world q)"
    and "no_faults env \<Longrightarrow> q_fresh q t = Some c \<Longrightarrow>
      \<exists>i st. view_of (snd (flush_singletons env q)) i = Some st \<and> cs_chunks st = nc_chunks c"
proof -
  let ?w = "q_world q" and ?b = "fresh_batch env q"
  let ?r = "flush_singletons env q"
  note D = queue_invD [OF q] and wf = fresh_batch_ok [OF q it]
  let ?ins = "insert_many_with_members (\<lambda>k. ev_fault env (w_steps ?w + k)) (ev_now env (w_steps ?w)) ?b (w_db ?w)"
  obtain res d' where ins: "?ins = (res, d')"
    by (rule prod.exhaust)
  obtain cls rest where cls: "cluster_inv d'" "added_to (view_of ?w) cls (active_view d')"
    "map nc_chunks ?b = map cl_chunks cls @ rest" "\<And>x. res = Inr x \<Longrightarrow> x = cls \<and> rest = []"
    using insert_many_with_members_spec [OF D(1) wf ins] by blast
  note added = fresh_batch_added [OF q it cls(2,3)]
  have eq: "?r = (if dom (q_fresh q) = {} then (q_changes q, ?w)
     else (let w1 = ?w\<lparr>w_db := d', w_steps := w_steps ?w + length (chunks_of MEMPOOL_DELTA_INSERT_CHUNK_SIZE ?b)\<rparr>
        in case res of Inr rows \<Rightarrow> (foldl (\<lambda>s row. mark_upserted row s) (q_changes q) rows, w1)
           | Inl e \<Rightarrow> (q_changes q, w1\<lparr>w_log := w_log w1 @ [FailedToInsertClusters (length ?b)]\<rparr>)))"
    unfolding flush_singletons_def fresh_batch_def [symmetric] Let_def ins by simp
  have none: "stage_effect v0 ?w (q_changes q, ?w)"
    using D(1-3) by (auto simp: stage_effect_def recorded_def)
  have fine: "recorded (foldl (\<lambda>s row. mark_upserted row s) (q_changes q) rows) v0 (active_view d')" if "res = Inr rows" for rows
    using recorded_upserted_all [OF D(3), of cls] cls(2,4) that by (auto simp: added_to_def)
  have failed: "recorded (q_changes q) v0 (active_view d')" if "res = Inl e" "length ?b \<le> 10000" for e
    using insert_many_error [OF ins [unfolded that(1)] that(2)] D(3) by simp
  have wf_ch: "delta_wf (q_changes q)"
    using D(3) by (simp add: recorded_def)
  show "stage_effect v0 ?w ?r"
    unfolding eq using none fine failed added(1) cls(1) wf_ch
    by (cases res) (auto simp: stage_effect_def Let_def small_failures_def recorded_def)
  show "view_of ?w \<subseteq>\<^sub>m view_of (snd ?r)"
    unfolding eq using added(2) by (cases res) (simp_all add: Let_def)
  have ok: "\<exists>x. res = Inr x" if "no_faults env"
  proof -
    have "\<exists>x d2. insert_batches (\<lambda>_. None) (ev_now env (w_steps ?w)) 0
        (chunks_of MEMPOOL_DELTA_INSERT_CHUNK_SIZE ?b) (w_db ?w) = (Inr x, d2)"
      by (rule insert_batches_succeed [OF D(1)]) (use wf in \<open>simp add: MEMPOOL_DELTA_INSERT_CHUNK_SIZE_def\<close>)
    then show ?thesis
      using ins that by (auto simp: insert_many_with_members_def no_faults_def)
  qed
  show "members (view_of (snd ?r)) = members (view_of ?w) \<union> dom (q_fresh q) \<and> w_log (snd ?r) = w_log ?w"
    if "no_faults env"
    unfolding eq using ok [OF that] added(3) cls(4) by (auto simp: Let_def)
  show "\<exists>i st. view_of (snd ?r) i = Some st \<and> cs_chunks st = nc_chunks c" if "no_faults env" "q_fresh q t = Some c"
    unfolding eq using ok [OF that(1)] added(4) cls(4) that(2) by (auto simp: Let_def)
qed

definition start_queue :: "txid list \<Rightarrow> txid set \<Rightarrow> world \<Rightarrow> queue" where
  "start_queue cand out w = \<lparr>q_changes = delta_default, q_pending = cand, q_out = out,
     q_fresh = Map.empty, q_world = w\<rparr>"

lemma start_queue_inv:
  assumes "cluster_inv (w_db w)" "view_ok (view_of w)"
  shows "queue_inv (set cand \<union> members (view_of w)) (view_of w) (start_queue cand out w)"
  using assms by (auto simp: queue_inv_def start_queue_def Let_def)

lemma members_finite: "cluster_inv d \<Longrightarrow> finite (members (active_view d))"
proof -
  assume inv: "cluster_inv d"
  have "members (active_view d) \<subseteq> (\<Union>c\<in>set (db_clusters d). set (cs_txids (row_state c d)))"
    using ids_distinct [OF inv] by (auto simp: members_def active_view_Some)
  then show ?thesis
    by (rule finite_subset) simp
qed

text \<open>The queue always returns, with the effect of a stage; an invariant of the loop holds at the
  end.\<close>

lemma handle_candidates_run:
  assumes node: "node_ok env" and it: "iterates (ev_it_txids env)"
    and w: "cluster_inv (w_db w)" "view_ok (view_of w)"
    and P: "P (start_queue cand out w)"
      "\<And>q. queue_inv (set cand \<union> members (view_of w)) (view_of w) q \<Longrightarrow> P q \<Longrightarrow> q_pending q \<noteq> [] \<Longrightarrow> P (candidate_step env q)"
  obtains q where "handle_candidates_covering env cand out w = Some (flush_singletons env q)"
    "queue_inv (set cand \<union> members (view_of w)) (view_of w) q" "P q" "q_pending q = []"
    "stage_effect (view_of w) w (flush_singletons env q)" "quiet w (q_world q)"
proof -
  have fin: "finite (set cand \<union> members (view_of w))"
    using members_finite [OF w(1)] by simp
  show ?thesis
  proof (rule queue_loop [OF node fin start_queue_inv [OF w] P])
    fix q
    assume q: "while_option (\<lambda>q. q_pending q \<noteq> []) (candidate_step env) (start_queue cand out w) = Some q"
      "queue_inv (set cand \<union> members (view_of w)) (view_of w) q" "P q" "q_pending q = []"
      "quiet (q_world (start_queue cand out w)) (q_world q)"
    have "quiet w (q_world q)"
      using q(5) by (simp add: start_queue_def)
    moreover from this have "stage_effect (view_of w) w (flush_singletons env q)"
      using flush_singletons_spec(1) [OF q(2) it] by (auto simp: stage_effect_def quiet_def)
    ultimately show ?thesis
      using q that by (auto simp: handle_candidates_covering_def start_queue_def)
  qed
qed

lemma handle_candidates_effect:
  assumes "node_ok env" "iterates (ev_it_txids env)" "cluster_inv (w_db w)" "view_ok (view_of w)"
  shows "\<exists>r. handle_candidates_covering env cand out w = Some r \<and> stage_effect (view_of w) w r"
  using handle_candidates_run [OF assms, of "\<lambda>_. True" cand out] by blast
section \<open>A steady node\<close>

text \<open>A node whose mempool does not change during the round: \<open>node\<close> maps every resident transaction
  to its cluster, and two clusters that share a transaction are the same.\<close>

definition steady_node :: "env \<Rightarrow> (txid \<rightharpoonup> GetMempoolClusterModel) \<Rightarrow> bool" where
  "steady_node env node \<longleftrightarrow>
    (\<forall>n t. ev_cluster env n t = (case node t of Some m \<Rightarrow> Inr m | None \<Rightarrow> Inl (TxNotFoundInMempool t))) \<and>
    (\<forall>t m. node t = Some m \<longrightarrow> t \<in> set (mc_txids m) \<and> wf_chunks (mc_chunks m) \<and>
       (\<forall>s\<in>set (mc_txids m). node s = Some m))"

lemma steady_nodeD:
  assumes "steady_node env node"
  shows "ev_cluster env n t = (case node t of Some m \<Rightarrow> Inr m | None \<Rightarrow> Inl (TxNotFoundInMempool t))"
    and "node t = Some m \<Longrightarrow> t \<in> set (mc_txids m)" "node t = Some m \<Longrightarrow> wf_chunks (mc_chunks m)"
    and "node t = Some m \<Longrightarrow> s \<in> set (mc_txids m) \<Longrightarrow> node s = Some m"
  using assms unfolding steady_node_def by blast+

lemma steady_node_ok: "steady_node env node \<Longrightarrow> node_ok env"
  unfolding node_ok_def using steady_nodeD(1-3) by (fastforce split: option.splits)

text \<open>A transaction has found its place when its node cluster is buffered or active.\<close>

definition placed :: "(txid \<rightharpoonup> GetMempoolClusterModel) \<Rightarrow> queue \<Rightarrow> txid \<Rightarrow> bool" where
  "placed node q t \<longleftrightarrow> (\<forall>m. node t = Some m \<longrightarrow>
     (\<exists>c. q_fresh q t = Some c \<and> nc_chunks c = mc_chunks m) \<or>
     (\<exists>i st. view_of (q_world q) i = Some st \<and> cs_chunks st = mc_chunks m))"

definition steady_inv :: "(txid \<rightharpoonup> GetMempoolClusterModel) \<Rightarrow> txid list \<Rightarrow> ClusterSnapshot \<Rightarrow> queue \<Rightarrow> bool" where
  "steady_inv node cand v0 q \<longleftrightarrow>
    (\<forall>t\<in>q_out q. placed node q t) \<and> set cand \<subseteq> set (q_pending q) \<union> q_out q \<and>
    (\<forall>t\<in>members v0. node t \<noteq> None \<longrightarrow> t \<in> members (view_of (q_world q)) \<union> dom (q_fresh q) \<union> set (q_pending q))"

lemma members_of_chunks:
  "v i = Some st \<Longrightarrow> cs_chunks st = mc_chunks m \<Longrightarrow> t \<in> set (mc_txids m) \<Longrightarrow> t \<in> members v"
  unfolding members_def cs_txids_def mc_txids_def by fastforce

lemma placed_found:
  assumes "placed node q t" "node t \<noteq> None" "steady_node env node"
  shows "t \<in> members (view_of (q_world q)) \<union> dom (q_fresh q)"
proof -
  obtain m where m: "node t = Some m" "t \<in> set (mc_txids m)"
    using assms(2) steady_nodeD(2) [OF assms(3)] by blast
  then have "(\<exists>i st. view_of (q_world q) i = Some st \<and> cs_chunks st = mc_chunks m) \<or> t \<in> dom (q_fresh q)"
    using assms(1) by (auto simp: placed_def)
  then show ?thesis
    using m(2) members_of_chunks by blast
qed

lemma regrouped_other:
  assumes re: "regrouped (mc_chunks m) v v'" and i: "v i = Some st" and apart: "set (cs_txids st) \<inter> set (mc_txids m) = {}"
  shows "v' i = Some st"
proof -
  have "i \<notin> holders (set (mc_txids m)) v"
    using i apart by (simp add: holders_def)
  then show ?thesis
    using re i unfolding regrouped_def Let_def mc_txids_def [symmetric] by (auto simp: view_without_def)
qed

lemma regrouped_group:
  "regrouped (mc_chunks m) v v' \<Longrightarrow> \<exists>i st. v' i = Some st \<and> cs_chunks st = mc_chunks m"
  unfolding regrouped_def Let_def by fastforce

lemma steady_apart:
  assumes "steady_node env node" "node s = Some m'" "node t = Some m" "s \<notin> set (mc_txids m)"
  shows "set (mc_txids m') \<inter> set (mc_txids m) = {}"
proof (rule ccontr)
  assume "set (mc_txids m') \<inter> set (mc_txids m) \<noteq> {}"
  then obtain u where "u \<in> set (mc_txids m')" "u \<in> set (mc_txids m)"
    by blast
  then have "Some m' = Some m"
    using steady_nodeD(4) [OF assms(1)] assms(2,3) by metis
  then show False
    using steady_nodeD(2) [OF assms(1,2)] assms(4) by blast
qed

lemma steady_regroup:
  assumes st: "steady_node env node" and t: "node t = Some m" and q: "queue_inv U v0 q"
    and inv: "steady_inv node cand v0 (q\<lparr>q_pending := t # q_pending q\<rparr>)"
    and re: "regrouped (mc_chunks m) (view_of (q_world q)) (view_of w')"
    and eff: "members (view_of (q_world q)) \<subseteq> members (view_of w') \<union> set (mc_txids m) \<union> set det"
    and q': "q' = q\<lparr>q_out := q_out q \<union> set (mc_txids m),
         q_fresh := (\<lambda>t. if t \<in> set (mc_txids m) then None else q_fresh q t), q_changes := ch,
         q_pending := q_pending q @ filter (\<lambda>t. t \<notin> q_out q \<union> set (mc_txids m)) det, q_world := w'\<rparr>"
  shows "steady_inv node cand v0 q'"
proof -
  let ?T = "set (mc_txids m)" and ?v = "view_of (q_world q)"
  have I: "placed node q s" if "s \<in> q_out q" for s
    using inv that by (simp add: steady_inv_def placed_def)
  obtain k stk where k: "view_of w' k = Some stk" "cs_chunks stk = mc_chunks m"
    using regrouped_group [OF re] by blast
  have T: "?T \<subseteq> members (view_of w')"
    using members_of_chunks [where v = "view_of w'", OF k] by blast
  have stay: "placed node q' s" if s: "s \<in> q_out q" "s \<notin> ?T" for s
    unfolding placed_def
  proof (intro allI impI)
    fix m'
    assume m': "node s = Some m'"
    consider c where "q_fresh q s = Some c" "nc_chunks c = mc_chunks m'"
      | i st where "?v i = Some st" "cs_chunks st = mc_chunks m'"
      using I [OF s(1)] m' by (auto simp: placed_def)
    then show "(\<exists>c. q_fresh q' s = Some c \<and> nc_chunks c = mc_chunks m') \<or>
        (\<exists>i st. view_of (q_world q') i = Some st \<and> cs_chunks st = mc_chunks m')"
    proof cases
      case 2
      then have "view_of w' i = Some st"
        using regrouped_other [OF re] steady_apart [OF st m' t s(2)] by (simp add: cs_txids_def mc_txids_def)
      with 2 show ?thesis
        by (auto simp: q')
    qed (use s(2) in \<open>simp add: q'\<close>)
  qed
  have "placed node q' s" if "s \<in> q_out q'" for s
  proof (cases "s \<in> ?T")
    case True
    then have "node s = Some m"
      by (rule steady_nodeD(4) [OF st t])
    with k show ?thesis
      by (auto simp: placed_def q')
  qed (use that stay in \<open>simp add: q'\<close>)
  moreover have "s \<in> members (view_of w') \<union> dom (q_fresh q') \<union> set (q_pending q')"
    if s: "s \<in> members v0" "node s \<noteq> None" for s
  proof (cases "s \<in> ?T")
    case False
    have "s \<in> members ?v \<union> dom (q_fresh q) \<union> set (t # q_pending q)"
      using inv s by (simp add: steady_inv_def)
    moreover have "s \<noteq> t"
      using False steady_nodeD(2) [OF st t] by blast
    moreover have "s \<in> members (view_of w') \<union> dom (q_fresh q')" if "s \<in> q_out q"
      using placed_found [OF stay [OF that False] s(2) st] by (simp add: q')
    ultimately show ?thesis
      using eff False by (auto simp: q')
  qed (use T in blast)
  ultimately show ?thesis
    using inv steady_nodeD(2) [OF st t] unfolding steady_inv_def by (auto simp: q')
qed

lemma steady_step:
  assumes st: "steady_node env node" and nf: "no_faults env" and q: "queue_inv U v0 q"
    and inv: "steady_inv node cand v0 q" and ne: "q_pending q \<noteq> []"
  shows "steady_inv node cand v0 (candidate_step env q)"
proof -
  obtain t rest where t: "q_pending q = t # rest"
    using ne by (cases "q_pending q") simp_all
  let ?q = "q\<lparr>q_pending := rest\<rparr>"
  have q': "queue_inv U v0 ?q"
    using q t by (auto simp: queue_inv_def Let_def)
  have found: "t \<in> members (view_of (q_world q)) \<union> dom (q_fresh q)" if "t \<in> q_out q" "node t \<noteq> None"
    using inv that placed_found [OF _ that(2) st] by (simp add: steady_inv_def)
  have answer: "ev_cluster env n t = (case node t of Some m \<Rightarrow> Inr m | None \<Rightarrow> Inl (TxNotFoundInMempool t))" for n
    by (rule steady_nodeD(1) [OF st])
  show ?thesis
    using t
  proof (cases rule: candidate_step_cases [where env = env])
    case known
    then show ?thesis
      using inv found t by (auto simp: steady_inv_def placed_def)
  next
    case gone
    have "node t = None"
      using gone(3) steady_nodeD(2) [OF st, of t] unfolding answer by (cases "node t") auto
    then show ?thesis
      using gone(2) inv t by (auto simp: steady_inv_def placed_def absent_txid_def)
  next
    case (error e)
    then show ?thesis
      unfolding answer by (auto split: option.splits)
  next
    case (group m)
    have m: "node t = Some m" "t \<in> set (mc_txids m)" "wf_chunks (mc_chunks m)"
      using group(2) steady_nodeD(2,3) [OF st, of t] unfolding answer by (auto split: option.splits)
    show ?thesis
      using queue_invD(1) [OF q'] m(3) group(3)
    proof (cases rule: handle_group_cases [where env = env])
      case (fresh w s now)
      then have "s = t"
        using m(2) by simp
      then show ?thesis
        using fresh inv t m(1) unfolding group(4) by (auto simp: steady_inv_def placed_def split: if_splits)
    next
      case (regroup w r w')
      have "steady_inv node cand v0 (?q\<lparr>q_pending := t # q_pending ?q\<rparr>)"
        using inv t by (simp add: steady_inv_def placed_def)
      then show ?thesis
        using steady_regroup [OF st m(1) q' _ regroup(4) [OF nf] _ regroup(5)] regroup(1,3)
        unfolding group(4) by (auto simp: upsert_effect_def Let_def)
    qed (use nf in simp)
  qed
qed

lemma handle_candidates_steady:
  assumes st: "steady_node env node" and nf: "no_faults env" and it: "iterates (ev_it_txids env)"
    and w: "cluster_inv (w_db w)" "view_ok (view_of w)" and out: "\<forall>t\<in>out. node t = None"
  shows "\<exists>ch w'. handle_candidates_covering env cand out w = Some (ch, w') \<and> w_log w' = w_log w \<and>
    stage_effect (view_of w) w (ch, w') \<and>
    (\<forall>t\<in>set cand. \<forall>m. node t = Some m \<longrightarrow> (\<exists>i st. view_of w' i = Some st \<and> cs_chunks st = mc_chunks m)) \<and>
    (\<forall>t\<in>members (view_of w). node t \<noteq> None \<longrightarrow> t \<in> members (view_of w'))"
proof (rule handle_candidates_run [OF steady_node_ok [OF st] it w,
      where P = "steady_inv node cand (view_of w)" and cand = cand and out = out])
  show "steady_inv node cand (view_of w) (start_queue cand out w)"
    using out by (auto simp: steady_inv_def start_queue_def placed_def)
next
  fix q
  assume q: "handle_candidates_covering env cand out w = Some (flush_singletons env q)"
    "queue_inv (set cand \<union> members (view_of w)) (view_of w) q" "steady_inv node cand (view_of w) q"
    "q_pending q = []" "stage_effect (view_of w) w (flush_singletons env q)" "quiet w (q_world q)"
  obtain ch w' where r: "flush_singletons env q = (ch, w')"
    by (rule prod.exhaust)
  note flush = flush_singletons_spec [OF q(2) it, unfolded r snd_conv]
  have "\<exists>i st. view_of w' i = Some st \<and> cs_chunks st = mc_chunks m" if t: "t \<in> set cand" "node t = Some m" for t m
  proof -
    have "placed node q t"
      using q(3,4) t(1) by (auto simp: steady_inv_def)
    then consider c where "q_fresh q t = Some c" "nc_chunks c = mc_chunks m"
      | i st where "view_of (q_world q) i = Some st" "cs_chunks st = mc_chunks m"
      using t(2) by (auto simp: placed_def)
    then show ?thesis
    proof cases
      case 1
      then show ?thesis
        using flush(4) [OF nf] by metis
    next
      case 2
      then show ?thesis
        using flush(2) by (metis domI map_le_def)
    qed
  qed
  moreover have "t \<in> members (view_of w')" if "t \<in> members (view_of w)" "node t \<noteq> None" for t
    using that q(3,4) flush(3) [OF nf] by (auto simp: steady_inv_def)
  moreover have "w_log w' = w_log w"
    using flush(3) [OF nf] q(6) by (simp add: quiet_def)
  ultimately show ?thesis
    using q(1,5) r by auto
qed (use steady_step [OF st nf] in blast)

end
