(* ===== verification/Cluster_Round.thy ===== *)
theory Cluster_Round
  imports Cluster_Queue
begin

text \<open>
  The stages of a sync round and of a mined block, composed, and the properties of the cluster
  service: the snapshot stays level with the tables, clusters stay disjoint, rounds return, and
  candidates end where the node says they belong.
\<close>

section \<open>Composing stages\<close>

lemma stage_effectD:
  assumes "stage_effect v0 w (ch, w')"
  shows "cluster_inv (w_db w')" "view_ok (view_of w')" "delta_wf ch"
  using assms by (simp_all add: stage_effect_def)

lemma stage_none: "cluster_inv (w_db w') \<Longrightarrow> view_ok (view_of w) \<Longrightarrow> view_of w' = view_of w \<Longrightarrow> quiet w w' \<Longrightarrow>
    stage_effect (view_of w) w (delta_default, w')"
  using delta_log.good_none by (auto simp: stage_effect_def quiet_def)

lemma small_failures_append: "small_failures (a @ b) \<longleftrightarrow> small_failures a \<and> small_failures b"
  by (auto simp: small_failures_def)

lemma stage_join:
  assumes "stage_effect v0 w (a, w1)" "stage_effect (view_of w1) w1 (b, w2)"
  shows "stage_effect v0 w (merge a b, w2)"
proof -
  obtain n1 where 1: "w_log w1 = w_log w @ n1" "small_failures n1 \<Longrightarrow> recorded a v0 (view_of w1)"
    using assms(1) by (auto simp: stage_effect_def)
  obtain n2 where 2: "w_log w2 = w_log w1 @ n2" "small_failures n2 \<Longrightarrow> recorded b (view_of w1) (view_of w2)"
    using assms(2) by (auto simp: stage_effect_def)
  have "\<exists>new. w_log w2 = w_log w @ new \<and> (small_failures new \<longrightarrow> recorded (merge a b) v0 (view_of w2))"
    using 1 2 recorded_join by (intro exI [of _ "n1 @ n2"]) (auto simp: small_failures_append)
  then show ?thesis
    using assms delta_log.good_join by (auto simp: stage_effect_def)
qed

text \<open>A stage that goes on by closing clusters and recording their removal.\<close>

lemma stage_extend:
  assumes "stage_effect v0 w (a, w1)" "cluster_inv (w_db w2)" "view_of w2 = view_without (f ` set xs) (view_of w1)" "quiet w1 w2"
  shows "stage_effect v0 w (foldl (\<lambda>s x. mark_removed (f x) s) a xs, w2)"
proof -
  have wf: "delta_wf (foldl (\<lambda>s x. mark_removed (f x) s) a xs)"
    using stage_effectD(3) [OF assms(1)] by (induction xs arbitrary: a) (simp_all add: delta_wf_mark_removed)
  show ?thesis
    using assms wf view_ok_without recorded_removed_all [of a v0 "view_of w1" f xs]
    by (auto simp: stage_effect_def quiet_def)
qed

lemma stage_keep:
  assumes "stage_effect v0 w (a, w1)" "cluster_inv (w_db w2)" "view_of w2 = view_of w1" "quiet w1 w2"
  shows "stage_effect v0 w (a, w2)"
  using stage_extend [of v0 w a w1 w2 id "[]"] assms by simp

text \<open>A write of one of the closing calls, whatever its outcome.\<close>

lemma db_write_quiet: "db_write env f w = (res, w') \<Longrightarrow> quiet w w'"
  by (auto simp: db_write_spec quiet_def)

lemma stage_close_write:
  assumes st: "stage_effect v0 w (a, w1)" and run: "db_write env f w1 = (res, w2)"
    and inv: "\<And>fault now res d'. f fault now (w_db w1) = (res, d') \<Longrightarrow> cluster_inv d'"
    and view: "\<And>fault now res d'. f fault now (w_db w1) = (res, d') \<Longrightarrow>
      (case res of Inl e \<Rightarrow> active_view d' = view_of w1 | Inr (n :: nat) \<Rightarrow> active_view d' = view_without (g ` set xs) (view_of w1))"
  shows "stage_effect v0 w (case res of Inl (e :: RepoError) \<Rightarrow> a | Inr n \<Rightarrow> foldl (\<lambda>s x. mark_removed (g x) s) a xs, w2)"
proof -
  obtain d' where d': "f (ev_fault env (w_steps w1)) (ev_now env (w_steps w1)) (w_db w1) = (res, d')" "w2 = step (w1\<lparr>w_db := d'\<rparr>)"
    using run by (auto simp: db_write_spec)
  show ?thesis
    using stage_keep [OF st, of w2] stage_extend [OF st, of w2 g xs] inv [OF d'(1)] view [OF d'(1)] db_write_quiet [OF run]
    by (cases res) (simp_all add: d'(2))
qed

section \<open>Mined clusters\<close>

definition mined_part :: "MinedBlock \<Rightarrow> ClusterChunk \<Rightarrow> ClusterChunk list" where
  "mined_part block chunk =
    (if \<forall>t\<in>set (ck_txids chunk). block_contains block t then [chunk]
     else if \<exists>t\<in>set (ck_txids chunk). block_contains block t
     then [split_chunk block (filter (block_contains block) (ck_txids chunk))] else [])"

lemma trim_chunks:
  "foldl (trim_chunk block) (mined, pending) chunks =
    (mined @ concat (map (mined_part block) chunks),
     pending @ filter (\<lambda>t. \<not> block_contains block t) (concat (map ck_txids chunks)))"
  by (induction chunks arbitrary: mined pending)
    (auto simp: trim_chunk_def mined_part_def Let_def filter_empty_conv)

lemma mined_trim_new_eq:
  "mined_trim_new cluster block = \<lparr>mt_cluster_id = cl_id cluster,
     mt_mined = concat (map (mined_part block) (cl_chunks cluster)),
     mt_pending = filter (\<lambda>t. \<not> block_contains block t) (cl_txids cluster)\<rparr>"
  by (simp add: mined_trim_new_def trim_chunks cl_txids_def)

lemma mined_part_txids: "concat (map ck_txids (mined_part block chunk)) = filter (block_contains block) (ck_txids chunk)"
  by (auto simp: mined_part_def split_chunk_def filter_empty_conv filter_id_conv)

lemma mined_part_wf:
  assumes "wf_chunks chunks"
  shows "wf_chunks (concat (map (mined_part block) chunks))"
proof -
  have "length (concat (map (mined_part block) chunks)) \<le> length chunks"
    by (induction chunks) (auto simp: mined_part_def)
  moreover have "is_u64 (ck_fee_sats c) \<and> is_u64 (ck_weight c)"
    if "c \<in> set (concat (map (mined_part block) chunks))" for c
    using that assms by (auto simp: mined_part_def wf_chunks_def split_chunk_def is_u64_u64_of split: if_splits)
  ultimately show ?thesis
    using assms by (auto simp: wf_chunks_def)
qed

lemma find_active_clusters_spec:
  assumes inv: "cluster_inv (w_db w)" and run: "find_active_clusters_containing env txids w = (clusters, w1)"
  shows "w_db w1 = w_db w" "quiet w w1"
    and "cl \<in> set clusters \<Longrightarrow> view_of w (cl_id cl) = Some (cluster_state_of cl)"
    and "no_faults env \<Longrightarrow> cl_id ` set clusters = holders (set txids) (view_of w)"
proof -
  let ?look = "find_active_ids_by_txids (ev_fault env (w_steps w)) txids (w_db w)"
  have "w_db w1 = w_db w \<and> quiet w w1 \<and>
      (\<forall>cl\<in>set clusters. view_of w (cl_id cl) = Some (cluster_state_of cl)) \<and>
      (no_faults env \<longrightarrow> cl_id ` set clusters = holders (set txids) (view_of w))"
  proof (cases ?look)
    case (Inl e)
    then have "\<not> no_faults env"
      by (auto simp: no_faults_def find_active_ids_by_txids_def query_def split: if_splits)
    then show ?thesis
      using run Inl by (auto simp: find_active_clusters_containing_def db_read_def quiet_def)
  next
    case (Inr ids)
    have ids: "set ids = holders (set txids) (view_of w)"
      using find_active_ids_spec(1) [OF inv Inr] by (simp add: active_ids_with_holders)
    show ?thesis
    proof (cases "ids = []")
      case True
      then show ?thesis
        using run Inr ids by (auto simp: find_active_clusters_containing_def db_read_def quiet_def)
    next
      case False
      show ?thesis
      proof (cases "find_by_ids (ev_fault env (Suc (w_steps w))) ids (w_db w)")
        case (Inl e)
        then have "\<not> no_faults env"
          by (auto simp: no_faults_def find_by_ids_def query_def)
        then show ?thesis
          using run Inr False Inl by (auto simp: find_active_clusters_containing_def db_read_def quiet_def step_def)
      next
        case rows: (Inr rows)
        have "clusters = rows" "w_db w1 = w_db w" "quiet w w1"
          using run Inr False rows by (auto simp: find_active_clusters_containing_def db_read_def quiet_def step_def)
        then show ?thesis
          using find_holders_spec(1,2) [OF inv ids rows] by blast
      qed
    qed
  qed
  then show "w_db w1 = w_db w" "quiet w w1"
    and "cl \<in> set clusters \<Longrightarrow> view_of w (cl_id cl) = Some (cluster_state_of cl)"
    and "no_faults env \<Longrightarrow> cl_id ` set clusters = holders (set txids) (view_of w)"
    by blast+
qed

lemma confirm_full_effect:
  assumes "cluster_inv (w_db w)" "view_ok (view_of w)"
  shows "stage_effect (view_of w) w (confirm_full env ids t w)"
proof (cases "ids = []")
  case True
  then show ?thesis
    using assms by (auto simp: confirm_full_def intro: stage_none)
next
  case False
  obtain res w' where run: "db_write env (\<lambda>fault now. confirm_many fault now ids t) w = (res, w')"
    by (rule prod.exhaust)
  have start: "stage_effect (view_of w) w (delta_default, w)"
    using assms by (simp add: stage_none)
  have "stage_effect (view_of w) w (case res of Inl e \<Rightarrow> delta_default
      | Inr n \<Rightarrow> foldl (\<lambda>s i. mark_removed i s) delta_default ids, w')"
    by (rule stage_close_write [OF start run, where g = "\<lambda>i. i", unfolded image_ident])
      (rule confirm_many_spec [OF assms(1)]; assumption)+
  then show ?thesis
    using False run by (cases res) (simp_all add: confirm_full_def)
qed

lemma confirm_mined_inner_effect:
  assumes node: "node_ok env" and it: "iterates (ev_it_txids env)"
    and w: "cluster_inv (w_db w)" "view_ok (view_of w)"
  shows "\<exists>r. confirm_mined_inner env block w = Some r \<and> stage_effect (view_of w) w r"
proof -
  obtain clusters w1 where find: "find_active_clusters_containing env (mb_txids block) w = (clusters, w1)"
    by (rule prod.exhaust)
  note found = find_active_clusters_spec [OF w(1) find]
  define is_full where "is_full = (\<lambda>cluster. \<forall>txid \<in> set (cl_txids cluster). block_contains block txid)"
  define partial where "partial = filter (\<lambda>c. \<not> is_full c) clusters"
  obtain ch w2 where full: "confirm_full env (map cl_id (filter is_full clusters)) (mb_confirmed_at block) w1 = (ch, w2)"
    by (rule prod.exhaust)
  have "stage_effect (view_of w1) w1 (ch, w2)"
    using confirm_full_effect [of w1 env "map cl_id (filter is_full clusters)" "mb_confirmed_at block"] w found(1) full by simp
  then have st2: "stage_effect (view_of w) w (ch, w2)"
    using found(1,2) by (auto simp: stage_effect_def quiet_def)
  define trims where "trims = map (\<lambda>cluster. mined_trim_new cluster block) partial"
  have eq: "confirm_mined_inner env block w = (if partial = [] then Some (ch, w2)
      else (case db_write env (\<lambda>fault now. trim_and_confirm_many fault now (map as_update trims) (mb_confirmed_at block)) w2 of
          (Inl e, w3) \<Rightarrow> Some (ch, w3)
        | (Inr _, w3) \<Rightarrow> map_option (\<lambda>(sync_changes, w4). (merge (foldl (\<lambda>s trim. mark_removed (mt_cluster_id trim) s) ch trims) sync_changes, w4))
            (handle_candidates env (concat (map mt_pending trims)) w3)))"
    unfolding confirm_mined_inner_def find prod.case Let_def is_full_def [symmetric] full trims_def partial_def ..
  show ?thesis
  proof (cases "partial = []")
    case True
    then show ?thesis
      using eq st2 by simp
  next
    case False
    have wf: "\<forall>u\<in>set (map as_update trims). wf_chunks (vu_chunks u)"
    proof -
      have "wf_chunks (cl_chunks cl)" if "cl \<in> set partial" for cl
      proof -
        have "view_of w (cl_id cl) = Some (cluster_state_of cl)"
          using found(3) that by (simp add: partial_def)
        then have "wf_chunks (cs_chunks (cluster_state_of cl))"
          using w(2) unfolding view_ok_def by blast
        then show ?thesis
          by (simp add: cs_chunks_of)
      qed
      then show ?thesis
        by (auto simp: trims_def as_update_def mined_trim_new_eq intro: mined_part_wf)
    qed
    obtain res w3 where run: "db_write env (\<lambda>fault now. trim_and_confirm_many fault now (map as_update trims) (mb_confirmed_at block)) w2 = (res, w3)"
      by (rule prod.exhaust)
    have ids: "vu_cluster_id ` set (map as_update trims) = mt_cluster_id ` set trims"
      by (simp add: as_update_def image_image)
    have st3: "stage_effect (view_of w) w (case res of Inl e \<Rightarrow> ch | Inr n \<Rightarrow> foldl (\<lambda>s trim. mark_removed (mt_cluster_id trim) s) ch trims, w3)"
      by (rule stage_close_write [OF st2 run, where g = mt_cluster_id and xs = trims, folded ids])
        (rule trim_and_confirm_many_spec(1) [OF stage_effectD(1) [OF st2]]
            trim_and_confirm_many_spec(2) [OF stage_effectD(1) [OF st2] _ wf]; assumption)+
    show ?thesis
    proof (cases res)
      case (Inl e)
      then show ?thesis
        using eq False run st3 by simp
    next
      case (Inr n)
      obtain b w4 where hc: "handle_candidates env (concat (map mt_pending trims)) w3 = Some (b, w4)"
        "stage_effect (view_of w3) w3 (b, w4)"
        using handle_candidates_effect [OF node it, of w3] stage_effectD(1,2) [OF st3]
        by (force simp: handle_candidates_def)
      have "confirm_mined_inner env block w = Some (merge (foldl (\<lambda>s trim. mark_removed (mt_cluster_id trim) s) ch trims) b, w4)"
        unfolding eq using False run Inr hc(1) by simp
      then show ?thesis
        using stage_join [OF st3 [unfolded Inr sum.case] hc(2)] by blast
    qed
  qed
qed
lemma confirm_blocks_effect:
  assumes node: "node_ok env" and it: "iterates (ev_it_txids env)" and st: "stage_effect v0 w0 (ch, w)"
  shows "\<exists>r. confirm_blocks env blocks ch w = Some r \<and> stage_effect v0 w0 r"
  using st
proof (induction blocks arbitrary: ch w)
  case (Cons block blocks)
  obtain b w1 where b: "confirm_mined_inner env block w = Some (b, w1)" "stage_effect (view_of w) w (b, w1)"
    using confirm_mined_inner_effect [OF node it stage_effectD(1,2) [OF Cons.prems], of block] by auto
  show ?case
    using Cons.IH [OF stage_join [OF Cons.prems b(2)]] b(1) by simp
qed simp

lemma step_effect:
  assumes "cluster_inv (w_db w)" "view_ok (view_of w)"
  shows "stage_effect (view_of w) w (delta_default, w)" "stage_effect (view_of w) w (delta_default, step w)"
    "stage_effect (view_of w) w (delta_default, step (step w))"
    "stage_effect (view_of w) w (delta_default, step (step (step w)))"
  using assms by (simp_all add: stage_none quiet_def)

lemma handle_confirmed_effect:
  assumes node: "node_ok env" and it: "iterates (ev_it_txids env)"
    and w: "cluster_inv (w_db w)" "view_ok (view_of w)"
  shows "\<exists>r. handle_confirmed env txids w = Some r \<and> stage_effect (view_of w) w r"
  using step_effect [OF w] confirm_blocks_effect [OF node it step_effect(4) [OF w]]
  by (auto simp: handle_confirmed_def db_read_def split: sum.split)

section \<open>Evicted clusters\<close>

lemma evict_scan_spec:
  "foldl (evict_scan evicted live) (emptied, survivors) clusters =
    (let hit = filter (\<lambda>c. cl_status c = Active \<and> (\<exists>t\<in>set (cl_txids c). t \<in> evicted)) clusters;
         left = (\<lambda>c. filter (\<lambda>t. t \<notin> evicted \<and> t \<in> live) (cl_txids c))
     in (emptied @ map cl_id (filter (\<lambda>c. left c = []) hit), survivors @ concat (map left hit)))"
  by (induction clusters arbitrary: emptied survivors) (auto simp: evict_scan_def Let_def)

lemma handle_evicted_effect:
  assumes node: "node_ok env" and it: "iterates (ev_it_txids env)"
    and w: "cluster_inv (w_db w)" "view_ok (view_of w)"
  shows "\<exists>r. handle_evicted env txids w = Some r \<and> stage_effect (view_of w) w r"
proof -
  have body: "\<exists>r. (case (if emptied = [] then (delta_default, w2)
          else (case db_write env (\<lambda>fault now. mark_evicted fault now emptied) w2 of
              (Inr _, w3) \<Rightarrow> (foldl (\<lambda>s i. mark_removed i s) delta_default emptied, w3)
            | (Inl e, w3) \<Rightarrow> (delta_default, w3))) of
        (changes, w3) \<Rightarrow>
          (if survivors = [] then Some (changes, w3)
           else map_option (\<lambda>(extra, w4). (merge changes extra, w4)) (handle_candidates_covering env survivors out w3))) = Some r
      \<and> stage_effect (view_of w) w r"
    if st2: "stage_effect (view_of w) w (delta_default, w2)" for emptied survivors out w2
  proof -
    let ?closed = "if emptied = [] then (delta_default, w2)
          else (case db_write env (\<lambda>fault now. mark_evicted fault now emptied) w2 of
              (Inr _, w3) \<Rightarrow> (foldl (\<lambda>s i. mark_removed i s) delta_default emptied, w3)
            | (Inl e, w3) \<Rightarrow> (delta_default, w3))"
    obtain ch w3 where closed: "?closed = (ch, w3)"
      by (rule prod.exhaust)
    have st3: "stage_effect (view_of w) w (ch, w3)"
    proof (cases "emptied = []")
      case True
      then show ?thesis
        using closed st2 by simp
    next
      case False
      obtain res w' where run: "db_write env (\<lambda>fault now. mark_evicted fault now emptied) w2 = (res, w')"
        by (rule prod.exhaust)
      have "stage_effect (view_of w) w (case res of Inl e \<Rightarrow> delta_default
          | Inr n \<Rightarrow> foldl (\<lambda>s i. mark_removed i s) delta_default emptied, w')"
        by (rule stage_close_write [OF st2 run, where g = "\<lambda>i. i", unfolded image_ident])
          (unfold mark_evicted_def, (rule close_many_spec [OF stage_effectD(1) [OF st2]]; assumption)+)
      then show ?thesis
        using closed False run by (cases res) simp_all
    qed
    obtain b w4 where hc: "handle_candidates_covering env survivors out w3 = Some (b, w4)" "stage_effect (view_of w3) w3 (b, w4)"
      using handle_candidates_effect [OF node it stage_effectD(1,2) [OF st3], of survivors out] by auto
    show ?thesis
      unfolding closed prod.case using hc(1) st3 stage_join [OF st3 hc(2)] by simp
  qed
  show ?thesis
    using step_effect [OF w] body [OF step_effect(3) [OF w]]
    by (auto simp: handle_evicted_def db_read_def split: sum.split prod.split)
qed

section \<open>A sync round\<close>

lemma merge_stage_effect:
  assumes st: "stage_effect v0 w0 (ch, w)"
    and f: "\<And>w. cluster_inv (w_db w) \<Longrightarrow> view_ok (view_of w) \<Longrightarrow> \<exists>r. f w = Some r \<and> stage_effect (view_of w) w r"
  shows "\<exists>b w'. merge_stage run f (ch, w) = Some (b, w') \<and> stage_effect v0 w0 (b, w')"
proof (cases run)
  case True
  obtain b w1 where "f w = Some (b, w1)" "stage_effect (view_of w) w (b, w1)"
    using f [OF stage_effectD(1,2) [OF st]] by auto
  then show ?thesis
    using True stage_join [OF st] by (simp add: merge_stage_def)
qed (use st in \<open>simp add: merge_stage_def\<close>)

lemma sync_clusters_effect:
  assumes node: "node_ok env" and it: "iterates (ev_it_txids env)"
    and w: "cluster_inv (w_db w)" "view_ok (view_of w)"
  shows "\<exists>ch w1. sync_clusters env cand conf evic w = Some (if ds_is_empty ch then w1 else publish_delta env ch w1) \<and>
    stage_effect (view_of w) w (ch, w1)"
proof -
  have "\<exists>b w'. merge_stage (conf \<noteq> []) (handle_confirmed env conf) (delta_default, w) = Some (b, w') \<and>
      stage_effect (view_of w) w (b, w')"
    by (rule merge_stage_effect [OF step_effect(1) [OF w]]) (rule handle_confirmed_effect [OF node it])
  then obtain a1 w1 where 1: "merge_stage (conf \<noteq> []) (handle_confirmed env conf) (delta_default, w) = Some (a1, w1)"
    "stage_effect (view_of w) w (a1, w1)"
    by blast
  have "\<exists>b w'. merge_stage (evic \<noteq> []) (handle_evicted env evic) (a1, w1) = Some (b, w') \<and> stage_effect (view_of w) w (b, w')"
    by (rule merge_stage_effect [OF 1(2)]) (rule handle_evicted_effect [OF node it])
  then obtain a2 w2 where 2: "merge_stage (evic \<noteq> []) (handle_evicted env evic) (a1, w1) = Some (a2, w2)"
    "stage_effect (view_of w) w (a2, w2)"
    by blast
  have "\<exists>b w'. merge_stage (cand \<noteq> []) (handle_candidates env cand) (a2, w2) = Some (b, w') \<and> stage_effect (view_of w) w (b, w')"
    by (rule merge_stage_effect [OF 2(2)]) (unfold handle_candidates_def, rule handle_candidates_effect [OF node it])
  then obtain a3 w3 where 3: "merge_stage (cand \<noteq> []) (handle_candidates env cand) (a2, w2) = Some (a3, w3)"
    "stage_effect (view_of w) w (a3, w3)"
    by blast
  show ?thesis
    using 1 2 3 by (intro exI [of _ a3] exI [of _ w3]) (simp add: sync_clusters_def)
qed

lemma apply_empty_delta: "ds_is_empty s \<Longrightarrow> apply_delta s v = v"
  by (simp add: ds_is_empty_def apply_delta_def)

text \<open>Recorded changes act entry by entry, so a part of the view stays a part of it.\<close>

lemma apply_delta_part: "v \<subseteq>\<^sub>m v' \<Longrightarrow> apply_delta ch v \<subseteq>\<^sub>m apply_delta ch v'"
  by (auto simp: apply_delta_def map_le_def dom_def split: if_splits option.splits)

text \<open>After a stage whose failures were small, publishing keeps the snapshot a part of the active clusters, and
  level with them when it was.\<close>

lemma publish_level:
  assumes st: "stage_effect (view_of w) w (ch, w1)" and it: "iterates (ev_it_ids env)"
    and part: "w_snapshot w \<subseteq>\<^sub>m view_of w" and log: "w_log w1 = w_log w @ new" "small_failures new"
    and w': "w' = publish_delta env ch w1 \<or> ds_is_empty ch \<and> w' = w1"
  shows "w_snapshot w' \<subseteq>\<^sub>m view_of w1" "w_snapshot w = view_of w \<Longrightarrow> w_snapshot w' = view_of w1"
proof -
  have st': "w_snapshot w1 = w_snapshot w" "delta_wf ch"
    "\<exists>n. w_log w1 = w_log w @ n \<and> (small_failures n \<longrightarrow> recorded ch (view_of w) (view_of w1))"
    using st by (simp_all add: stage_effect_def)
  have view: "view_of w1 = apply_delta ch (view_of w)"
    using st'(3) log by (auto simp: recorded_def)
  have snapshot: "w_snapshot w' = apply_delta ch (w_snapshot w)"
    using publish_delta_snapshot [OF st'(2) it, of w1] st'(1) w' by (auto simp: apply_empty_delta)
  show "w_snapshot w' \<subseteq>\<^sub>m view_of w1" "w_snapshot w = view_of w \<Longrightarrow> w_snapshot w' = view_of w1"
    using apply_delta_part [OF part] by (simp_all add: view snapshot)
qed

lemma confirm_mined_effect:
  assumes node: "node_ok env" and it: "iterates (ev_it_txids env)"
    and w: "cluster_inv (w_db w)" "view_ok (view_of w)"
  shows "\<exists>ch w1. confirm_mined env txids fees weights t w = Some (publish_delta env ch w1) \<and>
    stage_effect (view_of w) w (ch, w1)"
  using confirm_mined_inner_effect [OF node it w] by (force simp: confirm_mined_def)

lemma publish_delta_stage:
  assumes "stage_effect v0 w (ch, w1)" "w' = w1 \<or> w' = publish_delta env ch w1"
  shows "cluster_inv (w_db w')" "view_ok (view_of w')" "\<exists>new. w_log w' = w_log w @ new"
  using assms by (auto simp: stage_effect_def)

section \<open>Runs of the service\<close>

text \<open>Start-up seeds the snapshot; then sync rounds and mined blocks follow in any order.\<close>

inductive cluster_run :: "env \<Rightarrow> world \<Rightarrow> world \<Rightarrow> bool" for env w0 where
  seed: "cluster_run env w0 (seed_snapshot env w0)"
| sync: "cluster_run env w0 w \<Longrightarrow> sync_clusters env cand conf evic w = Some w' \<Longrightarrow> cluster_run env w0 w'"
| mined: "cluster_run env w0 w \<Longrightarrow> confirm_mined env txids fees weights t w = Some w' \<Longrightarrow> cluster_run env w0 w'"

text \<open>The snapshot shows active clusters only, as the tables have them, and all of them once it was seeded.\<close>

definition levelled :: "bool \<Rightarrow> LogEntry list \<Rightarrow> world \<Rightarrow> bool" where
  "levelled seeded old w \<longleftrightarrow> cluster_inv (w_db w) \<and> view_ok (view_of w) \<and>
     (\<exists>new. w_log w = old @ new \<and> (small_failures new \<longrightarrow>
        w_snapshot w \<subseteq>\<^sub>m view_of w \<and> (seeded \<longrightarrow> w_snapshot w = view_of w)))"

lemma levelled_publish:
  assumes lev: "levelled seeded old w" and st: "stage_effect (view_of w) w (ch, w1)" and it: "iterates (ev_it_ids env)"
    and w': "w' = publish_delta env ch w1 \<or> ds_is_empty ch \<and> w' = w1"
  shows "levelled seeded old w'"
proof -
  obtain n1 where 1: "w_log w = old @ n1"
    "small_failures n1 \<Longrightarrow> w_snapshot w \<subseteq>\<^sub>m view_of w \<and> (seeded \<longrightarrow> w_snapshot w = view_of w)"
    using lev by (auto simp: levelled_def)
  obtain n2 where 2: "w_log w1 = w_log w @ n2"
    using st by (auto simp: stage_effect_def)
  have "w_snapshot w' \<subseteq>\<^sub>m view_of w' \<and> (seeded \<longrightarrow> w_snapshot w' = view_of w')" if "small_failures (n1 @ n2)"
  proof -
    have part: "w_snapshot w \<subseteq>\<^sub>m view_of w" "seeded \<Longrightarrow> w_snapshot w = view_of w" "small_failures n2"
      using that 1(2) by (simp_all add: small_failures_append)
    have "view_of w' = view_of w1"
      using w' by auto
    then show ?thesis
      using publish_level [OF st it part(1) 2 part(3) w'] part(2) by simp
  qed
  then show ?thesis
    using publish_delta_stage(1,2) [OF st, of w' env] w' 1(1) 2
    unfolding levelled_def by (auto intro!: exI [of _ "n1 @ n2"])
qed

lemma seed_levelled:
  assumes "cluster_inv (w_db w)" "view_ok (view_of w)" "ev_fault env (w_steps w) = None"
  shows "levelled True (w_log w) (seed_snapshot env w)"
  using assms find_active_view [OF assms(1)]
  by (simp add: levelled_def seed_snapshot_def db_read_def find_active_def query_def)

text \<open>A seed whose read fails leaves the snapshot as it was.\<close>

lemma levelled_seed:
  assumes "levelled False old w"
  shows "levelled (ev_fault env (w_steps w) = None) old (seed_snapshot env w)"
proof (cases "ev_fault env (w_steps w)")
  case None
  have inv: "cluster_inv (w_db w)" "view_ok (view_of w)"
    using assms by (simp_all add: levelled_def)
  have "w_log (seed_snapshot env w) = w_log w"
    by (simp add: seed_snapshot_def db_read_def split: sum.split)
  then show ?thesis
    using seed_levelled [OF inv None] None assms by (auto simp: levelled_def small_failures_def)
next
  case (Some e)
  then have "seed_snapshot env w = step w"
    by (auto simp: seed_snapshot_def db_read_def find_active_def query_def split: sum.split prod.splits)
  with Some assms show ?thesis
    by (simp add: levelled_def)
qed

lemma sync_levelled:
  assumes "node_ok env" "iterates (ev_it_txids env)" "iterates (ev_it_ids env)" "levelled seeded old w"
    and run: "sync_clusters env cand conf evic w = Some w'"
  shows "levelled seeded old w'"
proof -
  have inv: "cluster_inv (w_db w)" "view_ok (view_of w)"
    using assms(4) by (simp_all add: levelled_def)
  obtain ch w1 where "sync_clusters env cand conf evic w = Some (if ds_is_empty ch then w1 else publish_delta env ch w1)"
    and st: "stage_effect (view_of w) w (ch, w1)"
    using sync_clusters_effect [OF assms(1,2) inv] by blast
  then have "w' = publish_delta env ch w1 \<or> ds_is_empty ch \<and> w' = w1"
    using run by (auto split: if_splits)
  then show ?thesis
    by (rule levelled_publish [OF assms(4) st assms(3)])
qed

lemma mined_levelled:
  assumes "node_ok env" "iterates (ev_it_txids env)" "iterates (ev_it_ids env)" "levelled seeded old w"
    and run: "confirm_mined env txids fees weights t w = Some w'"
  shows "levelled seeded old w'"
proof -
  have inv: "cluster_inv (w_db w)" "view_ok (view_of w)"
    using assms(4) by (simp_all add: levelled_def)
  obtain ch w1 where "confirm_mined env txids fees weights t w = Some (publish_delta env ch w1)"
    and st: "stage_effect (view_of w) w (ch, w1)"
    using confirm_mined_effect [OF assms(1,2) inv] by blast
  then have "w' = publish_delta env ch w1 \<or> ds_is_empty ch \<and> w' = w1"
    using run by auto
  then show ?thesis
    by (rule levelled_publish [OF assms(4) st assms(3)])
qed

lemma cluster_run_levelled:
  assumes node: "node_ok env" and it: "iterates (ev_it_txids env)" "iterates (ev_it_ids env)"
    and w: "levelled False old w" and run: "cluster_run env w w'"
  shows "levelled (ev_fault env (w_steps w) = None) old w'"
  using run by induction (fact levelled_seed [OF w], erule (1) sync_levelled [OF node it], erule (1) mined_levelled [OF node it])

section \<open>Rows by block\<close>

definition row_key :: "Transaction \<times> int \<times> instant \<Rightarrow> (int \<times> string) option" where
  "row_key p = (case p of (tx, height, mined_at) \<Rightarrow> map_option (Pair height) (tx_confirmed_at_block tx))"

text \<open>The block a list of rows of one block describes: the time is that of its first row.\<close>

definition block_of_rows :: "(Transaction \<times> int \<times> instant) list \<Rightarrow> MinedBlock" where
  "block_of_rows rows =
    \<lparr>mb_txids = map (tx_txid \<circ> fst) rows,
     mb_fees = foldl (\<lambda>m r. case tx_fee (fst r) of Some fee \<Rightarrow> m(tx_txid (fst r) \<mapsto> fee) | None \<Rightarrow> m) Map.empty rows,
     mb_weights = foldl (\<lambda>m r. m(tx_txid (fst r) \<mapsto> tx_weight (fst r))) Map.empty rows,
     mb_confirmed_at = snd (snd (hd rows))\<rparr>"

lemma add_mined_all:
  "foldl add_mined Map.empty rows k =
    (if \<exists>r\<in>set rows. row_key r = Some k then Some (block_of_rows (filter (\<lambda>r. row_key r = Some k) rows)) else None)"
proof (induction rows rule: rev_induct)
  case (snoc r rows)
  obtain tx height mined_at where r: "r = (tx, height, mined_at)"
    by (cases r) auto
  show ?case
  proof (cases "row_key r = Some k")
    case False
    then have "add_mined m r k = m k" for m
      by (auto simp: add_mined_def r row_key_def Let_def split: option.splits)
    with False snoc show ?thesis
      by simp
  next
    case True
    then obtain hash where hash: "tx_confirmed_at_block tx = Some hash" "k = (height, hash)"
      by (auto simp: r row_key_def)
    show ?thesis
    proof (cases "\<exists>r\<in>set rows. row_key r = Some k")
      case ex: True
      then have ne: "filter (\<lambda>r. row_key r = Some k) rows \<noteq> []"
        by (auto simp: filter_empty_conv)
      show ?thesis
        using snoc ex True ne hash by (auto simp: add_mined_def r block_of_rows_def Let_def split: option.split)
    next
      case False
      then have none: "filter (\<lambda>r. row_key r = Some k) rows = []"
        by (auto simp: filter_empty_conv)
      show ?thesis
        using snoc False True none hash by (auto simp: add_mined_def r block_of_rows_def Let_def split: option.split)
    qed
  qed
qed simp

lemma by_block_eq:
  "by_block rows = map (\<lambda>k. block_of_rows (filter (\<lambda>r. row_key r = Some k) rows))
    (sorted_list_of_set {k. \<exists>r\<in>set rows. row_key r = Some k})"
proof -
  let ?K = "{k. \<exists>r\<in>set rows. row_key r = Some k}"
  have dom: "dom (foldl add_mined Map.empty rows) = ?K"
    by (auto simp: dom_def add_mined_all)
  have "?K \<subseteq> the ` row_key ` set rows"
    by force
  then have "finite ?K"
    by (rule finite_subset) simp
  then show ?thesis
    unfolding by_block_def Let_def dom by (auto simp: add_mined_all)
qed
section \<open>Properties\<close>

text \<open>A small outside world for the witnesses: the node knows the transactions \<open>a\<close> and \<open>b\<close>, grouped
  together, and nothing fails.\<close>

definition sample_group :: GetMempoolClusterModel where
  "sample_group = \<lparr>mc_cluster_weight = 800, mc_tx_count = 2,
     mc_chunks = [\<lparr>ck_txids = [''a'', ''b''], ck_fee_sats = 100, ck_weight = 800\<rparr>]\<rparr>"

definition sample_node :: "txid \<rightharpoonup> GetMempoolClusterModel" where
  "sample_node t = (if t = ''a'' \<or> t = ''b'' then Some sample_group else None)"

definition sample_env :: env where
  "sample_env = \<lparr>ev_vb = (\<lambda>w. (w + 3) div 4), ev_it_ids = sorted_list_of_set, ev_it_txids = sorted_list_of_set,
     ev_now = int, ev_push_clk = (\<lambda>n _. int n), ev_fault = (\<lambda>_. None),
     ev_cluster = (\<lambda>_ t. case sample_node t of Some m \<Rightarrow> Inr m | None \<Rightarrow> Inl (TxNotFoundInMempool t))\<rparr>"

definition sample_world :: world where
  "sample_world = \<lparr>w_ledger = \<lparr>lg_live = {}, lg_journal = [], lg_degraded = False\<rparr>, w_snapshot = Map.empty,
     w_db = sample_db, w_bus = [], w_log = [], w_steps = 0\<rparr>"

lemma sample_env_steady: "steady_node sample_env sample_node"
  by (simp add: steady_node_def sample_env_def sample_node_def sample_group_def mc_txids_def wf_chunks_def is_u64_def)

lemma sample_env_ok [simp]: "node_ok sample_env" "no_faults sample_env" "iterates (ev_it_txids sample_env)"
  "iterates (ev_it_ids sample_env)"
  using steady_node_ok [OF sample_env_steady] by (simp_all add: no_faults_def sample_env_def iterates_sorted)

lemma sample_world_ok [simp]: "cluster_inv (w_db sample_world)" "view_of sample_world = Map.empty" "view_ok Map.empty"
  using sample_db_inv by (simp_all add: sample_world_def view_ok_def active_view_def row_of_def sample_db_def fun_eq_iff)

text \<open>C4: The in-memory snapshot the clients see never shows what the database does not have. From a snapshot that holds
  active clusters only (an empty one, when the process starts), through the start-up seed and any sequence of sync
  rounds and mined blocks, whatever the node answers (a cluster being one of the transaction asked about, in no more
  chunks than storage can number) and whichever repository calls fail on the way: the tables are
  consistent, no transaction is in two active clusters, and every cluster of the snapshot is an active one, as stored.
  When the read of the start-up seed succeeded, the snapshot has all of them: it equals the active clusters of the
  tables. Both statements on the snapshot except a run in which a bulk insert of more than 10000 singletons
  failed, of which earlier batches may be committed.\<close>

theorem snapshot_tracks_tables:
  assumes "node_ok env" "iterates (ev_it_txids env)" "iterates (ev_it_ids env)"
    and "cluster_inv (w_db w)" "view_ok (active_view (w_db w))" "w_snapshot w \<subseteq>\<^sub>m active_view (w_db w)"
    and "cluster_run env w w'"
  shows "cluster_inv (w_db w') \<and> view_ok (active_view (w_db w')) \<and>
    (\<exists>new. w_log w' = w_log w @ new \<and> (small_failures new \<longrightarrow>
       w_snapshot w' \<subseteq>\<^sub>m active_view (w_db w') \<and>
       (ev_fault env (w_steps w) = None \<longrightarrow> w_snapshot w' = active_view (w_db w'))))"
proof -
  have "levelled False (w_log w) w"
    using assms(4-6) by (simp add: levelled_def)
  from cluster_run_levelled [OF assms(1-3) this assms(7)] show ?thesis
    by (simp add: levelled_def)
qed

theorem snapshot_tracks_tables_witness:
  "\<exists>w'. sync_clusters sample_env [''a''] [] [] (seed_snapshot sample_env sample_world) = Some w' \<and>
     view_ok (active_view (w_db w'))"
proof -
  have w: "cluster_inv (w_db sample_world)" "view_ok (active_view (w_db sample_world))"
    "w_snapshot sample_world \<subseteq>\<^sub>m active_view (w_db sample_world)" "ev_fault sample_env (w_steps sample_world) = None"
    by (simp_all add: sample_env_def) (simp add: sample_world_def)
  note lev = seed_levelled [OF w(1,2,4)]
  obtain w' where w': "sync_clusters sample_env [''a''] [] [] (seed_snapshot sample_env sample_world) = Some w'"
    using sync_clusters_effect [of sample_env "seed_snapshot sample_env sample_world" "[''a'']" "[]" "[]"] lev
    by (auto simp: levelled_def)
  have "cluster_run sample_env sample_world w'"
    by (rule cluster_run.sync [OF cluster_run.seed w'])
  from snapshot_tracks_tables [OF _ _ _ w(1-3) this] w' show ?thesis
    by auto
qed

text \<open>C8: Each sync round and each mined block returns, and keeps the clusters disjoint, non-empty and
  consistently stored, for every node that answers with the cluster of the transaction it was
  asked about, whichever repository calls fail.\<close>

theorem rounds_return_disjoint:
  assumes "node_ok env" "iterates (ev_it_txids env)" "cluster_inv (w_db w)" "view_ok (active_view (w_db w))"
  shows "(\<exists>w'. sync_clusters env cand conf evic w = Some w' \<and> cluster_inv (w_db w') \<and> view_ok (active_view (w_db w'))) \<and>
    (\<exists>w'. confirm_mined env txids fees weights t w = Some w' \<and> cluster_inv (w_db w') \<and> view_ok (active_view (w_db w')))"
proof
  obtain ch w1 where r: "sync_clusters env cand conf evic w = Some (if ds_is_empty ch then w1 else publish_delta env ch w1)"
    "stage_effect (view_of w) w (ch, w1)"
    using sync_clusters_effect [OF assms] by blast
  then show "\<exists>w'. sync_clusters env cand conf evic w = Some w' \<and> cluster_inv (w_db w') \<and> view_ok (view_of w')"
    using stage_effectD(1,2) by auto
  obtain ch w1 where r: "confirm_mined env txids fees weights t w = Some (publish_delta env ch w1)"
    "stage_effect (view_of w) w (ch, w1)"
    using confirm_mined_effect [OF assms] by blast
  then show "\<exists>w'. confirm_mined env txids fees weights t w = Some w' \<and> cluster_inv (w_db w') \<and> view_ok (view_of w')"
    using stage_effectD(1,2) by auto
qed

theorem rounds_return_disjoint_witness:
  "\<exists>w'. sync_clusters sample_env [''a'', ''c''] [] [] sample_world = Some w' \<and> view_ok (active_view (w_db w'))"
  using rounds_return_disjoint [of sample_env sample_world "[''a'', ''c'']" "[]" "[]" "[]" Map.empty Map.empty 0] by auto

text \<open>The work queue ends for every node that answers with the cluster of the transaction asked
  about: detached members go back into the queue, but no transaction is asked about again once it
  was covered by an answer.\<close>

theorem candidate_queue_terminates:
  assumes "node_ok env" "iterates (ev_it_txids env)" "cluster_inv (w_db w)" "view_ok (active_view (w_db w))"
  shows "\<exists>changes w'. handle_candidates_covering env cand out w = Some (changes, w')"
  using handle_candidates_effect [OF assms] by fastforce

theorem candidate_queue_terminates_witness:
  "\<exists>changes w'. handle_candidates_covering sample_env [''a'', ''b'', ''a''] {''z''} sample_world = Some (changes, w')"
  using candidate_queue_terminates [of sample_env sample_world] by simp

text \<open>C9: While the node's mempool stands still and nothing fails, a round leaves every candidate that is
  in the mempool in an active cluster with exactly the node's chunks, and no member of an active
  cluster that is still in the mempool loses its cluster: detached transactions find a new one.\<close>

theorem candidates_end_in_node_clusters:
  assumes "steady_node env node" "no_faults env" "iterates (ev_it_txids env)"
    and "cluster_inv (w_db w)" "view_ok (active_view (w_db w))"
  shows "\<exists>changes w'. handle_candidates env cand w = Some (changes, w') \<and>
    (\<forall>t\<in>set cand. \<forall>m. node t = Some m \<longrightarrow>
       (\<exists>i st. active_view (w_db w') i = Some st \<and> cs_chunks st = mc_chunks m)) \<and>
    (\<forall>t\<in>members (active_view (w_db w)). node t \<noteq> None \<longrightarrow> t \<in> members (active_view (w_db w')))"
  using handle_candidates_steady [OF assms, of "{}" cand] by (auto simp: handle_candidates_def)

theorem candidates_end_in_node_clusters_witness:
  "\<exists>changes w' i st. handle_candidates sample_env [''b''] sample_world = Some (changes, w') \<and>
     active_view (w_db w') i = Some st \<and> cs_txids st = [''a'', ''b'']"
proof -
  have "sample_node ''b'' = Some sample_group"
    by (simp add: sample_node_def)
  then obtain changes w' i st where "handle_candidates sample_env [''b''] sample_world = Some (changes, w')"
    "active_view (w_db w') i = Some st" "cs_chunks st = mc_chunks sample_group"
    using candidates_end_in_node_clusters [OF sample_env_steady, of sample_world "[''b'']"] by auto
  moreover have "cs_txids st = [''a'', ''b'']"
    using \<open>cs_chunks st = mc_chunks sample_group\<close> by (simp add: cs_txids_def sample_group_def)
  ultimately show ?thesis
    by blast
qed

text \<open>Splitting a partly mined cluster loses and duplicates nothing: the kept chunks hold exactly
  its transactions of the block and the pending list the others, both in mining order; a chunk
  mined whole is kept as it is, and a split chunk is valued by the block's own fees and weights.\<close>

theorem mined_trim_partition:
  "concat (map ck_txids (mt_mined (mined_trim_new cluster block))) = filter (block_contains block) (cl_txids cluster) \<and>
   mt_pending (mined_trim_new cluster block) = filter (\<lambda>t. \<not> block_contains block t) (cl_txids cluster) \<and>
   mset (cl_txids cluster) = mset (concat (map ck_txids (mt_mined (mined_trim_new cluster block)))) +
     mset (mt_pending (mined_trim_new cluster block)) \<and>
   set (mt_mined (mined_trim_new cluster block)) \<subseteq>
     {c \<in> set (cl_chunks cluster). set (ck_txids c) \<subseteq> set (mb_txids block)} \<union> range (split_chunk block)"
proof -
  let ?trim = "mined_trim_new cluster block"
  have "concat (map ck_txids (concat (map (mined_part block) cs))) = filter (block_contains block) (concat (map ck_txids cs))" for cs
    by (induction cs) (simp_all add: mined_part_txids)
  then have mined: "concat (map ck_txids (mt_mined ?trim)) = filter (block_contains block) (cl_txids cluster)"
    by (simp add: mined_trim_new_eq cl_txids_def)
  have pending: "mt_pending ?trim = filter (\<lambda>t. \<not> block_contains block t) (cl_txids cluster)"
    by (simp add: mined_trim_new_eq)
  have "set (mined_part block c) \<subseteq> {x. x = c \<and> set (ck_txids c) \<subseteq> set (mb_txids block)} \<union> range (split_chunk block)" for c
    unfolding mined_part_def block_contains_def by auto
  then have "set (mt_mined ?trim) \<subseteq>
     {c \<in> set (cl_chunks cluster). set (ck_txids c) \<subseteq> set (mb_txids block)} \<union> range (split_chunk block)"
    by (fastforce simp: mined_trim_new_eq)
  then show ?thesis
    by (simp only: mined pending multiset_partition [symmetric] mset_filter simp_thms)
qed

text \<open>The mined rows are handed over block by block, each block once and in height order, with
  exactly its own rows.\<close>

theorem by_block_groups:
  "by_block rows = map (\<lambda>k. block_of_rows (filter (\<lambda>r. row_key r = Some k) rows))
    (sorted_list_of_set {k. \<exists>r\<in>set rows. row_key r = Some k})"
  by (rule by_block_eq)

text \<open>The recorded changes compose: applying a merged set of changes to a snapshot is applying the
  first set and then the second, so one event per round says as much as one per stage.\<close>

theorem merge_is_sequence:
  "apply_delta (merge a b) v = apply_delta b (apply_delta a v)"
  by (rule delta_log.app_join)

end
