(* ===== verification/Cluster_Frame.thy ===== *)
theory Cluster_Frame
  imports Cluster_Sync
begin

text \<open>
  What a cluster sync round leaves alone. The cluster service writes the cluster tables, links
  transaction rows to clusters and inserts rows for members it has not seen; the journal only ever
  grows by what it asserts. Everything the mempool and block services rely on is kept: the recorded
  transitions, the stored blocks, which transactions are stored as mined, and what was published on
  the other subjects. This is the contract those services use the cluster service under.
\<close>

section \<open>Relations that compose\<close>

locale keeps =
  fixes rel :: "'s \<Rightarrow> 's \<Rightarrow> bool"
  assumes keeps_refl: "rel s s" and keeps_trans: "rel s s' \<Longrightarrow> rel s' s'' \<Longrightarrow> rel s s''"
begin

lemma while_keeps:
  assumes "while_option b c q = Some q'" "\<And>q. b q \<Longrightarrow> rel (f q) (f (c q))"
  shows "rel (f q) (f q')"
proof -
  have "rel (f q) (f q')"
    by (rule while_option_rule [OF _ assms(1), of "\<lambda>x. rel (f q) (f x)"])
      (auto intro: keeps_refl keeps_trans assms(2))
  then show ?thesis .
qed

end

section \<open>Tables\<close>

definition mined :: "Transaction list \<Rightarrow> txid set" where
  "mined ts = tx_txid ` {t \<in> set ts. tx_confirmed_at t \<noteq> None}"

definition rows_frame :: "Transaction list \<Rightarrow> Transaction list \<Rightarrow> bool" where
  "rows_frame ts ts' \<longleftrightarrow> mined ts' = mined ts \<and> tx_txid ` set ts \<subseteq> tx_txid ` set ts' \<and>
     (distinct (map tx_txid ts) \<longrightarrow> distinct (map tx_txid ts'))"

definition db_frame :: "db \<Rightarrow> db \<Rightarrow> bool" where
  "db_frame d d' \<longleftrightarrow> db_deltas d' = db_deltas d \<and> db_blocks d' = db_blocks d \<and>
     rows_frame (db_transactions d) (db_transactions d')"

lemma mined_in_eq: "mined_in d = mined (db_transactions d)"
  by (auto simp: mined_in_def mined_def)

interpretation row_frame: keeps rows_frame
  by (unfold_locales, simp_all add: rows_frame_def, blast)

interpretation table_frame: keeps db_frame
  by (unfold_locales, simp_all add: db_frame_def row_frame.keeps_refl) (blast intro: row_frame.keeps_trans)

lemma db_frame_trans: "db_frame d d' \<Longrightarrow> db_frame d' d'' \<Longrightarrow> db_frame d d''"
  by (rule table_frame.keeps_trans)

lemma same_tables_fields:
  assumes "same_tables d d'"
  shows "db_deltas d' = db_deltas d" "db_blocks d' = db_blocks d" "db_transactions d' = db_transactions d"
proof -
  obtain n where "d' = d\<lparr>db_cluster_seq := n\<rparr>"
    using assms unfolding same_tables_def by blast
  then show "db_deltas d' = db_deltas d" "db_blocks d' = db_blocks d" "db_transactions d' = db_transactions d"
    by simp_all
qed

lemma db_frame_same: "same_tables d d' \<Longrightarrow> db_frame d d'"
  by (simp add: db_frame_def same_tables_fields row_frame.keeps_refl)

interpretation frame_calls: call_contract db_frame
  by unfold_locales (rule db_frame_same, simp add: same_tables_def)

lemmas query_frame = frame_calls.call_keeps

lemma rows_frame_map:
  assumes "\<And>t. tx_txid (f t) = tx_txid t \<and> tx_confirmed_at (f t) = tx_confirmed_at t"
  shows "rows_frame ts (map f ts)"
proof -
  have "{t \<in> set (map f ts). tx_confirmed_at t \<noteq> None} = f ` {t \<in> set ts. tx_confirmed_at t \<noteq> None}"
    using assms by auto
  then show ?thesis
    using assms by (simp add: rows_frame_def mined_def image_image comp_def)
qed

lemma rows_frame_insert_ignoring:
  "tx_confirmed_at row = None \<Longrightarrow> rows_frame ts (insert_ignoring ts row)"
  by (auto simp: rows_frame_def mined_def insert_ignoring_def)

lemma rows_frame_hollow: "rows_frame ts (insert_hollow_rows now txids ts)"
proof -
  have "\<forall>row\<in>set rows. tx_confirmed_at row = None \<Longrightarrow> rows_frame ts (foldl insert_ignoring ts rows)" for rows
    by (induction rows arbitrary: ts)
      (auto intro: row_frame.keeps_refl row_frame.keeps_trans rows_frame_insert_ignoring)
  moreover have "\<forall>row\<in>set (sorted_by_txid (map (hollow now) txids)). tx_confirmed_at row = None"
    by (simp add: sorted_by_txid_def hollow_def)
  ultimately show ?thesis
    unfolding insert_hollow_rows_eq by blast
qed

lemma db_frame_rows:
  "rows_frame (db_transactions d) ts \<Longrightarrow> db_frame d (d\<lparr>db_transactions := ts\<rparr>)"
  by (simp add: db_frame_def)

lemma insert_chunks_frame: "insert_chunks rows d = Inr (x, d') \<Longrightarrow> \<exists>cs. d' = d\<lparr>db_chunks := cs\<rparr>"
proof -
  have "insert_chunk_batches bs d = Inr (x, d') \<Longrightarrow> \<exists>cs. d' = d\<lparr>db_chunks := cs\<rparr>" for bs
  proof (induction bs arbitrary: d)
    case Nil
    then show ?case
      by (intro exI [of _ "db_chunks d"]) simp
  next
    case (Cons b bs)
    then show ?case
      by (fastforce split: if_splits)
  qed
  then show "insert_chunks rows d = Inr (x, d') \<Longrightarrow> ?thesis"
    unfolding insert_chunks_def .
qed

lemma db_frame_hollow: "db_frame d (insert_hollow_members now txids d)"
  by (simp add: insert_hollow_members_def db_frame_rows rows_frame_hollow table_frame.keeps_refl)

lemma link_members_keeps: "tx_txid (link_members cs t) = tx_txid t \<and> tx_confirmed_at (link_members cs t) = tx_confirmed_at t"
  by (simp add: link_members_def split: option.split)

lemma db_frame_linked: "db_frame d d' \<Longrightarrow> db_frame d (d'\<lparr>db_transactions := map (link_members cs) (db_transactions d')\<rparr>)"
  by (rule db_frame_trans, assumption) (intro db_frame_rows rows_frame_map link_members_keeps)

lemma db_frame_other:
  "db_frame d (d\<lparr>db_clusters := cs\<rparr>)" "db_frame d (d\<lparr>db_chunks := ks\<rparr>)"
  "db_frame d (d\<lparr>db_cluster_seq := n, db_clusters := cs\<rparr>)"
  by (simp_all add: db_frame_def row_frame.keeps_refl)

lemma insert_chunks_db_frame: "insert_chunks rows d = Inr (x, d') \<Longrightarrow> db_frame d d'"
  using insert_chunks_frame db_frame_other(2) by blast

lemma insert_in_frame:
  assumes "insert_in now new d = Inr (x, d')"
  shows "db_frame d d'"
proof -
  obtain rows n cs u d2 txids linked where
    ins: "insert_chunks rows (d\<lparr>db_cluster_seq := n, db_clusters := cs\<rparr>) = Inr (u, d2)"
    and d': "d' = (insert_hollow_members now txids d2)\<lparr>db_transactions :=
      map (link_members linked) (db_transactions (insert_hollow_members now txids d2))\<rparr>"
    using assms unfolding insert_in_def Let_def by (auto split: sum.splits)
  have "db_frame d d2"
    using db_frame_other(3) insert_chunks_db_frame [OF ins] by (rule db_frame_trans)
  then have "db_frame d (insert_hollow_members now txids d2)"
    by (rule db_frame_trans) (rule db_frame_hollow)
  then show ?thesis
    unfolding d' by (rule db_frame_linked)
qed

lemma db_frame_relinked:
  "db_frame d d' \<Longrightarrow> db_frame d (d'\<lparr>db_transactions :=
    map (\<lambda>t. if P t then t\<lparr>tx_cluster_id := c\<rparr> else t) (db_transactions d')\<rparr>)"
  by (rule db_frame_trans, assumption) (intro db_frame_rows rows_frame_map, simp)

lemma replace_chunks_in_frame:
  assumes "replace_chunks_in now u live d = Inr (x, d')"
  shows "db_frame d d'"
proof -
  consider "d' = d"
    | rows ks y d2 cs P Q txids c where
      "insert_chunks rows (d\<lparr>db_chunks := ks\<rparr>) = Inr (y, d2)"
      "d' = (let d4 = (d2\<lparr>db_clusters := cs\<rparr>)\<lparr>db_transactions :=
          map (\<lambda>t. if P t then t\<lparr>tx_cluster_id := None\<rparr> else t) (db_transactions (d2\<lparr>db_clusters := cs\<rparr>))\<rparr>;
        d5 = insert_hollow_members now txids d4
        in d5\<lparr>db_transactions := map (\<lambda>t. if Q t then t\<lparr>tx_cluster_id := c\<rparr> else t) (db_transactions d5)\<rparr>)"
    using assms unfolding replace_chunks_in_def Let_def set_live_def
    by (auto split: option.splits if_splits sum.splits)
  then show ?thesis
  proof cases
    case 2
    have "db_frame d (d2\<lparr>db_clusters := cs\<rparr>)"
      using db_frame_trans [OF db_frame_other(2) insert_chunks_db_frame [OF 2(1)]] db_frame_other(1)
      by (rule db_frame_trans)
    from db_frame_relinked [OF this] show ?thesis
      unfolding 2(2) Let_def by (intro db_frame_relinked) (rule db_frame_trans [OF _ db_frame_hollow])
  qed (simp add: table_frame.keeps_refl)
qed

lemma retire_frame: "db_frame d (retire_chunks ids d)"
  by (simp add: retire_chunks_def set_live_def db_frame_other)

lemma close_many_in_frame: "close_many_in now ids k d = Inr (x, d') \<Longrightarrow> db_frame d d'"
  unfolding close_many_in_def Let_def update_clusters_def
  by (auto simp: table_frame.keeps_refl split: if_splits
      intro!: db_frame_relinked db_frame_trans [OF db_frame_other(1) retire_frame])

lemma confirm_many_in_frame: "confirm_many_in now ids at d = Inr (x, d') \<Longrightarrow> db_frame d d'"
  unfolding confirm_many_in_def Let_def update_clusters_def
  by (auto simp: table_frame.keeps_refl split: if_splits intro!: db_frame_trans [OF db_frame_other(1) retire_frame])

lemma replace_each_frame: "replace_each now us d = Inr (x, d') \<Longrightarrow> db_frame d d'"
proof (induction us arbitrary: d)
  case (Cons u us)
  then show ?case
    by (auto split: sum.splits dest!: replace_chunks_in_frame intro: db_frame_trans)
qed (simp add: table_frame.keeps_refl)

lemma insert_batches_frame: "insert_batches faults now k bs d = (r, d') \<Longrightarrow> db_frame d d'"
proof (induction bs arbitrary: k d r d')
  case (Cons b bs)
  obtain r1 d1 where q: "query (faults k) (insert_in now b) d = (r1, d1)"
    by (rule prod.exhaust)
  have f1: "db_frame d d1"
    using q insert_in_frame by (rule query_frame)
  obtain r2 d2 where rest: "insert_batches faults now (Suc k) bs d1 = (r2, d2)"
    by (rule prod.exhaust)
  have "d' = d1 \<or> d' = d2"
    using Cons.prems q rest by (auto split: sum.splits)
  then show ?case
    using f1 Cons.IH [OF rest] by (auto intro: db_frame_trans)
qed (simp add: table_frame.keeps_refl)

text \<open>Every write the cluster service makes.\<close>

lemma writes_frame:
  "insert_with_members fault now new d = (r1, d') \<Longrightarrow> db_frame d d'"
  "insert_many_with_members faults now news d = (r2, d') \<Longrightarrow> db_frame d d'"
  "replace_chunks fault now u d = (r3, d') \<Longrightarrow> db_frame d d'"
  "mark_merged fault now ids d = (r4, d') \<Longrightarrow> db_frame d d'"
  "mark_evicted fault now ids d = (r4, d') \<Longrightarrow> db_frame d d'"
  "confirm_many fault now ids at d = (r4, d') \<Longrightarrow> db_frame d d'"
  "trim_and_confirm_many fault now us at d = (r4, d') \<Longrightarrow> db_frame d d'"
proof -
  show "insert_with_members fault now new d = (r1, d') \<Longrightarrow> db_frame d d'"
    unfolding insert_with_members_def by (rule query_frame) (auto split: sum.splits dest: insert_in_frame)
  show "insert_many_with_members faults now news d = (r2, d') \<Longrightarrow> db_frame d d'"
    unfolding insert_many_with_members_def by (rule insert_batches_frame)
  show "replace_chunks fault now u d = (r3, d') \<Longrightarrow> db_frame d d'"
    unfolding replace_chunks_def by (rule query_frame, assumption) (rule replace_chunks_in_frame)
  have close: "close_many fault now ids k d = (r4, d') \<Longrightarrow> db_frame d d'" for k
    unfolding close_many_def
    by (auto split: if_splits simp: table_frame.keeps_refl elim!: query_frame dest: close_many_in_frame)
  show "mark_merged fault now ids d = (r4, d') \<Longrightarrow> db_frame d d'"
    "mark_evicted fault now ids d = (r4, d') \<Longrightarrow> db_frame d d'"
    unfolding mark_merged_def mark_evicted_def by (erule close)+
  show "confirm_many fault now ids at d = (r4, d') \<Longrightarrow> db_frame d d'"
    unfolding confirm_many_def
    by (auto split: if_splits simp: table_frame.keeps_refl elim!: query_frame dest: confirm_many_in_frame)
  show "trim_and_confirm_many fault now us at d = (r4, d') \<Longrightarrow> db_frame d d'"
    unfolding trim_and_confirm_many_def Let_def
    by (auto split: if_splits sum.splits simp: table_frame.keeps_refl elim!: query_frame
        dest!: replace_each_frame confirm_many_in_frame intro: db_frame_trans)
qed

section \<open>Worlds\<close>

fun is_cluster_event :: "BusEvent \<Rightarrow> bool" where
  "is_cluster_event (BusClusterDelta e) = True"
| "is_cluster_event _ = False"

definition w_frame :: "world \<Rightarrow> world \<Rightarrow> bool" where
  "w_frame w w' \<longleftrightarrow> w_steps w \<le> w_steps w' \<and> db_frame (w_db w) (w_db w') \<and> extends (w_ledger w) (w_ledger w') \<and>
     (finite (lg_live (w_ledger w)) \<longrightarrow> finite (lg_live (w_ledger w'))) \<and>
     (\<exists>evs. w_bus w' = w_bus w @ evs \<and> (\<forall>e\<in>set evs. is_cluster_event e))"

interpretation world_frame: keeps w_frame
proof
  show "w_frame w w" for w
    by (simp add: w_frame_def table_frame.keeps_refl)
  show "w_frame w w''" if "w_frame w w'" "w_frame w' w''" for w w' w''
    using that unfolding w_frame_def by (auto intro: db_frame_trans extends_trans)
qed

lemmas w_frame_trans = world_frame.keeps_trans
lemmas w_frame_refl [simp, intro] = world_frame.keeps_refl

lemma w_frame_step [simp]: "w_frame w w' \<Longrightarrow> w_frame w (step w')"
  by (simp add: w_frame_def step_def)

lemma db_read_frame: "db_read env f w = (x, w') \<Longrightarrow> w_frame w w'"
  by (auto simp: db_read_def)

lemma db_write_frame:
  assumes "db_write env f w = (x, w')" "\<And>fault now d r d'. f fault now d = (r, d') \<Longrightarrow> db_frame d d'"
  shows "w_frame w w'"
proof -
  obtain r d' where run: "f (ev_fault env (w_steps w)) (ev_now env (w_steps w)) (w_db w) = (r, d')"
    by (rule prod.exhaust)
  then have "w' = step (w\<lparr>w_db := d'\<rparr>)"
    using assms(1) by (simp add: db_write_def)
  then show ?thesis
    using assms(2) [OF run] by (simp add: w_frame_def step_def)
qed

lemma asserted_frame:
  "w_frame w (w'\<lparr>w_ledger := assert_present clk ts (w_ledger w')\<rparr>)"
  "w_frame w (w'\<lparr>w_ledger := assert_absent clk ts (w_ledger w')\<rparr>)"
  if "w_frame w w'"
  using that assert_present_extends [of "w_ledger w'" clk ts] assert_absent_extends [of "w_ledger w'" clk ts]
  by (auto simp: w_frame_def assert_present_live assert_absent_live intro: extends_trans)

lemma publish_delta_frame: "w_frame w w' \<Longrightarrow> w_frame w (publish_delta env s w')"
  unfolding publish_delta_def w_frame_def by (auto split: prod.split option.split)

lemma upsert_frame:
  assumes "upsert env cluster ids w = (r, w')"
  shows "w_frame w w'"
proof (cases "ids = []")
  case True
  then show ?thesis
    using assms unfolding upsert_def Let_def
    by (auto split: prod.splits sum.splits elim!: db_write_frame dest: writes_frame(1))
next
  case False
  then show ?thesis
    using assms unfolding upsert_def Let_def
    by (auto split: prod.splits sum.splits option.splits if_splits dest!: db_read_frame
        db_write_frame [where f = "\<lambda>fault now. mark_merged fault now _", OF _ writes_frame(4)]
        db_write_frame [where f = "\<lambda>fault now. replace_chunks fault now _", OF _ writes_frame(3)]
        intro: w_frame_trans)
qed

lemma absent_txid_frame: "w_frame (q_world q) (q_world (absent_txid env txid q))"
  using asserted_frame(2) [of "q_world q" "step (q_world q)"] by (simp add: absent_txid_def del: assert_absent.simps)

lemma handle_group_frame: "w_frame (q_world q) (q_world (handle_group env cluster q))"
proof -
  let ?w1 = "(step (q_world q))\<lparr>w_ledger :=
    assert_present (ev_push_clk env (w_steps (q_world q))) (mc_txids cluster) (w_ledger (q_world q))\<rparr>"
  obtain r w2 where read: "db_read env (\<lambda>fault. find_active_ids_by_txids fault (mc_txids cluster)) ?w1 = (r, w2)"
    by (rule prod.exhaust)
  have "w_frame (q_world q) ?w1"
    using asserted_frame(1) [of "q_world q" "step (q_world q)"] by simp
  then have w2: "w_frame (q_world q) w2"
    using db_read_frame [OF read] by (rule w_frame_trans)
  show ?thesis
  proof (cases r)
    case (Inl e)
    then show ?thesis
      using read w2 by (simp add: handle_group_def Let_def)
  next
    case (Inr ids)
    obtain p w3 where up: "upsert env cluster ids w2 = (p, w3)"
      by (rule prod.exhaust)
    then have "w_frame (q_world q) w3"
      using w2 upsert_frame [OF up] w_frame_trans by blast
    then show ?thesis
      using read w2 up by (auto simp: handle_group_def Let_def Inr split: prod.split)
  qed
qed

lemma candidate_step_frame: "w_frame (q_world q) (q_world (candidate_step env q))"
proof -
  have "w_frame (q_world q) (q_world (handle_group env cluster (q\<lparr>q_pending := rest\<rparr>)))" for cluster rest
    using handle_group_frame [of "q\<lparr>q_pending := rest\<rparr>"] by simp
  moreover have "w_frame (q_world q) (q_world (absent_txid env txid (q\<lparr>q_pending := rest\<rparr>)))" for txid rest
    using absent_txid_frame [of "q\<lparr>q_pending := rest\<rparr>"] by simp
  ultimately show ?thesis
    unfolding candidate_step_def Let_def by (auto split: list.split sum.split ObserverError.split)
qed

lemma flush_singletons_frame: "flush_singletons env q = (s, w') \<Longrightarrow> w_frame (q_world q) w'"
  unfolding flush_singletons_def Let_def
  by (auto split: if_splits prod.splits sum.splits dest!: writes_frame(2) simp: w_frame_def table_frame.keeps_refl)

lemma handle_candidates_covering_frame:
  assumes "handle_candidates_covering env ts out w = Some (s, w')"
  shows "w_frame w w'"
proof -
  obtain q where loop: "while_option (\<lambda>q. q_pending q \<noteq> []) (candidate_step env)
      \<lparr>q_changes = delta_default, q_pending = ts, q_out = out, q_fresh = Map.empty, q_world = w\<rparr> = Some q"
    and flush: "flush_singletons env q = (s, w')"
    using assms unfolding handle_candidates_covering_def by auto
  have "w_frame w (q_world q)"
    using world_frame.while_keeps [OF loop, of q_world] candidate_step_frame by simp
  then show ?thesis
    using flush_singletons_frame [OF flush] by (rule w_frame_trans)
qed

lemma handle_candidates_frame: "handle_candidates env ts w = Some (s, w') \<Longrightarrow> w_frame w w'"
  unfolding handle_candidates_def by (rule handle_candidates_covering_frame)

lemma find_active_clusters_containing_frame:
  "find_active_clusters_containing env ts w = (cs, w') \<Longrightarrow> w_frame w w'"
  unfolding find_active_clusters_containing_def
  by (auto split: prod.splits sum.splits if_splits dest!: db_read_frame intro: w_frame_trans)

lemma confirm_full_frame: "confirm_full env ids at w = (s, w') \<Longrightarrow> w_frame w w'"
  unfolding confirm_full_def
  by (auto split: prod.splits sum.splits if_splits
      dest!: db_write_frame [where f = "\<lambda>fault now. confirm_many fault now _ _", OF _ writes_frame(6)])

lemma confirm_mined_inner_frame:
  assumes "confirm_mined_inner env block w = Some (s, w')"
  shows "w_frame w w'"
proof -
  obtain cs w1 where find: "find_active_clusters_containing env (mb_txids block) w = (cs, w1)"
    by (rule prod.exhaust)
  define full where "full = filter (\<lambda>c. \<forall>txid \<in> set (cl_txids c). block_contains block txid) cs"
  define partial where "partial = filter (\<lambda>c. \<not> (\<forall>txid \<in> set (cl_txids c). block_contains block txid)) cs"
  obtain changes w2 where conf: "confirm_full env (map cl_id full) (mb_confirmed_at block) w1 = (changes, w2)"
    by (rule prod.exhaust)
  have w2: "w_frame w w2"
    using find_active_clusters_containing_frame [OF find] confirm_full_frame [OF conf] by (rule w_frame_trans)
  let ?trims = "map (\<lambda>c. mined_trim_new c block) partial"
  obtain r w3 where trim: "db_write env (\<lambda>fault now. trim_and_confirm_many fault now (map as_update ?trims)
      (mb_confirmed_at block)) w2 = (r, w3)"
    by (rule prod.exhaust)
  have w3: "w_frame w w3"
    using w2 db_write_frame [OF trim writes_frame(7)] by (rule w_frame_trans)
  note run = assms [unfolded confirm_mined_inner_def find prod.case Let_def full_def [symmetric] partial_def [symmetric]
      conf, unfolded prod.case trim prod.case]
  show ?thesis
  proof (cases "partial = [] \<or> (\<exists>e. r = Inl e)")
    case True
    then show ?thesis
      using run w2 w3 by (auto split: if_splits)
  next
    case False
    then obtain changes' where "handle_candidates env (concat (map mt_pending ?trims)) w3 = Some (changes', w')"
      using run by (cases r) (auto split: if_splits)
    then show ?thesis
      using w3 handle_candidates_frame w_frame_trans by blast
  qed
qed

lemma confirm_mined_frame: "confirm_mined env ts fees weights at w = Some w' \<Longrightarrow> w_frame w w'"
  unfolding confirm_mined_def by (auto dest!: confirm_mined_inner_frame intro: publish_delta_frame)

lemma confirm_blocks_frame: "confirm_blocks env bs s w = Some (s', w') \<Longrightarrow> w_frame w w'"
  by (induction bs arbitrary: s w)
    (auto split: option.splits dest!: confirm_mined_inner_frame intro: w_frame_trans)

lemma handle_confirmed_frame: "handle_confirmed env ts w = Some (s, w') \<Longrightarrow> w_frame w w'"
  unfolding handle_confirmed_def
  by (auto split: prod.splits sum.splits if_splits dest!: db_read_frame confirm_blocks_frame intro: w_frame_trans)

lemmas write_frames =
  db_write_frame [where f = "\<lambda>fault now. mark_evicted fault now ids" for ids, OF _ writes_frame(5)]

lemma handle_evicted_frame: "handle_evicted env ts w = Some (s, w') \<Longrightarrow> w_frame w w'"
  unfolding handle_evicted_def
  by (auto split: if_splits prod.splits sum.splits option.splits
      dest!: db_read_frame write_frames handle_candidates_covering_frame intro: w_frame_trans)

lemma merge_stage_frame:
  assumes "merge_stage run f (s, w) = Some (s', w')" "\<And>s w w'. f w = Some (s, w') \<Longrightarrow> w_frame w w'"
  shows "w_frame w w'"
  using assms by (auto simp: merge_stage_def split: if_splits)

lemma sync_clusters_frame:
  assumes "sync_clusters env cs confirmed evicted w = Some w'"
  shows "w_frame w w'"
proof -
  obtain s1 w1 s2 w2 s3 w3 where
    stages: "merge_stage (confirmed \<noteq> []) (handle_confirmed env confirmed) (delta_default, w) = Some (s1, w1)"
      "merge_stage (evicted \<noteq> []) (handle_evicted env evicted) (s1, w1) = Some (s2, w2)"
      "merge_stage (cs \<noteq> []) (handle_candidates env cs) (s2, w2) = Some (s3, w3)"
    and w': "w' = (if ds_is_empty s3 then w3 else publish_delta env s3 w3)"
    using assms unfolding sync_clusters_def by (auto split: option.splits simp: bind_eq_Some_conv)
  have "w_frame w w3"
    using merge_stage_frame [OF stages(1)] merge_stage_frame [OF stages(2)] merge_stage_frame [OF stages(3)]
      handle_confirmed_frame handle_evicted_frame handle_candidates_frame by (meson w_frame_trans)
  then show ?thesis
    by (simp add: w' publish_delta_frame)
qed

end
