(* ===== verification/Machine.thy ===== *)
theory Machine
  imports Main
begin

text \<open>
  The contract of a component that runs as interleaved steps: some states may be initial, a step
  relation says what may happen next, and an invariant holds initially and is kept by every step.
  Whatever the invariant says then holds in every state a run can reach.
\<close>

locale machine =
  fixes starts :: "'s \<Rightarrow> bool" and steps :: "'s \<Rightarrow> 's \<Rightarrow> bool" and inv :: "'s \<Rightarrow> bool"
  assumes starts_inv: "starts s \<Longrightarrow> inv s"
    and steps_inv: "steps s s' \<Longrightarrow> inv s \<Longrightarrow> inv s'"
begin

lemma run_inv: "steps\<^sup>*\<^sup>* s s' \<Longrightarrow> inv s \<Longrightarrow> inv s'"
  by (induction rule: rtranclp_induct) (auto intro: steps_inv)

lemma reached_inv: "starts s0 \<Longrightarrow> steps\<^sup>*\<^sup>* s0 s \<Longrightarrow> inv s"
  using run_inv starts_inv by blast

end

end
