(* ===== verification/Gate.thy ===== *)
theory Gate
  imports Models Machine
begin

text \<open>
  The gate between applying a block and flushing the mempool journal
  (\<open>api/src/infra/block_gate.rs\<close>), together with the lock that serialises block application
  (\<open>apply_lock\<close> in \<open>api/src/services/block.rs\<close>). Instants are nanoseconds. What an \<open>await\<close> may
  interleave is a step relation over the gate, the callers of \<open>apply_block\<close> and the tick.
\<close>

section \<open>The gate\<close>

definition MAX_HOLD :: int where
  "MAX_HOLD = 300 * 1000000000"

record BlockGate =
  bg_held_since :: "instant option"
  bg_in_flight :: bool

definition gate_default :: BlockGate where
  "gate_default = \<lparr>bg_held_since = None, bg_in_flight = False\<rparr>"

text \<open>The answer, and the gate, which the question itself reopens once the holder is past the ceiling.\<close>

definition is_held :: "instant \<Rightarrow> BlockGate \<Rightarrow> bool \<times> BlockGate" where
  "is_held now g =
    (case bg_held_since g of
       Some acquired_at \<Rightarrow>
         if now - acquired_at < MAX_HOLD then (True, g) else (False, g\<lparr>bg_held_since := None\<rparr>)
     | None \<Rightarrow> (False, g))"

text \<open>The lease is taken before the question and given back when the answer is yes.\<close>

definition try_begin_flush :: "instant \<Rightarrow> BlockGate \<Rightarrow> bool \<times> BlockGate" where
  "try_begin_flush now g =
    (if bg_in_flight g then (False, g)
     else case is_held now (g\<lparr>bg_in_flight := True\<rparr>) of
            (True, g') \<Rightarrow> (False, g'\<lparr>bg_in_flight := False\<rparr>)
          | (False, g') \<Rightarrow> (True, g'))"

definition drop_lease :: "BlockGate \<Rightarrow> BlockGate" where
  "drop_lease g = g\<lparr>bg_in_flight := False\<rparr>"

text \<open>\<open>acquire\<close> in its two halves: it shuts the gate at once, then waits until no tick is in flight.\<close>

definition acquire_shut :: "instant \<Rightarrow> BlockGate \<Rightarrow> BlockGate" where
  "acquire_shut now g = g\<lparr>bg_held_since := Some now\<rparr>"

definition acquire_ready :: "BlockGate \<Rightarrow> bool" where
  "acquire_ready g \<longleftrightarrow> \<not> bg_in_flight g"

definition drop_guard :: "BlockGate \<Rightarrow> BlockGate" where
  "drop_guard g = g\<lparr>bg_held_since := None\<rparr>"

section \<open>Callers\<close>

text \<open>Where a caller of \<open>apply_block\<close> stands: outside, holding \<open>apply_lock\<close> (also how
  \<open>stop_applying\<close> holds it), waiting in \<open>acquire\<close> since an instant, or applying its block under
  the guard it took at that instant.\<close>

datatype caller = Outside | Locked | Waiting instant | Applying instant

fun gated_since :: "caller \<Rightarrow> instant option" where
  "gated_since (Waiting t) = Some t"
| "gated_since (Applying t) = Some t"
| "gated_since _ = None"

record gate_state =
  gs_now :: instant
  gs_gate :: BlockGate
  gs_apply_lock :: bool
  gs_callers :: "nat \<Rightarrow> caller"

definition gate_starts :: "gate_state \<Rightarrow> bool" where
  "gate_starts s \<longleftrightarrow> gs_gate s = gate_default \<and> \<not> gs_apply_lock s \<and> gs_callers s = (\<lambda>_. Outside)"

abbreviation move :: "nat \<Rightarrow> caller \<Rightarrow> gate_state \<Rightarrow> gate_state" where
  "move i c s \<equiv> s\<lparr>gs_callers := (gs_callers s)(i := c)\<rparr>"

text \<open>Dropping a future in \<open>acquire\<close> (a cancelled caller) drops the guard, as finishing does; the
  guard goes before the lock.\<close>

inductive gate_step :: "gate_state \<Rightarrow> gate_state \<Rightarrow> bool" where
  pass: "gs_now s \<le> t \<Longrightarrow> gate_step s (s\<lparr>gs_now := t\<rparr>)"
| tick_begin: "gate_step s (s\<lparr>gs_gate := snd (try_begin_flush (gs_now s) (gs_gate s))\<rparr>)"
| tick_asks: "bg_in_flight (gs_gate s) \<Longrightarrow> gate_step s (s\<lparr>gs_gate := snd (is_held (gs_now s) (gs_gate s))\<rparr>)"
| tick_end: "bg_in_flight (gs_gate s) \<Longrightarrow> gate_step s (s\<lparr>gs_gate := drop_lease (gs_gate s)\<rparr>)"
| lock: "gs_callers s i = Outside \<Longrightarrow> \<not> gs_apply_lock s \<Longrightarrow> gate_step s (move i Locked s\<lparr>gs_apply_lock := True\<rparr>)"
| shut: "gs_callers s i = Locked \<Longrightarrow>
    gate_step s (move i (Waiting (gs_now s)) s\<lparr>gs_gate := acquire_shut (gs_now s) (gs_gate s)\<rparr>)"
| enter: "gs_callers s i = Waiting t \<Longrightarrow> acquire_ready (gs_gate s) \<Longrightarrow> gate_step s (move i (Applying t) s)"
| release: "gated_since (gs_callers s i) = Some t \<Longrightarrow>
    gate_step s (move i Locked s\<lparr>gs_gate := drop_guard (gs_gate s)\<rparr>)"
| unlock: "gs_callers s i = Locked \<Longrightarrow> gate_step s (move i Outside s\<lparr>gs_apply_lock := False\<rparr>)"

inductive_cases gate_stepE: "gate_step s s'"

section \<open>Invariant\<close>

definition expired :: "instant \<Rightarrow> instant \<Rightarrow> bool" where
  "expired now t \<longleftrightarrow> t + MAX_HOLD \<le> now"

text \<open>Only the lock's holder is not outside; the gate is shut exactly for it, unless its time is up;
  and a tick beside an applied block means its time is up.\<close>

definition gate_inv :: "gate_state \<Rightarrow> bool" where
  "gate_inv s \<longleftrightarrow>
    (\<forall>i. gs_callers s i \<noteq> Outside \<longrightarrow> gs_apply_lock s) \<and>
    (\<forall>i j. gs_callers s i \<noteq> Outside \<longrightarrow> gs_callers s j \<noteq> Outside \<longrightarrow> i = j) \<and>
    (\<forall>t. bg_held_since (gs_gate s) = Some t \<longrightarrow> (\<exists>i. gated_since (gs_callers s i) = Some t)) \<and>
    (\<forall>i t. gated_since (gs_callers s i) = Some t \<longrightarrow>
       t \<le> gs_now s \<and> (bg_held_since (gs_gate s) = Some t \<or> expired (gs_now s) t)) \<and>
    (\<forall>i t. gs_callers s i = Applying t \<longrightarrow> bg_in_flight (gs_gate s) \<longrightarrow> expired (gs_now s) t)"

lemma gated_not_outside: "gated_since c = Some t \<Longrightarrow> c \<noteq> Outside"
  by (cases c) auto

lemma gated_iff: "gated_since c = Some t \<longleftrightarrow> c = Waiting t \<or> c = Applying t"
  by (cases c) auto

lemma is_held_iff: "fst (is_held now g) \<longleftrightarrow> (\<exists>t. bg_held_since g = Some t \<and> \<not> expired now t)"
  by (auto simp: is_held_def expired_def split: option.split)

lemma is_held_gate:
  "snd (is_held now g) = (case bg_held_since g of
     Some t \<Rightarrow> if expired now t then g\<lparr>bg_held_since := None\<rparr> else g | None \<Rightarrow> g)"
  by (auto simp: is_held_def expired_def split: option.split)

lemma try_begin_flush_iff: "fst (try_begin_flush now g) \<longleftrightarrow> \<not> bg_in_flight g \<and> \<not> fst (is_held now g)"
  by (auto simp: try_begin_flush_def is_held_def split: option.split)

lemma try_begin_flush_gate:
  "snd (try_begin_flush now g) = (if bg_in_flight g then g
     else (snd (is_held now g))\<lparr>bg_in_flight := \<not> fst (is_held now g)\<rparr>)"
  by (auto simp: try_begin_flush_def is_held_def split: option.split)

lemma expired_mono: "expired now t \<Longrightarrow> now \<le> now' \<Longrightarrow> expired now' t"
  by (simp add: expired_def)

lemma gate_inv_alone:
  "gate_inv s \<Longrightarrow> gated_since (gs_callers s i) = Some t \<Longrightarrow> gated_since (gs_callers s j) = Some u \<Longrightarrow> i = j \<and> t = u"
  unfolding gate_inv_def by (metis gated_not_outside option.inject)

lemma gate_inv_asked:
  assumes "gate_inv s"
  shows "gate_inv (s\<lparr>gs_gate := snd (is_held (gs_now s) (gs_gate s))\<rparr>)"
  using assms gate_inv_alone [OF assms] unfolding gate_inv_def is_held_gate
  by (auto split: option.split) blast

lemma gate_inv_begin:
  assumes "gate_inv s" "\<not> bg_in_flight (gs_gate s)" "\<not> fst (is_held (gs_now s) (gs_gate s))"
  shows "gate_inv (s\<lparr>gs_gate := (gs_gate s)\<lparr>bg_in_flight := True\<rparr>\<rparr>)"
  using assms unfolding gate_inv_def is_held_iff by (auto simp: gated_iff) blast

lemma gate_step_inv:
  assumes "gate_step s s'" "gate_inv s"
  shows "gate_inv s'"
  using assms
proof (cases rule: gate_step.cases)
  case (pass t)
  then show ?thesis
    using assms(2) unfolding gate_inv_def by (auto simp: expired_def) force+
next
  case tick_begin
  let ?s = "s\<lparr>gs_gate := snd (is_held (gs_now s) (gs_gate s))\<rparr>"
  have inv: "gate_inv ?s"
    by (rule gate_inv_asked [OF assms(2)])
  have flight: "bg_in_flight (snd (is_held (gs_now s) (gs_gate s))) = bg_in_flight (gs_gate s)"
    by (simp add: is_held_gate split: option.split)
  have again: "fst (is_held now (snd (is_held now g))) = fst (is_held now g)" for now g
    by (auto simp: is_held_def split: option.splits)
  show ?thesis
  proof (cases "bg_in_flight (gs_gate s) \<or> fst (is_held (gs_now s) (gs_gate s))")
    case True
    then have "s' = s \<or> s' = ?s"
      using tick_begin flight by (auto simp: try_begin_flush_gate)
    then show ?thesis
      using inv assms(2) by auto
  next
    case False
    then show ?thesis
      using tick_begin gate_inv_begin [OF inv] by (simp add: try_begin_flush_gate flight again)
  qed
next
  case tick_asks
  then show ?thesis
    using gate_inv_asked [OF assms(2)] by simp
next
  case tick_end
  then show ?thesis
    using assms(2) unfolding gate_inv_def drop_lease_def by auto
next
  case (lock i)
  then show ?thesis
    using assms(2) unfolding gate_inv_def by (auto split: if_splits)
next
  case (shut i)
  then show ?thesis
    using assms(2) unfolding gate_inv_def acquire_shut_def by (auto simp: gated_iff)
next
  case (enter i t)
  then show ?thesis
    using assms(2) unfolding gate_inv_def acquire_ready_def
    by (auto simp: gated_iff) (metis caller.distinct caller.inject)+
next
  case (release i t)
  then show ?thesis
    using assms(2) gate_inv_alone [OF assms(2)] unfolding gate_inv_def drop_guard_def by (auto simp: gated_iff)
next
  case (unlock i)
  then show ?thesis
    using assms(2) unfolding gate_inv_def by (auto simp: gated_iff) (metis caller.distinct)+
qed

interpretation gate: machine gate_starts gate_step gate_inv
  by (unfold_locales, simp add: gate_starts_def gate_inv_def gate_default_def, rule gate_step_inv)

section \<open>Properties\<close>

text \<open>C7: A block is applied alone. In every state a run of the gate can reach, at most one caller of
  \<open>apply_block\<close> is past \<open>apply_lock\<close>, and a tick is in flight beside an applied block only when
  that block shut the gate at least \<open>MAX_HOLD\<close> ago.\<close>

theorem gate_excludes:
  assumes "gate_starts s0" "gate_step\<^sup>*\<^sup>* s0 s" "gs_callers s i = Applying t"
  shows "(\<forall>j. gs_callers s j \<noteq> Outside \<longrightarrow> j = i) \<and>
    (bg_in_flight (gs_gate s) \<longrightarrow> gs_now s - t \<ge> MAX_HOLD)"
  using gate.reached_inv [OF assms(1,2)] assms(3) unfolding gate_inv_def expired_def
  by (metis add.commute caller.distinct(5) le_diff_eq)

definition sample_gate_state :: gate_state where
  "sample_gate_state = \<lparr>gs_now = 7, gs_gate = gate_default, gs_apply_lock = False, gs_callers = (\<lambda>_. Outside)\<rparr>"

definition sample_applying :: gate_state where
  "sample_applying = \<lparr>gs_now = 7, gs_gate = \<lparr>bg_held_since = Some 7, bg_in_flight = False\<rparr>,
     gs_apply_lock = True, gs_callers = (\<lambda>_. Outside)(3 := Applying 7)\<rparr>"

lemma sample_gate_starts: "gate_starts sample_gate_state"
  by (simp add: gate_starts_def sample_gate_state_def)

lemma sample_applying_reached: "gate_step\<^sup>*\<^sup>* sample_gate_state sample_applying"
proof -
  let ?s1 = "move 3 Locked sample_gate_state\<lparr>gs_apply_lock := True\<rparr>"
  let ?s2 = "move 3 (Waiting (gs_now ?s1)) ?s1\<lparr>gs_gate := acquire_shut (gs_now ?s1) (gs_gate ?s1)\<rparr>"
  have "gate_step sample_gate_state ?s1"
    by (rule gate_step.lock) (simp_all add: sample_gate_state_def)
  moreover have "gate_step ?s1 ?s2"
    by (rule gate_step.shut) simp
  moreover have "gate_step ?s2 (move 3 (Applying 7) ?s2)"
    by (rule gate_step.enter)
      (simp_all add: sample_gate_state_def acquire_ready_def acquire_shut_def gate_default_def)
  moreover have "move 3 (Applying 7) ?s2 = sample_applying"
    by (simp add: sample_applying_def sample_gate_state_def acquire_shut_def gate_default_def)
  ultimately show ?thesis
    by (auto intro: converse_rtranclp_into_rtranclp)
qed

theorem gate_excludes_witness: "gs_callers sample_applying 3 = Applying 7 \<and> gs_callers sample_applying 2 = Outside"
proof -
  have "gs_callers sample_applying 3 = Applying 7"
    by (simp add: sample_applying_def)
  with gate_excludes [OF sample_gate_starts sample_applying_reached this] show ?thesis
    by auto
qed

text \<open>C18: When a tick may begin. In every reachable state the gate counts as held exactly while some
  caller has it shut and is not past the ceiling, and a tick gets its lease exactly when no other
  tick is in flight and the gate is not held: so a new tick never starts beside a block unless the
  block is past \<open>MAX_HOLD\<close>, and a finished, cancelled or overlong block never keeps ticks out.\<close>

theorem flush_begins_exactly:
  assumes "gate_starts s0" "gate_step\<^sup>*\<^sup>* s0 s"
  shows "(fst (is_held (gs_now s) (gs_gate s)) \<longleftrightarrow>
      (\<exists>i t. gated_since (gs_callers s i) = Some t \<and> gs_now s - t < MAX_HOLD)) \<and>
    (fst (try_begin_flush (gs_now s) (gs_gate s)) \<longleftrightarrow>
      \<not> bg_in_flight (gs_gate s) \<and>
      (\<forall>i t. gated_since (gs_callers s i) = Some t \<longrightarrow> gs_now s - t \<ge> MAX_HOLD))"
proof -
  note inv = gate.reached_inv [OF assms]
  have "(\<exists>t. bg_held_since (gs_gate s) = Some t \<and> \<not> expired (gs_now s) t) \<longleftrightarrow>
      (\<exists>i t. gated_since (gs_callers s i) = Some t \<and> \<not> expired (gs_now s) t)"
    using inv unfolding gate_inv_def by blast
  moreover have "\<not> expired now t \<longleftrightarrow> now - t < MAX_HOLD" for now t
    by (auto simp: expired_def)
  ultimately show ?thesis
    unfolding try_begin_flush_iff is_held_iff by (metis not_le)
qed

theorem flush_begins_exactly_witness:
  "fst (is_held 7 (gs_gate sample_applying)) \<and> \<not> fst (try_begin_flush 7 (gs_gate sample_applying))"
  using flush_begins_exactly [OF sample_gate_starts sample_applying_reached]
  by (auto simp: sample_applying_def MAX_HOLD_def intro!: exI [of _ 3])

end
