(* ===== verification/Backoff.thy ===== *)
theory Backoff
  imports "HOL-Library.Word"
begin

text \<open>
  The doubling backoff that the block catch-up and the transaction backfill use. Durations are
  nanoseconds as natural numbers; attempt counters keep their machine width. The arithmetic is the
  standard library's: a checked shift of a 32-bit one, and a multiplication that saturates at the
  longest duration.
\<close>

section \<open>Standard arithmetic\<close>

definition DURATION_MAX :: nat where
  "DURATION_MAX = (2 ^ 64 - 1) * 1000000000 + 999999999"

definition from_millis :: "nat \<Rightarrow> nat" where
  "from_millis ms = ms * 1000000"

definition from_secs :: "nat \<Rightarrow> nat" where
  "from_secs s = s * 1000000000"

definition checked_shl :: "32 word \<Rightarrow> 32 word \<Rightarrow> 32 word option" where
  "checked_shl x n = (if unat n < 32 then Some (push_bit (unat n) x) else None)"

definition saturating_mul :: "nat \<Rightarrow> 32 word \<Rightarrow> nat" where
  "saturating_mul d k = (if d * unat k \<le> DURATION_MAX then d * unat k else DURATION_MAX)"

definition saturating_add :: "'a::len word \<Rightarrow> 'a word \<Rightarrow> 'a word" where
  "saturating_add x y = (if unat x + unat y < 2 ^ LENGTH('a) then x + y else -1)"

section \<open>What a client relies on\<close>

text \<open>A backoff as a function of an attempt counter: it doubles from a base and stops at a ceiling.\<close>

locale capped_doubling =
  fixes backoff :: "'a::len word \<Rightarrow> nat" and base :: nat and ceiling :: nat
  assumes doubles: "backoff n = min (base * 2 ^ unat n) ceiling"
    and base_pos: "0 < base" and base_le: "base \<le> ceiling"
begin

lemma at_most_ceiling: "backoff n \<le> ceiling"
  by (simp add: doubles)

lemma at_least_base: "base \<le> backoff n"
  using base_le mult_le_mono [of base base 1 "2 ^ unat n"] by (simp add: doubles)

lemma mono: "unat m \<le> unat n \<Longrightarrow> backoff m \<le> backoff n"
proof -
  assume "unat m \<le> unat n"
  then have "base * 2 ^ unat m \<le> base * 2 ^ unat n"
    by (simp add: power_increasing)
  then show ?thesis
    unfolding doubles by (rule min.mono) simp
qed

lemma doubles_until_capped:
  "unat n + 1 < 2 ^ LENGTH('a) \<Longrightarrow> backoff (n + 1) = min (2 * backoff n) ceiling"
  by (simp add: doubles unat_word_ariths take_bit_eq_mod min_def)

lemma window_bound: "sum_list (map (\<lambda>k. backoff (word_of_nat k)) [0..<n]) \<le> n * ceiling"
  using sum_list_mono [of "[0..<n]" "\<lambda>k. backoff (word_of_nat k)" "\<lambda>_. ceiling"]
  by (simp add: at_most_ceiling sum_list_triv)

end

section \<open>Facts\<close>

text \<open>Whatever the counter, the shifted factor is either the power of two or so large that the
  ceiling applies.\<close>

lemma capped_factor:
  assumes "0 < base" "base \<le> ceiling" "ceiling \<le> base * 2 ^ 31" "ceiling \<le> DURATION_MAX"
  shows "min (saturating_mul base (case checked_shl 1 n of Some f \<Rightarrow> f | None \<Rightarrow> -1)) ceiling =
    min (base * 2 ^ unat n) ceiling"
proof (cases "unat n < 32")
  case True
  then have "(2 :: nat) ^ unat n < 2 ^ 32"
    by (intro power_strict_increasing) simp_all
  then have "unat (push_bit (unat n) (1 :: 32 word)) = 2 ^ unat n"
    by (simp add: unsigned_push_bit_eq take_bit_eq_mod del: push_bit_of_1)
  then show ?thesis
    using True assms(4) by (simp add: checked_shl_def saturating_mul_def)
next
  case False
  have "base * 2 ^ 31 \<le> base * unat (-1 :: 32 word)"
    by (simp add: unsigned_minus_1_eq_mask mask_eq_exp_minus_1)
  then have "ceiling \<le> saturating_mul base (-1)"
    using assms(3,4) unfolding saturating_mul_def by (auto intro: order.trans)
  moreover have "base * 2 ^ 31 \<le> base * 2 ^ unat n"
    using False by (intro mult_le_mono2 power_increasing) simp_all
  then have "ceiling \<le> base * 2 ^ unat n"
    using assms(3) by linarith
  ultimately show ?thesis
    using False by (simp add: checked_shl_def)
qed

lemma saturating_add_one: "unat (saturating_add x 1) = min (unat x + 1) (2 ^ LENGTH('a) - 1)"
  for x :: "'a::len word"
proof (cases "unat x + unat (1 :: 'a word) < 2 ^ LENGTH('a)")
  case True
  then show ?thesis
    by (simp add: saturating_add_def unat_word_ariths)
next
  case False
  then show ?thesis
    using unsigned_less [of x] by (simp add: saturating_add_def unsigned_minus_1_eq_mask mask_eq_exp_minus_1)
qed

end
