(* ===== verification/Backfill.thy ===== *)
theory Backfill
  imports Tx_Repo Backoff Machine
begin

text \<open>
  The transaction backfill (\<open>api/src/services/tx_backfill.rs\<close>): a bounded queue of txids whose row
  is not complete, and a consumer that fetches each from the node, at most four at a time, and
  retries what failed for a passing reason. One request is a function of what the node and the
  database answer; the consumer's concurrency is a step relation. The channel is as \<open>tokio\<close>
  documents it: a closed channel refuses, a full one refuses, and a closed one still hands out what
  it buffered. The randomised part of the delay is a parameter.
\<close>

section \<open>Constants\<close>

definition MAX_CONCURRENT_BACKFILLS :: nat where
  "MAX_CONCURRENT_BACKFILLS = 4"

definition MAX_ATTEMPTS :: "8 word" where
  "MAX_ATTEMPTS = 37"

definition RETRY_BACKOFF_BASE :: nat where
  "RETRY_BACKOFF_BASE = from_millis 250"

definition MAX_RETRY_BACKOFF :: nat where
  "MAX_RETRY_BACKOFF = from_secs 60"

definition should_retry :: "8 word \<Rightarrow> bool \<Rightarrow> bool" where
  "should_retry attempts_made in_mempool \<longleftrightarrow> in_mempool \<or> attempts_made < MAX_ATTEMPTS"

definition retry_backoff :: "8 word \<Rightarrow> nat" where
  "retry_backoff attempts =
    (let factor = (case checked_shl 1 (ucast attempts) of Some f \<Rightarrow> f | None \<Rightarrow> -1)
     in min (saturating_mul RETRY_BACKOFF_BASE factor) MAX_RETRY_BACKOFF)"

section \<open>The queue\<close>

record BackfillRequest =
  br_txid :: txid
  br_attempts :: "8 word"
  br_stage :: BackfillStage

definition request_new :: "txid \<Rightarrow> BackfillStage \<Rightarrow> BackfillRequest" where
  "request_new txid stage = \<lparr>br_txid = txid, br_attempts = 0, br_stage = stage\<rparr>"

record TxBackfillQueue =
  bq_capacity :: nat
  bq_buffer :: "BackfillRequest list"
  bq_closed :: bool
  bq_receiver :: bool
  bq_enqueued_total :: nat
  bq_dropped_total :: nat

text \<open>\<open>mpsc::channel\<close> panics when its capacity is 0 or above \<open>Semaphore::MAX_PERMITS\<close>: the value \<open>None\<close>.\<close>

definition MAX_PERMITS :: nat where
  "MAX_PERMITS = 2 ^ 61 - 1"

definition empty_queue :: "nat \<Rightarrow> TxBackfillQueue" where
  "empty_queue capacity = \<lparr>bq_capacity = capacity, bq_buffer = [], bq_closed = False, bq_receiver = True,
     bq_enqueued_total = 0, bq_dropped_total = 0\<rparr>"

definition queue_new :: "nat \<Rightarrow> TxBackfillQueue option" where
  "queue_new capacity = (if capacity = 0 \<or> MAX_PERMITS < capacity then None else Some (empty_queue capacity))"

datatype TrySendError = Full | Closed

definition try_send :: "BackfillRequest \<Rightarrow> TxBackfillQueue \<Rightarrow> TrySendError + TxBackfillQueue" where
  "try_send req q =
    (if bq_closed q then Inl Closed
     else if bq_capacity q \<le> length (bq_buffer q) then Inl Full
     else Inr (q\<lparr>bq_buffer := bq_buffer q @ [req]\<rparr>))"

definition send :: "BackfillRequest \<Rightarrow> TxBackfillQueue \<Rightarrow> bool \<times> TxBackfillQueue" where
  "send req q =
    (case try_send req q of
       Inr q' \<Rightarrow> (True, q')
     | Inl Full \<Rightarrow> (False, q\<lparr>bq_dropped_total := Suc (bq_dropped_total q)\<rparr>)
     | Inl Closed \<Rightarrow> (False, q))"

definition enqueue :: "txid \<Rightarrow> BackfillStage \<Rightarrow> TxBackfillQueue \<Rightarrow> TxBackfillQueue" where
  "enqueue txid stage q =
    (case send (request_new txid stage) q of
       (True, q') \<Rightarrow> q'\<lparr>bq_enqueued_total := Suc (bq_enqueued_total q')\<rparr>
     | (False, q') \<Rightarrow> q')"

definition requeue :: "BackfillRequest \<Rightarrow> TxBackfillQueue \<Rightarrow> TxBackfillQueue" where
  "requeue req q = snd (send req q)"

definition take_receiver :: "TxBackfillQueue \<Rightarrow> bool \<times> TxBackfillQueue" where
  "take_receiver q = (bq_receiver q, q\<lparr>bq_receiver := False\<rparr>)"

section \<open>One request\<close>

text \<open>What the outside answers while one request runs: the node's two answers, whether each update
  fails, and what other writers do to the database between the two stages.\<close>

record answers =
  an_raw :: "ObserverError + GetRawTransactionModel"
  an_raw_fault :: fault
  an_meanwhile :: "db \<Rightarrow> db"
  an_entry :: "ObserverError + MempoolEntrySummary"
  an_entry_fault :: fault

definition run_raw_stage :: "answers \<Rightarrow> txid \<Rightarrow> db \<Rightarrow> (ObserverError + BackfillStage option) \<times> db" where
  "run_raw_stage a txid d =
    (case an_raw a of
       Inl e \<Rightarrow> (Inl e, d)
     | Inr tx \<Rightarrow>
         (case backfill_raw (an_raw_fault a) txid (rt_input_txids tx) (i64_of (rt_weight tx)) d of
            (Inr None, d') \<Rightarrow> (Inr None, d')
          | (Inr (Some fill), d') \<Rightarrow> (Inr (backfill_stage fill), d')
          | (Inl e, d') \<Rightarrow> (Inr None, d')))"

definition run_entry_stage :: "answers \<Rightarrow> txid \<Rightarrow> db \<Rightarrow> (ObserverError + BackfillStage option) \<times> db" where
  "run_entry_stage a txid d =
    (case an_entry a of
       Inl e \<Rightarrow> (Inl e, d)
     | Inr entry \<Rightarrow>
         (case backfill_fee (an_entry_fault a) txid (i64_of (es_fee_in_sats entry)) d of
            (Inr None, d') \<Rightarrow> (Inr None, d')
          | (Inr (Some fill), d') \<Rightarrow> (Inr (backfill_stage fill), d')
          | (Inl e, d') \<Rightarrow> (Inr None, d')))"

definition run_stages ::
  "answers \<Rightarrow> txid \<Rightarrow> BackfillStage \<Rightarrow> db \<Rightarrow> ((BackfillStage \<times> ObserverError) + unit) \<times> db" where
  "run_stages a txid stage d =
    (case (if stage = Raw then map_prod id (an_meanwhile a) (run_raw_stage a txid d)
           else (Inr (Some stage), d)) of
       (Inl e, d1) \<Rightarrow> (Inl (Raw, e), d1)
     | (Inr next_stage, d1) \<Rightarrow>
         if next_stage = Some Entry
         then (case run_entry_stage a txid d1 of
                 (Inl e, d2) \<Rightarrow> (Inl (Entry, e), d2)
               | (Inr _, d2) \<Rightarrow> (Inr (), d2))
         else (Inr (), d1))"

text \<open>What \<open>process\<close> does with the outcome, up to the delay before a retry.\<close>

datatype verdict =
    Finished
  | LeftHollow
  | Malformed
  | GivenUp
  | Retry BackfillRequest nat

definition verdict_of ::
  "(nat \<Rightarrow> txid \<times> 8 word \<Rightarrow> nat) \<Rightarrow> Inner \<Rightarrow> BackfillRequest \<Rightarrow> (BackfillStage \<times> ObserverError) + unit \<Rightarrow> verdict" where
  "verdict_of jittered ledger req outcome =
    (case outcome of
       Inr _ \<Rightarrow> Finished
     | Inl (stage, TxNotFoundInMempool _) \<Rightarrow> LeftHollow
     | Inl (stage, InvalidParams _) \<Rightarrow> Malformed
     | Inl (stage, e) \<Rightarrow>
         (let attempts_made = saturating_add (br_attempts req) 1;
              in_mempool = contains (br_txid req) ledger
          in if should_retry attempts_made in_mempool
             then Retry \<lparr>br_txid = br_txid req, br_attempts = attempts_made, br_stage = stage\<rparr>
                    (jittered (retry_backoff (br_attempts req)) (br_txid req, br_attempts req))
             else GivenUp))"

definition process ::
  "(nat \<Rightarrow> txid \<times> 8 word \<Rightarrow> nat) \<Rightarrow> answers \<Rightarrow> Inner \<Rightarrow> BackfillRequest \<Rightarrow> db \<Rightarrow> verdict \<times> db" where
  "process jittered a ledger req d =
    map_prod (verdict_of jittered ledger req) id (run_stages a (br_txid req) (br_stage req) d)"

section \<open>The consumer\<close>

text \<open>\<open>cn_popped\<close> is the request taken off the channel that waits for a fetch slot: meanwhile the
  loop does nothing else. \<open>cn_left\<close> says the loop was left, so only spawned tasks remain.\<close>

record consumer =
  cn_queue :: TxBackfillQueue
  cn_popped :: "BackfillRequest option"
  cn_fetching :: "BackfillRequest list"
  cn_delayed :: "BackfillRequest list"
  cn_left :: bool

definition consumer_starts :: "consumer \<Rightarrow> bool" where
  "consumer_starts c \<longleftrightarrow> (\<exists>capacity. queue_new capacity = Some (cn_queue c)) \<and> cn_popped c = None \<and>
     cn_fetching c = [] \<and> cn_delayed c = [] \<and> \<not> cn_left c"

definition returned :: "consumer \<Rightarrow> bool" where
  "returned c \<longleftrightarrow> cn_left c \<and> cn_fetching c = [] \<and> cn_delayed c = []"

definition in_loop :: "consumer \<Rightarrow> bool" where
  "in_loop c \<longleftrightarrow> \<not> cn_left c \<and> cn_popped c = None"

fun settle :: "verdict \<Rightarrow> BackfillRequest list \<Rightarrow> BackfillRequest list" where
  "settle (Retry req _) delayed = delayed @ [req]"
| "settle _ delayed = delayed"

inductive work_step :: "consumer \<Rightarrow> consumer \<Rightarrow> bool" where
  recv: "in_loop c \<Longrightarrow> bq_buffer (cn_queue c) = req # rest \<Longrightarrow>
    work_step c (c\<lparr>cn_queue := (cn_queue c)\<lparr>bq_buffer := rest\<rparr>, cn_popped := Some req\<rparr>)"
| spawn: "\<not> cn_left c \<Longrightarrow> cn_popped c = Some req \<Longrightarrow> length (cn_fetching c) < MAX_CONCURRENT_BACKFILLS \<Longrightarrow>
    work_step c (c\<lparr>cn_popped := None, cn_fetching := cn_fetching c @ [req]\<rparr>)"
| fetched: "cn_fetching c = before @ req # after \<Longrightarrow>
    work_step c (c\<lparr>cn_fetching := before @ after,
      cn_delayed := settle (fst (process jittered a ledger req d)) (cn_delayed c)\<rparr>)"
| wake: "cn_delayed c = before @ req # after \<Longrightarrow>
    work_step c (c\<lparr>cn_delayed := before @ after, cn_queue := requeue req (cn_queue c)\<rparr>)"
| abandon: "cn_delayed c = before @ req # after \<Longrightarrow> bq_closed (cn_queue c) \<Longrightarrow>
    work_step c (c\<lparr>cn_delayed := before @ after\<rparr>)"
| leave: "in_loop c \<Longrightarrow> bq_closed (cn_queue c) \<Longrightarrow> bq_buffer (cn_queue c) = [] \<Longrightarrow>
    work_step c (c\<lparr>cn_left := True\<rparr>)"

inductive consumer_step :: "consumer \<Rightarrow> consumer \<Rightarrow> bool" where
  work: "work_step c c' \<Longrightarrow> consumer_step c c'"
| offer: "consumer_step c (c\<lparr>cn_queue := enqueue txid stage (cn_queue c)\<rparr>)"
| shutdown: "in_loop c \<Longrightarrow> consumer_step c (c\<lparr>cn_queue := (cn_queue c)\<lparr>bq_closed := True\<rparr>\<rparr>)"

section \<open>Order of the stages\<close>

instantiation BackfillStage :: linorder
begin

definition less_eq_BackfillStage :: "BackfillStage \<Rightarrow> BackfillStage \<Rightarrow> bool" where
  "less_eq_BackfillStage a b \<longleftrightarrow> a = Raw \<or> b = Entry"

definition less_BackfillStage :: "BackfillStage \<Rightarrow> BackfillStage \<Rightarrow> bool" where
  "less_BackfillStage a b \<longleftrightarrow> a = Raw \<and> b = Entry"

instance
  by standard (auto simp: less_eq_BackfillStage_def less_BackfillStage_def intro: BackfillStage.exhaust)

end

section \<open>Backoff\<close>

lemma unat_ucast_u8: "unat (ucast (x :: 8 word) :: 32 word) = unat x"
proof -
  have "unat x < 2 ^ 8"
    using unsigned_less [of x] by simp
  then show ?thesis
    by (simp add: unsigned_ucast_eq take_bit_eq_mod)
qed

interpretation retry: capped_doubling retry_backoff RETRY_BACKOFF_BASE MAX_RETRY_BACKOFF
proof
  show "retry_backoff n = min (RETRY_BACKOFF_BASE * 2 ^ unat n) MAX_RETRY_BACKOFF" for n
    unfolding retry_backoff_def Let_def unat_ucast_u8 [symmetric]
    by (rule capped_factor)
      (simp_all add: RETRY_BACKOFF_BASE_def MAX_RETRY_BACKOFF_def from_millis_def from_secs_def DURATION_MAX_def)
qed (simp_all add: RETRY_BACKOFF_BASE_def MAX_RETRY_BACKOFF_def from_millis_def from_secs_def)

section \<open>One request, every outcome\<close>

definition passing :: "ObserverError \<Rightarrow> bool" where
  "passing e \<longleftrightarrow> (case e of TxNotFoundInMempool _ \<Rightarrow> False | InvalidParams _ \<Rightarrow> False | _ \<Rightarrow> True)"

lemma verdict_of_failure:
  "passing e \<Longrightarrow> verdict_of jittered ledger req (Inl (stage, e)) =
    (if should_retry (saturating_add (br_attempts req) 1) (contains (br_txid req) ledger)
     then Retry \<lparr>br_txid = br_txid req, br_attempts = saturating_add (br_attempts req) 1, br_stage = stage\<rparr>
       (jittered (retry_backoff (br_attempts req)) (br_txid req, br_attempts req))
     else GivenUp)"
  by (cases e) (simp_all add: verdict_of_def passing_def Let_def)

lemma verdict_of_Retry:
  "verdict_of jittered ledger req outcome = Retry req' delay \<longleftrightarrow>
    (\<exists>stage e. outcome = Inl (stage, e) \<and> passing e \<and>
       should_retry (saturating_add (br_attempts req) 1) (contains (br_txid req) ledger) \<and>
       req' = \<lparr>br_txid = br_txid req, br_attempts = saturating_add (br_attempts req) 1, br_stage = stage\<rparr> \<and>
       delay = jittered (retry_backoff (br_attempts req)) (br_txid req, br_attempts req))"
proof (cases outcome)
  case (Inl p)
  obtain stage e where p: "p = (stage, e)"
    by (rule prod.exhaust)
  show ?thesis
  proof (cases "passing e")
    case True
    then show ?thesis
      by (auto simp: Inl p verdict_of_failure)
  next
    case False
    then show ?thesis
      by (cases e) (auto simp: Inl p verdict_of_def passing_def)
  qed
qed (simp add: verdict_of_def)

lemma run_stages_Inl:
  assumes "run_stages a txid stage d = (Inl (failed, e), d')"
  shows "stage \<le> failed" and "failed = Raw \<Longrightarrow> an_raw a = Inl e \<and> d' = an_meanwhile a d"
    and "failed = Entry \<Longrightarrow> an_entry a = Inl e"
  using assms unfolding run_stages_def run_raw_stage_def run_entry_stage_def less_eq_BackfillStage_def
  by (cases stage; auto split: sum.splits option.splits prod.splits if_splits)+

lemma update_returning_row:
  assumes "distinct (map tx_txid (db_transactions d))" "t \<in> set (db_transactions d)" "tx_txid t = txid" "cond t"
  shows "update_returning txid cond f d = Inr (Some (tx_fill (f t)),
    d\<lparr>db_transactions := map (\<lambda>r. if r = t then f t else r) (db_transactions d)\<rparr>)"
proof -
  have only: "r = t" if "r \<in> set (db_transactions d)" "tx_txid r = txid" for r
    using that assms(1-3) by (metis distinct_map inj_onD)
  have "find (\<lambda>r. tx_txid r = txid \<and> cond r) (db_transactions d) = Some t"
  proof (cases "find (\<lambda>r. tx_txid r = txid \<and> cond r) (db_transactions d)")
    case None
    then show ?thesis
      using assms(2-4) by (auto simp: find_None_iff)
  next
    case (Some r)
    then have "r \<in> set (db_transactions d) \<and> tx_txid r = txid"
      by (auto simp: find_Some_iff)
    then show ?thesis
      using only Some by simp
  qed
  moreover have "map (\<lambda>r. if tx_txid r = txid \<and> cond r then f r else r) (db_transactions d) =
      map (\<lambda>r. if r = t then f t else r) (db_transactions d)"
    by (rule map_cong [OF refl]) (use only assms(3,4) in metis)
  ultimately show ?thesis
    by (simp add: update_returning_def)
qed

text \<open>The row a request leaves when the node answers both stages.\<close>

definition filled :: "GetRawTransactionModel \<Rightarrow> MempoolEntrySummary \<Rightarrow> Transaction \<Rightarrow> Transaction" where
  "filled raw entry t =
    (let t1 = (if tx_input_txids t = None \<or> tx_weight t = 0
               then t\<lparr>tx_input_txids := Some (rt_input_txids raw), tx_weight := i64_of (rt_weight raw)\<rparr> else t)
     in if tx_fee t1 = None then t1\<lparr>tx_fee := Some (i64_of (es_fee_in_sats entry))\<rparr> else t1)"

definition undisturbed :: "GetRawTransactionModel \<Rightarrow> MempoolEntrySummary \<Rightarrow> answers" where
  "undisturbed raw entry = \<lparr>an_raw = Inr raw, an_raw_fault = None, an_meanwhile = id,
     an_entry = Inr entry, an_entry_fault = None\<rparr>"

lemma run_entry_stage_row:
  assumes "distinct (map tx_txid (db_transactions d))" "t \<in> set (db_transactions d)" "tx_txid t = txid"
    "tx_fee t = None"
  shows "run_entry_stage (undisturbed raw entry) txid d =
    (Inr (backfill_stage (tx_fill (t\<lparr>tx_fee := Some (i64_of (es_fee_in_sats entry))\<rparr>))),
     d\<lparr>db_transactions := map (\<lambda>r. if r = t then t\<lparr>tx_fee := Some (i64_of (es_fee_in_sats entry))\<rparr> else r)
       (db_transactions d)\<rparr>)"
  using assms by (simp add: run_entry_stage_def undisturbed_def backfill_fee_def query_def update_returning_row)

lemma run_stages_row:
  assumes "distinct (map tx_txid (db_transactions d))" "t \<in> set (db_transactions d)"
    "backfill_stage (tx_fill t) = Some stage" "i64_of (rt_weight raw) \<noteq> 0"
  shows "run_stages (undisturbed raw entry) (tx_txid t) stage d =
    (Inr (), d\<lparr>db_transactions := map (\<lambda>r. if r = t then filled raw entry t else r) (db_transactions d)\<rparr>)"
proof (cases stage)
  case Entry
  then have "tx_fee t = None" "tx_input_txids t \<noteq> None" "tx_weight t \<noteq> 0"
    using assms(3) by (auto simp: backfill_stage_def tx_fill_def split: if_splits)
  then have "filled raw entry t = t\<lparr>tx_fee := Some (i64_of (es_fee_in_sats entry))\<rparr>"
    by (auto simp: filled_def)
  then show ?thesis
    using run_entry_stage_row [OF assms(1,2) refl \<open>tx_fee t = None\<close>] by (simp add: run_stages_def Entry)
next
  case Raw
  then have hollow: "tx_input_txids t = None \<or> tx_weight t = 0"
    using assms(3) by (auto simp: backfill_stage_def tx_fill_def split: if_splits)
  let ?t1 = "t\<lparr>tx_input_txids := Some (rt_input_txids raw), tx_weight := i64_of (rt_weight raw)\<rparr>"
  let ?d1 = "d\<lparr>db_transactions := map (\<lambda>r. if r = t then ?t1 else r) (db_transactions d)\<rparr>"
  have raw: "run_raw_stage (undisturbed raw entry) (tx_txid t) d = (Inr (backfill_stage (tx_fill ?t1)), ?d1)"
    using assms hollow by (simp add: run_raw_stage_def undisturbed_def backfill_raw_def query_def update_returning_row)
  have st: "backfill_stage (tx_fill ?t1) = (if tx_fee t = None then Some Entry else None)"
    using assms(4) by (simp add: backfill_stage_def tx_fill_def)
  show ?thesis
  proof (cases "tx_fee t = None")
    case False
    then have "filled raw entry t = ?t1"
      using hollow by (auto simp: filled_def Let_def)
    then show ?thesis
      using raw st False by (simp add: run_stages_def Raw undisturbed_def)
  next
    case True
    let ?t2 = "?t1\<lparr>tx_fee := Some (i64_of (es_fee_in_sats entry))\<rparr>"
    have filled: "filled raw entry t = ?t2"
      using hollow True by (auto simp: filled_def Let_def)
    have key: "tx_txid (if r = t then ?t1 else r) = tx_txid r" for r
      by simp
    have "distinct (map tx_txid (db_transactions ?d1))"
      using assms(1) by (simp add: comp_def key)
    moreover have "?t1 \<in> set (db_transactions ?d1)"
      using assms(2) by (auto intro!: image_eqI [of _ _ t])
    ultimately have entry: "run_entry_stage (undisturbed raw entry) (tx_txid t) ?d1 =
        (Inr (backfill_stage (tx_fill ?t2)),
         ?d1\<lparr>db_transactions := map (\<lambda>r. if r = ?t1 then ?t2 else r) (db_transactions ?d1)\<rparr>)"
      using True by (intro run_entry_stage_row) simp_all
    have only: "r = t" if "r \<in> set (db_transactions d)" "tx_txid r = tx_txid t" for r
      using that assms(1,2) by (metis distinct_map inj_onD)
    have "map (\<lambda>r. if r = ?t1 then ?t2 else r) (map (\<lambda>r. if r = t then ?t1 else r) (db_transactions d)) =
        map (\<lambda>r. if r = t then ?t2 else r) (db_transactions d)"
      unfolding map_map by (rule map_cong [OF refl]) (use only in auto)
    then show ?thesis
      using raw st True entry filled by (simp add: run_stages_def Raw undisturbed_def)
  qed
qed

section \<open>The consumer\<close>

lemma send_closed [simp]: "bq_closed q \<Longrightarrow> send req q = (False, q)"
  by (simp add: send_def try_send_def)

lemma requeue_closed [simp]: "bq_closed q \<Longrightarrow> requeue req q = q"
  by (simp add: requeue_def)

lemma send_keeps [simp]:
  "bq_closed (snd (send req q)) = bq_closed q" "bq_capacity (snd (send req q)) = bq_capacity q"
  by (simp_all add: send_def try_send_def split: sum.split TrySendError.split)

lemma send_room: "length (bq_buffer q) \<le> bq_capacity q \<Longrightarrow> length (bq_buffer (snd (send req q))) \<le> bq_capacity q"
  by (auto simp: send_def try_send_def split: sum.split TrySendError.split)

lemma enqueue_keeps [simp]:
  "bq_closed (enqueue txid stage q) = bq_closed q" "bq_capacity (enqueue txid stage q) = bq_capacity q"
  "bq_buffer (enqueue txid stage q) = bq_buffer (snd (send (request_new txid stage) q))"
proof -
  obtain b q' where run: "send (request_new txid stage) q = (b, q')"
    by (rule prod.exhaust)
  then show "bq_closed (enqueue txid stage q) = bq_closed q" "bq_capacity (enqueue txid stage q) = bq_capacity q"
    "bq_buffer (enqueue txid stage q) = bq_buffer (snd (send (request_new txid stage) q))"
    using send_keeps [of "request_new txid stage" q] by (cases b; simp add: enqueue_def)+
qed

definition consumer_inv :: "consumer \<Rightarrow> bool" where
  "consumer_inv c \<longleftrightarrow>
    length (bq_buffer (cn_queue c)) \<le> bq_capacity (cn_queue c) \<and>
    length (cn_fetching c) \<le> MAX_CONCURRENT_BACKFILLS \<and>
    (cn_left c \<longrightarrow> cn_popped c = None \<and> bq_closed (cn_queue c) \<and> bq_buffer (cn_queue c) = [])"

lemma work_step_inv: "work_step c c' \<Longrightarrow> consumer_inv c \<Longrightarrow> consumer_inv c'"
  unfolding consumer_inv_def
  by (induction rule: work_step.induct) (auto simp: in_loop_def requeue_def send_room)

lemma consumer_step_inv: "consumer_step c c' \<Longrightarrow> consumer_inv c \<Longrightarrow> consumer_inv c'"
proof (induction rule: consumer_step.induct)
  case (work c c')
  then show ?case
    by (rule work_step_inv)
qed (auto simp: consumer_inv_def in_loop_def send_room)

lemma consumer_starts_inv: "consumer_starts c \<Longrightarrow> consumer_inv c"
proof -
  assume starts: "consumer_starts c"
  then obtain capacity where "cn_queue c = empty_queue capacity"
    unfolding consumer_starts_def queue_new_def by (metis option.distinct(1) option.inject)
  with starts show ?thesis
    by (simp add: consumer_starts_def consumer_inv_def empty_queue_def)
qed

interpretation consumer: machine consumer_starts consumer_step consumer_inv
  by (unfold_locales, rule consumer_starts_inv, assumption, rule consumer_step_inv)

text \<open>What is left to do once the channel is closed.\<close>

definition backlog :: "consumer \<Rightarrow> nat" where
  "backlog c = 4 * length (bq_buffer (cn_queue c)) + (if cn_popped c = None then 0 else 3) +
     2 * length (cn_fetching c) + length (cn_delayed c) + (if cn_left c then 0 else 1)"

lemma length_settle: "length (settle v ds) \<le> Suc (length ds)"
  by (cases v) simp_all

lemma work_step_backlog:
  assumes "work_step c c'" "bq_closed (cn_queue c)"
  shows "bq_closed (cn_queue c') \<and> backlog c' < backlog c"
  using assms
proof (induction rule: work_step.induct)
  case (fetched c before req after jittered a ledger d)
  then show ?case
    using length_settle [of "fst (process jittered a ledger req d)" "cn_delayed c"] by (simp add: backlog_def)
qed (auto simp: backlog_def in_loop_def)

lemma work_possible:
  assumes "consumer_inv c" "bq_closed (cn_queue c)" "\<not> returned c"
  shows "\<exists>c'. work_step c c'"
proof (cases "cn_fetching c")
  case (Cons req after)
  then show ?thesis
    using work_step.fetched [of c "[]" req after] by (metis append_Nil)
next
  case Nil
  note no_fetch = this
  show ?thesis
  proof (cases "cn_delayed c")
    case (Cons req after)
    then show ?thesis
      using work_step.abandon [of c "[]" req after] assms(2) by (metis append_Nil)
  next
    case Nil
    then have "\<not> cn_left c"
      using assms(3) no_fetch by (simp add: returned_def)
    then show ?thesis
      using assms(2) no_fetch work_step.spawn [of c] work_step.recv [of c] work_step.leave [of c]
      by (cases "cn_popped c"; cases "bq_buffer (cn_queue c)")
        (auto simp: in_loop_def MAX_CONCURRENT_BACKFILLS_def)
  qed
qed

lemma window_sum:
  "sum_list (map (\<lambda>k. min (250000000 * 2 ^ k) 60000000000) [0..<36]) = (1743750000000::nat)"
proof -
  have a: "map (\<lambda>k. min (250000000 * 2 ^ k) (60000000000::nat)) [0..<8] =
    [250000000, 500000000, 1000000000, 2000000000, 4000000000, 8000000000, 16000000000, 32000000000]"
    by (simp add: upt_rec)
  have b: "min (250000000 * 2 ^ k) (60000000000::nat) = 60000000000" if "8 \<le> k" for k
    using power_increasing [OF that, of "2::nat"] by simp
  have "map (\<lambda>k. min (250000000 * 2 ^ k) (60000000000::nat)) [8..<36] = map (\<lambda>_. 60000000000) [8..<36]"
    by (rule map_cong [OF refl], rule b) (simp only: set_upt atLeastLessThan_iff)
  then have c: "sum_list (map (\<lambda>k. min (250000000 * 2 ^ k) (60000000000::nat)) [8..<36]) = 28 * 60000000000"
    by (simp add: sum_list_triv)
  have "[0..<36] = [0..<8] @ [8..<36]"
    using upt_add_eq_append [of 0 8 28] by simp
  then show ?thesis
    by (simp add: a c)
qed

section \<open>What a request leaves alone\<close>

text \<open>An update that only fills in what is missing, and a call that does so to the rows of one txid.\<close>

definition only_fills :: "Transaction \<Rightarrow> Transaction \<Rightarrow> bool" where
  "only_fills t t' \<longleftrightarrow> t' = t\<lparr>tx_input_txids := tx_input_txids t', tx_weight := tx_weight t', tx_fee := tx_fee t'\<rparr> \<and>
     (tx_fee t \<noteq> None \<longrightarrow> tx_fee t' = tx_fee t) \<and>
     (tx_input_txids t \<noteq> None \<and> tx_weight t \<noteq> 0 \<longrightarrow> tx_input_txids t' = tx_input_txids t \<and> tx_weight t' = tx_weight t)"

definition fills_row :: "txid \<Rightarrow> db \<Rightarrow> db \<Rightarrow> bool" where
  "fills_row txid d d' \<longleftrightarrow> (\<exists>f. db_transactions d' = map (\<lambda>r. if tx_txid r = txid then f r else r) (db_transactions d) \<and>
     (\<forall>r. only_fills r (f r)))"

lemma only_fills_refl [simp]: "only_fills t t"
  by (simp add: only_fills_def)

lemma fills_row_refl: "fills_row txid d d"
  unfolding fills_row_def by (intro exI [of _ "\<lambda>r. r"]) simp

interpretation row_calls: call_contract "fills_row txid" for txid
  by unfold_locales (use fills_row_refl in \<open>auto simp: fills_row_def\<close>)

lemma update_returning_fills_row:
  assumes "update_returning txid cond f d = Inr (x, d')" "\<And>t. cond t \<Longrightarrow> only_fills t (f t)"
  shows "fills_row txid d d'"
proof (cases "find (\<lambda>t. tx_txid t = txid \<and> cond t) (db_transactions d)")
  case None
  then show ?thesis
    using assms(1) fills_row_refl by (simp add: update_returning_def)
next
  case (Some t)
  then have "db_transactions d' = map (\<lambda>r. if tx_txid r = txid then (if cond r then f r else r) else r) (db_transactions d)"
    using assms(1) by (auto simp: update_returning_def)
  then show ?thesis
    using assms(2) unfolding fills_row_def by (intro exI [of _ "\<lambda>r. if cond r then f r else r"]) simp
qed

lemma stages_fill_row:
  "fills_row txid d (snd (run_raw_stage a txid d))" "fills_row txid d (snd (run_entry_stage a txid d))"
proof -
  have raw: "fills_row txid d d'" if "backfill_raw fault txid ins weight d = (r, d')" for fault ins weight r d'
    using that unfolding backfill_raw_def
    by (rule row_calls.call_keeps) (erule update_returning_fills_row, auto simp: only_fills_def)
  have fee: "fills_row txid d d'" if "backfill_fee fault txid fee d = (r, d')" for fault fee r d'
    using that unfolding backfill_fee_def
    by (rule row_calls.call_keeps) (erule update_returning_fills_row, auto simp: only_fills_def)
  show "fills_row txid d (snd (run_raw_stage a txid d))" "fills_row txid d (snd (run_entry_stage a txid d))"
    using raw fee by (auto simp: run_raw_stage_def run_entry_stage_def fills_row_refl split: sum.split prod.split option.split)
qed

lemma only_fills_txid: "only_fills t t' \<Longrightarrow> tx_txid t' = tx_txid t"
  by (cases t; cases t') (simp add: only_fills_def)

lemma only_fills_trans: "only_fills t t' \<Longrightarrow> only_fills t' t'' \<Longrightarrow> only_fills t t''"
  by (cases t; cases t'; cases t'') (auto simp: only_fills_def)

lemma fills_row_trans:
  assumes "fills_row txid d d'" "fills_row txid d' d''"
  shows "fills_row txid d d''"
proof -
  obtain f g where f: "db_transactions d' = map (\<lambda>r. if tx_txid r = txid then f r else r) (db_transactions d)" "\<forall>r. only_fills r (f r)"
    and g: "db_transactions d'' = map (\<lambda>r. if tx_txid r = txid then g r else r) (db_transactions d')" "\<forall>r. only_fills r (g r)"
    using assms unfolding fills_row_def by blast
  have "tx_txid (f r) = tx_txid r" for r
    using f(2) only_fills_txid by blast
  then have "db_transactions d'' = map (\<lambda>r. if tx_txid r = txid then g (f r) else r) (db_transactions d)"
    by (simp add: f(1) g(1))
  moreover have "\<forall>r. only_fills r (g (f r))"
    using f(2) g(2) only_fills_trans by blast
  ultimately show ?thesis
    unfolding fills_row_def by (intro exI [of _ "g \<circ> f"]) simp
qed

lemma process_fills_row:
  assumes "an_meanwhile a = id" "br_txid req = txid"
  shows "fills_row txid d (snd (process jittered a ledger req d))"
proof -
  let ?raw = "if br_stage req = Raw then map_prod id (an_meanwhile a) (run_raw_stage a txid d) else (Inr (Some (br_stage req)), d)"
  obtain r1 d1 where start: "?raw = (r1, d1)" by (rule prod.exhaust)
  have "d1 = (if br_stage req = Raw then snd (run_raw_stage a txid d) else d)"
    using arg_cong [OF start, of snd] assms(1) by (auto split: if_splits)
  then have f1: "fills_row txid d d1"
    using stages_fill_row(1) fills_row_refl by simp
  have "snd (run_stages a txid (br_stage req) d) \<in> {d1, snd (run_entry_stage a txid d1)}"
    unfolding run_stages_def start prod.case by (auto split: sum.split prod.split)
  then show ?thesis
    using f1 fills_row_trans [OF f1 stages_fill_row(2)] assms(2) by (auto simp: process_def)
qed

section \<open>Properties\<close>

text \<open>C17: When and how a request is retried. A request comes back exactly when a stage failed with an
  error other than "not in the mempool" or "malformed txid", and either its transaction is still in
  the mempool ledger or fewer than \<open>MAX_ATTEMPTS\<close> attempts were made. The retry is for the same txid
  and for the stage that failed, never an earlier one than the request was for, with one attempt
  more, where the 8-bit counter stops at its maximum.\<close>

theorem failed_stage_retried_alone:
  "fst (process jittered a ledger req d) = Retry req' delay \<longleftrightarrow>
    (\<exists>e. fst (run_stages a (br_txid req) (br_stage req) d) = Inl (br_stage req', e) \<and> passing e \<and>
       (br_txid req \<in> lg_live ledger \<or> unat (br_attempts req) + 1 < 37)) \<and>
    br_txid req' = br_txid req \<and> br_stage req \<le> br_stage req' \<and>
    unat (br_attempts req') = min (unat (br_attempts req) + 1) 255 \<and>
    delay = jittered (retry_backoff (br_attempts req)) (br_txid req, br_attempts req)"
proof -
  obtain outcome d' where run: "run_stages a (br_txid req) (br_stage req) d = (outcome, d')"
    by (rule prod.exhaust)
  have sat: "unat (saturating_add (br_attempts req) 1) = min (unat (br_attempts req) + 1) 255"
    using saturating_add_one [of "br_attempts req"] by simp
  have "should_retry (saturating_add (br_attempts req) 1) (contains (br_txid req) ledger) \<longleftrightarrow>
      br_txid req \<in> lg_live ledger \<or> unat (br_attempts req) + 1 < 37"
    unfolding should_retry_def contains_def word_less_nat_alt sat by (auto simp: MAX_ATTEMPTS_def min_def)
  moreover have "req' = \<lparr>br_txid = br_txid req, br_attempts = saturating_add (br_attempts req) 1, br_stage = stage\<rparr> \<longleftrightarrow>
      br_txid req' = br_txid req \<and> br_stage req' = stage \<and>
      unat (br_attempts req') = min (unat (br_attempts req) + 1) 255" for stage
    unfolding sat [symmetric] by (cases req') (auto simp: word_unat_eq_iff)
  ultimately show ?thesis
    using run_stages_Inl(1) [of a "br_txid req" "br_stage req" d] run
    by (auto simp: process_def verdict_of_Retry)
qed


definition sample_raw :: GetRawTransactionModel where
  "sample_raw = \<lparr>rt_txid = ''a'', rt_version = 2, rt_lock_time = 0, rt_vsize = 140, rt_weight = 560,
     rt_input_count = 1, rt_input_txids = [''p''], rt_output_count = 1, rt_confirmations = 0, rt_time = None\<rparr>"

definition sample_summary :: MempoolEntrySummary where
  "sample_summary = \<lparr>es_txid = ''a'', es_fee_in_sats = 900, es_vsize = 140, es_weight = 560,
     es_ancestor_count = 1, es_descendant_count = 1, es_time = 5, es_height = 7\<rparr>"


text \<open>The retry delays. The delay before retry \<open>n\<close> is 250 ms doubled \<open>n\<close> times and at most a
  minute, for every value of the counter; all delays of a request that is given up on add up to more
  than 29 and at most 30 minutes.\<close>

theorem retry_window:
  "retry_backoff n = min (250000000 * 2 ^ unat n) 60000000000 \<and>
   (let window = sum_list (map (\<lambda>k. retry_backoff (word_of_nat k)) [0..<unat MAX_ATTEMPTS - 1])
    in 29 * 60 * 1000000000 < window \<and> window \<le> 30 * 60 * 1000000000)"
proof -
  have each: "retry_backoff n = min (250000000 * 2 ^ unat n) 60000000000" for n
    using retry.doubles [of n] by (simp add: RETRY_BACKOFF_BASE_def MAX_RETRY_BACKOFF_def from_millis_def from_secs_def)
  have "[0..<unat MAX_ATTEMPTS - 1] = [0..<36]"
    by (simp add: MAX_ATTEMPTS_def)
  then have "map (\<lambda>k. retry_backoff (word_of_nat k)) [0..<unat MAX_ATTEMPTS - 1] =
      map (\<lambda>k. retry_backoff (word_of_nat k)) [0..<36]"
    by (rule arg_cong)
  also have "map (\<lambda>k. retry_backoff (word_of_nat k)) [0..<36] =
      map (\<lambda>k. min (250000000 * 2 ^ k) 60000000000) [0..<36]"
  proof (rule map_cong [OF refl])
    fix k assume "k \<in> set [0..<36]"
    then have "unat (word_of_nat k :: 8 word) = k"
      by (simp add: unsigned_of_nat take_bit_eq_mod)
    then show "retry_backoff (word_of_nat k) = min (250000000 * 2 ^ k) 60000000000"
      unfolding each by (rule arg_cong)
  qed
  also have "sum_list \<dots> = 1743750000000"
    by (rule window_sum)
  finally show ?thesis
    using each by (simp only: Let_def) simp
qed

text \<open>C16: Shutting down drains the backlog. In every state the consumer can reach, the buffer stays
  within its capacity and at most four fetches run. Once the channel is closed, every step of the
  consumer or of one of its tasks keeps it closed and shrinks the backlog, and some step is possible
  until \<open>consume\<close> has returned: so the drain ends, with nothing left in the buffer.\<close>

theorem drain_terminates:
  assumes "consumer_starts c0" "consumer_step\<^sup>*\<^sup>* c0 c"
  shows "length (bq_buffer (cn_queue c)) \<le> bq_capacity (cn_queue c) \<and>
    length (cn_fetching c) \<le> 4 \<and>
    (bq_closed (cn_queue c) \<longrightarrow>
      (\<forall>c'. work_step c c' \<longrightarrow> bq_closed (cn_queue c') \<and> backlog c' < backlog c) \<and>
      (returned c \<or> (\<exists>c'. work_step c c'))) \<and>
    (returned c \<longrightarrow> bq_buffer (cn_queue c) = [] \<and> cn_popped c = None)"
proof -
  note inv = consumer.reached_inv [OF assms]
  then show ?thesis
    using work_step_backlog [of c] work_possible [OF inv]
    by (auto simp: consumer_inv_def returned_def MAX_CONCURRENT_BACKFILLS_def)
qed

definition sample_consumer :: consumer where
  "sample_consumer = \<lparr>cn_queue = empty_queue 1, cn_popped = None, cn_fetching = [], cn_delayed = [], cn_left = False\<rparr>"

theorem drain_terminates_witness:
  "\<exists>c'. work_step (sample_consumer\<lparr>cn_queue := (empty_queue 1)\<lparr>bq_closed := True\<rparr>\<rparr>) c'"
proof -
  let ?c = "sample_consumer\<lparr>cn_queue := (empty_queue 1)\<lparr>bq_closed := True\<rparr>\<rparr>"
  have "consumer_starts sample_consumer"
    by (auto simp: consumer_starts_def sample_consumer_def queue_new_def MAX_PERMITS_def intro!: exI [of _ "Suc 0"])
  moreover have "consumer_step sample_consumer ?c"
    using consumer_step.shutdown [of sample_consumer] by (simp add: in_loop_def sample_consumer_def)
  ultimately have "returned ?c \<or> (\<exists>c'. work_step ?c c')"
    using drain_terminates [of sample_consumer ?c] by (auto simp del: One_nat_def)
  then show ?thesis
    by (simp add: returned_def sample_consumer_def)
qed

end
