(* ===== verification/Reconciler.thy ===== *)
theory Reconciler
  imports Cluster_Round Cluster_Frame Gate Backfill
begin

text \<open>
  The mempool reconciler (\<open>api/src/services/mempool_reconciler.rs\<close>), the only writer of
  \<open>mempool_deltas\<close>, and the stream it feeds (\<open>api/src/services/mempool.rs\<close>). A tick takes its lease
  from the block gate, writes the journal in one transaction, commits what was written, queues the
  backfills, publishes the net change and syncs the clusters. Observers may go on extending the
  journal while the write runs: \<open>meanwhile\<close>. A tick whose cluster sync would not end, or that would
  panic, is \<open>None\<close>.
\<close>

section \<open>A tick\<close>

record app =
  ap_world :: world
  ap_queue :: TxBackfillQueue
  ap_gate :: BlockGate

definition to_backfill :: "FlushOutcome \<Rightarrow> (txid \<times> BackfillStage) list" where
  "to_backfill outcome =
    map (\<lambda>txid. (txid, Raw)) (fo_new_txids outcome) @
    List.map_filter (\<lambda>(txid, fill). map_option (\<lambda>stage. (txid, stage)) (backfill_stage fill)) (fo_existing outcome)"

definition enqueue_all :: "(txid \<times> BackfillStage) list \<Rightarrow> TxBackfillQueue \<Rightarrow> TxBackfillQueue" where
  "enqueue_all requests q = foldl (\<lambda>q (txid, stage). enqueue txid stage q) q requests"

definition publish :: "BusEvent \<Rightarrow> world \<Rightarrow> world" where
  "publish event w = w\<lparr>w_bus := w_bus w @ [event]\<rparr>"

text \<open>What follows a written batch.\<close>

definition after_write ::
  "env \<Rightarrow> (Inner \<Rightarrow> Inner) \<Rightarrow> JournalEntry list \<Rightarrow> FlushOutcome \<Rightarrow> TxBackfillQueue \<Rightarrow> world \<Rightarrow> (TxBackfillQueue \<times> world) option" where
  "after_write env meanwhile batch outcome q w =
    (case residency_delta (ev_it_txids env) batch of
       (event_added, event_removed) \<Rightarrow>
         (case commit batch (meanwhile (w_ledger w)) of
            None \<Rightarrow> None
          | Some ledger \<Rightarrow>
              map_option (\<lambda>w'. (enqueue_all (to_backfill outcome) q, w'))
                (sync_clusters_after_flush env (added_txids (ev_it_txids env) batch) outcome
                  (publish (BusMempoolDelta \<lparr>md_added = event_added, md_removed = event_removed\<rparr>)
                    (w\<lparr>w_ledger := ledger\<rparr>)))))"

definition tick :: "env \<Rightarrow> (nat \<Rightarrow> bool) \<Rightarrow> (Inner \<Rightarrow> Inner) \<Rightarrow> instant \<Rightarrow> app \<Rightarrow> app option" where
  "tick env preempted meanwhile now ap =
    (case try_begin_flush now (ap_gate ap) of
       (False, g) \<Rightarrow> Some (ap\<lparr>ap_gate := g\<rparr>)
     | (True, g) \<Rightarrow>
         (case begin_flush (w_ledger (ap_world ap)) of
            None \<Rightarrow> Some (ap\<lparr>ap_gate := drop_lease g\<rparr>)
          | Some batch \<Rightarrow>
              (case db_write env (\<lambda>fault clock. write_batch (ev_it_txids env) fault preempted clock batch) (ap_world ap) of
                 (Inr (Some outcome), w) \<Rightarrow>
                   map_option (\<lambda>(q, w'). \<lparr>ap_world = w', ap_queue = q, ap_gate = drop_lease g\<rparr>)
                     (after_write env meanwhile batch outcome (ap_queue ap) w)
               | (_, w) \<Rightarrow> Some (ap\<lparr>ap_world := w\<lparr>w_ledger := meanwhile (w_ledger w)\<rparr>, ap_gate := drop_lease g\<rparr>))))"

section \<open>The delta stream\<close>

text \<open>A subscriber's first frame is the live set as one event; what it holds after some events is
  the fold of them.\<close>

definition snapshot_frame :: "(txid set \<Rightarrow> txid list) \<Rightarrow> txid set \<Rightarrow> MempoolDeltaEvent" where
  "snapshot_frame it live = \<lparr>md_added = it live, md_removed = []\<rparr>"

definition get_delta_stream :: "BusEvent list \<Rightarrow> MempoolDeltaEvent list" where
  "get_delta_stream bus = List.map_filter (\<lambda>e. case e of BusMempoolDelta m \<Rightarrow> Some m | _ \<Rightarrow> None) bus"

definition get_snapshot_then_delta_stream ::
  "(txid set \<Rightarrow> txid list) \<Rightarrow> txid set \<Rightarrow> BusEvent list \<Rightarrow> MempoolDeltaEvent list" where
  "get_snapshot_then_delta_stream it live bus = snapshot_frame it live # get_delta_stream bus"

definition fold_events :: "MempoolDeltaEvent list \<Rightarrow> txid set \<Rightarrow> txid set" where
  "fold_events evs S = fold (\<lambda>e S. (S \<union> set (md_added e)) - set (md_removed e)) evs S"

section \<open>Ledger and database in step\<close>

text \<open>Unless entries were lost to the cap, the journal holds exactly the transitions between the
  residency the database records and the live set.\<close>

definition in_step :: "Inner \<Rightarrow> db \<Rightarrow> bool" where
  "in_step l d \<longleftrightarrow> finite (lg_live l) \<and> length (lg_journal l) \<le> JOURNAL_CAP \<and>
     distinct (map tx_txid (db_transactions d)) \<and>
     (\<not> lg_degraded l \<longrightarrow> effective (lg_journal l) (residency d) \<and> replay (lg_journal l) (residency d) = lg_live l)"

abbreviation coherent :: "world \<Rightarrow> bool" where
  "coherent w \<equiv> in_step (w_ledger w) (w_db w)"

text \<open>An observer: it only extends the journal.\<close>

definition produces :: "(Inner \<Rightarrow> Inner) \<Rightarrow> bool" where
  "produces f \<longleftrightarrow> (\<forall>l. finite (lg_live l) \<longrightarrow> extends l (f l) \<and> finite (lg_live (f l)))"

lemma produces_id: "produces id"
  by (simp add: produces_def)

lemma produces_asserts: "produces (assert_present clk ts)" "produces (assert_absent clk ts)"
  by (simp_all add: produces_def assert_present_extends assert_absent_extends assert_present_live assert_absent_live)

lemma produces_submit:
  assumes "iterates it" "finite txids"
  shows "produces (submit_authoritative it clk txids)"
  using submit_authoritative_extends [OF assms] assms(2) by (simp add: produces_def)

lemma in_step_extends:
  assumes "in_step l d" "extends l l'" "finite (lg_live l')"
  shows "in_step l' d"
proof -
  from assms(2) obtain new where new: "lg_journal l' = lg_journal l @ new" "lg_degraded l \<longrightarrow> lg_degraded l'"
    "length (lg_journal l) \<le> JOURNAL_CAP \<longrightarrow> length (lg_journal l') \<le> JOURNAL_CAP"
    "\<not> lg_degraded l' \<longrightarrow> effective new (lg_live l) \<and> replay new (lg_live l) = lg_live l'"
    unfolding extends_def by blast
  then show ?thesis
    using assms(1,3) by (auto simp: in_step_def)
qed

lemma in_step_db:
  assumes "in_step l d" "db_deltas d' = db_deltas d"
    "distinct (map tx_txid (db_transactions d)) \<Longrightarrow> distinct (map tx_txid (db_transactions d'))"
  shows "in_step l d'"
  using assms by (simp add: in_step_def residency_def)

lemma coherent_frame:
  assumes "coherent w" "w_frame w w'"
  shows "coherent w'"
proof -
  have frame: "db_frame (w_db w) (w_db w')" "extends (w_ledger w) (w_ledger w')"
    "finite (lg_live (w_ledger w)) \<Longrightarrow> finite (lg_live (w_ledger w'))"
    using assms(2) unfolding w_frame_def by blast+
  have "finite (lg_live (w_ledger w))"
    using assms(1) unfolding in_step_def by blast
  from in_step_extends [OF assms(1) frame(2) frame(3) [OF this]] show ?thesis
    by (rule in_step_db) (use frame(1) in \<open>simp_all add: db_frame_def rows_frame_def\<close>)
qed

lemma in_step_commit:
  assumes step: "in_step l d" and batch: "batch = lg_journal l" and ext: "extends l l'" "finite (lg_live l')"
    and commit: "commit batch l' = Some l2"
    and res: "residency d' = replay batch (residency d)" "distinct (map tx_txid (db_transactions d'))"
  shows "in_step l2 d'"
proof -
  from ext obtain new where new: "lg_journal l' = lg_journal l @ new" "lg_degraded l \<longrightarrow> lg_degraded l'"
    "length (lg_journal l) \<le> JOURNAL_CAP \<longrightarrow> length (lg_journal l') \<le> JOURNAL_CAP"
    "\<not> lg_degraded l' \<longrightarrow> effective new (lg_live l) \<and> replay new (lg_live l) = lg_live l'"
    unfolding extends_def by blast
  have l2: "lg_journal l2 = new" "lg_live l2 = lg_live l'" "lg_degraded l2 = lg_degraded l'"
    using commit by (auto simp: commit_def new(1) batch split: if_splits)
  show ?thesis
    using step new ext(2) res by (auto simp: in_step_def l2 batch)
qed

lemma commit_produced:
  assumes "extends l l'" "batch = lg_journal l"
  shows "\<exists>l2. commit batch l' = Some l2"
  using assms by (auto simp: commit_def extends_def)

section \<open>The stream follows the database\<close>

lemma get_delta_stream_append: "get_delta_stream (xs @ ys) = get_delta_stream xs @ get_delta_stream ys"
  by (simp add: get_delta_stream_def map_filter_def)

lemma get_delta_stream_cluster: "\<forall>e\<in>set evs. is_cluster_event e \<Longrightarrow> get_delta_stream evs = []"
proof (induction evs)
  case (Cons e evs)
  then show ?case
    by (cases e) (auto simp: get_delta_stream_def map_filter_def)
qed (simp add: get_delta_stream_def map_filter_def)

lemma get_delta_stream_frame: "w_frame w w' \<Longrightarrow> get_delta_stream (w_bus w') = get_delta_stream (w_bus w)"
  by (auto simp: w_frame_def get_delta_stream_append get_delta_stream_cluster)

lemma fold_events_append: "fold_events (xs @ ys) S = fold_events ys (fold_events xs S)"
  by (simp add: fold_events_def)

lemma fold_events_net:
  assumes "effective es S" "iterates it" "residency_delta it es = (added, removed)"
  shows "fold_events [\<lparr>md_added = added, md_removed = removed\<rparr>] S = replay es S"
  using residency_delta_sets [OF assms] by (auto simp: fold_events_def)
section \<open>Writes outside the cluster tables\<close>

definition cluster_outside :: "db \<Rightarrow> db \<Rightarrow> bool" where
  "cluster_outside d d' \<longleftrightarrow> db_clusters d' = db_clusters d \<and> db_chunks d' = db_chunks d \<and>
     db_cluster_seq d \<le> db_cluster_seq d' \<and>
     (distinct (map tx_txid (db_transactions d)) \<longrightarrow> distinct (map tx_txid (db_transactions d')))"

interpretation outside: keeps cluster_outside
  by unfold_locales (auto simp: cluster_outside_def)

lemma cluster_outside_inv:
  assumes "cluster_outside d d'" "cluster_inv d"
  shows "cluster_inv d'" and "active_view d' = active_view d"
proof -
  note same = assms(1) [unfolded cluster_outside_def]
  have chunks: "current_chunks c d' = current_chunks c d" for c
    using same by (simp add: current_chunks_def)
  have "row_ok d' c \<longleftrightarrow> row_ok d c" for c
    by (rule row_ok_cong) (rule chunks)
  then show "cluster_inv d'"
    using assms(2) same unfolding cluster_inv_def cluster_inv_upto_def by (auto intro: less_le_trans)
  show "active_view d' = active_view d"
    using same by (intro active_view_cong) simp_all
qed

interpretation outside_calls: call_contract cluster_outside
  by unfold_locales (simp add: cluster_outside_def)

lemmas query_outside = outside_calls.call_keeps

section \<open>Every outcome of a tick\<close>

lemma write_batch_fields:
  assumes "iterates it" "distinct (map tx_txid (db_transactions d))" "es \<noteq> []"
    "write_batch it fault pre now es d = (res, d')"
  shows "distinct (map tx_txid (db_transactions d'))"
    and "res = Inr (Some out) \<Longrightarrow> residency d' = replay es (residency d)"
    and "\<forall>out. res \<noteq> Inr (Some out) \<Longrightarrow> db_deltas d' = db_deltas d"
    and "db_blocks d' = db_blocks d"
proof -
  have "db_blocks d' = db_blocks d \<and> distinct (map tx_txid (db_transactions d')) \<and> (\<forall>out. res = Inr (Some out) \<longrightarrow> residency d' = replay es (residency d)) \<and>
    ((\<forall>out. res \<noteq> Inr (Some out)) \<longrightarrow> db_deltas d' = db_deltas d)"
    using assms(4,3)
  proof (cases rule: write_batch_cases)
    case (written out)
    note spec = write_batch_in_spec [OF assms(1,2) written(2)]
    show ?thesis
      using written(1) residency_append [OF spec(1)] insert_hollow_rows_spec(1) [OF assms(2)] by (simp add: spec(2,13))
  qed (use assms(2) in \<open>simp_all add: same_tables_fields\<close>)
  then show "distinct (map tx_txid (db_transactions d'))"
    "res = Inr (Some out) \<Longrightarrow> residency d' = replay es (residency d)"
    "\<forall>out. res \<noteq> Inr (Some out) \<Longrightarrow> db_deltas d' = db_deltas d" "db_blocks d' = db_blocks d"
    by blast+
qed

text \<open>The world of a tick that wrote nothing, and of one that wrote \<open>batch\<close>.\<close>

definition unflushed :: "(Inner \<Rightarrow> Inner) \<Rightarrow> world \<Rightarrow> world \<Rightarrow> bool" where
  "unflushed meanwhile w w' \<longleftrightarrow> db_deltas (w_db w') = db_deltas (w_db w) \<and> w_bus w' = w_bus w \<and>
     db_blocks (w_db w') = db_blocks (w_db w) \<and>
     (w_ledger w' = w_ledger w \<or> w_ledger w' = meanwhile (w_ledger w)) \<and>
     (distinct (map tx_txid (db_transactions (w_db w))) \<longrightarrow> distinct (map tx_txid (db_transactions (w_db w'))))"

definition flushed :: "env \<Rightarrow> (Inner \<Rightarrow> Inner) \<Rightarrow> world \<Rightarrow> world \<Rightarrow> bool" where
  "flushed env meanwhile w w' \<longleftrightarrow> (\<exists>w1 added removed l.
     residency_delta (ev_it_txids env) (lg_journal (w_ledger w)) = (added, removed) \<and>
     residency (w_db w1) = replay (lg_journal (w_ledger w)) (residency (w_db w)) \<and>
     distinct (map tx_txid (db_transactions (w_db w1))) \<and> w_bus w1 = w_bus w \<and>
     db_blocks (w_db w1) = db_blocks (w_db w) \<and>
     commit (lg_journal (w_ledger w)) (meanwhile (w_ledger w)) = Some l \<and>
     w_frame (publish (BusMempoolDelta \<lparr>md_added = added, md_removed = removed\<rparr>) (w1\<lparr>w_ledger := l\<rparr>)) w')"

lemma tick_cases:
  assumes "tick env pre meanwhile now ap = Some ap'" "iterates (ev_it_txids env)"
    "distinct (map tx_txid (db_transactions (w_db (ap_world ap))))"
  shows "unflushed meanwhile (ap_world ap) (ap_world ap') \<or> flushed env meanwhile (ap_world ap) (ap_world ap')"
proof -
  let ?w = "ap_world ap" and ?it = "ev_it_txids env"
  obtain begun g where gate: "try_begin_flush now (ap_gate ap) = (begun, g)"
    by (rule prod.exhaust)
  show ?thesis
  proof (cases "begun \<and> lg_journal (w_ledger ?w) \<noteq> []")
    case False
    then have "ap_world ap' = ?w"
      using assms(1) gate by (cases begun) (auto simp: tick_def begin_flush_def)
    then show ?thesis
      by (simp add: unflushed_def)
  next
    case True
    let ?batch = "lg_journal (w_ledger ?w)"
    obtain res d' where wr: "write_batch ?it (ev_fault env (w_steps ?w)) pre (ev_now env (w_steps ?w)) ?batch (w_db ?w) = (res, d')"
      by (rule prod.exhaust)
    let ?w1 = "step (?w\<lparr>w_db := d'\<rparr>)"
    have dbw: "db_write env (\<lambda>fault clock. write_batch ?it fault pre clock ?batch) ?w = (res, ?w1)"
      by (simp add: db_write_def wr)
    note fields = write_batch_fields [OF assms(2,3) conjunct2 [OF True] wr]
    have run: "(case (res, ?w1) of (Inr (Some outcome), w) \<Rightarrow>
          map_option (\<lambda>(q, w'). \<lparr>ap_world = w', ap_queue = q, ap_gate = drop_lease g\<rparr>)
            (after_write env meanwhile ?batch outcome (ap_queue ap) w)
        | (_, w) \<Rightarrow> Some (ap\<lparr>ap_world := w\<lparr>w_ledger := meanwhile (w_ledger w)\<rparr>, ap_gate := drop_lease g\<rparr>)) = Some ap'"
      using assms(1) gate True dbw by (simp add: tick_def begin_flush_def)
    show ?thesis
    proof (cases "\<exists>outcome. res = Inr (Some outcome)")
      case False
      then have "ap' = ap\<lparr>ap_world := ?w1\<lparr>w_ledger := meanwhile (w_ledger ?w1)\<rparr>, ap_gate := drop_lease g\<rparr>"
        using run by (auto split: sum.splits option.splits)
      then show ?thesis
        using False fields(1,3,4) by (simp add: unflushed_def)
    next
      case True
      then obtain outcome where res: "res = Inr (Some outcome)"
        by blast
      obtain q where "after_write env meanwhile ?batch outcome (ap_queue ap) ?w1 = Some (q, ap_world ap')"
        using run res by auto
      then obtain added removed l where
        "residency_delta ?it ?batch = (added, removed)" "commit ?batch (meanwhile (w_ledger ?w)) = Some l"
        "sync_clusters_after_flush env (added_txids ?it ?batch) outcome
          (publish (BusMempoolDelta \<lparr>md_added = added, md_removed = removed\<rparr>) (?w1\<lparr>w_ledger := l\<rparr>)) = Some (ap_world ap')"
        unfolding after_write_def by (auto split: prod.splits option.splits)
      then have "flushed env meanwhile ?w (ap_world ap')"
        using fields(1,2,4) res sync_clusters_frame unfolding flushed_def sync_clusters_after_flush_def
        by (intro exI [of _ ?w1]) auto
      then show ?thesis ..
    qed
  qed
qed

lemma publish_simps [simp]:
  "w_db (publish e w) = w_db w" "w_ledger (publish e w) = w_ledger w" "w_bus (publish e w) = w_bus w @ [e]"
  by (simp_all add: publish_def)

lemma flushed_coherent:
  assumes "flushed env meanwhile w w'" "coherent w" "produces meanwhile"
  shows "coherent w'"
proof -
  obtain w1 added removed l where
    w1: "residency (w_db w1) = replay (lg_journal (w_ledger w)) (residency (w_db w))"
      "distinct (map tx_txid (db_transactions (w_db w1)))"
      "commit (lg_journal (w_ledger w)) (meanwhile (w_ledger w)) = Some l"
    and frame: "w_frame (publish (BusMempoolDelta \<lparr>md_added = added, md_removed = removed\<rparr>) (w1\<lparr>w_ledger := l\<rparr>)) w'"
    using assms(1) unfolding flushed_def by blast
  have "in_step l (w_db w1)"
    using in_step_commit [OF assms(2) refl _ _ w1(3,1,2)] assms(2,3) by (simp add: produces_def in_step_def)
  then show ?thesis
    by (intro coherent_frame [OF _ frame]) simp
qed

lemma unflushed_coherent:
  assumes "unflushed meanwhile w w'" "coherent w" "produces meanwhile"
  shows "coherent w'"
proof -
  have "in_step (w_ledger w') (w_db w)"
    using assms in_step_extends [OF assms(2), of "meanwhile (w_ledger w)"]
    by (auto simp: unflushed_def produces_def in_step_def)
  then show ?thesis
    by (rule in_step_db) (use assms(1) in \<open>simp_all add: unflushed_def\<close>)
qed

lemma frame_residency: "w_frame w w' \<Longrightarrow> residency (w_db w') = residency (w_db w)"
  by (simp add: w_frame_def db_frame_def residency_def)

lemma flushed_stream:
  assumes "flushed env meanwhile w w'" "coherent w" "\<not> lg_degraded (w_ledger w)" "iterates (ev_it_txids env)"
  shows "\<exists>new. w_bus w' = w_bus w @ new \<and> fold_events (get_delta_stream new) (residency (w_db w)) = residency (w_db w')"
proof -
  obtain w1 added removed l where
    delta: "residency_delta (ev_it_txids env) (lg_journal (w_ledger w)) = (added, removed)"
    and w1: "residency (w_db w1) = replay (lg_journal (w_ledger w)) (residency (w_db w))" "w_bus w1 = w_bus w"
    and frame: "w_frame (publish (BusMempoolDelta \<lparr>md_added = added, md_removed = removed\<rparr>) (w1\<lparr>w_ledger := l\<rparr>)) w'"
    using assms(1) unfolding flushed_def by blast
  have "effective (lg_journal (w_ledger w)) (residency (w_db w))"
    using assms(2,3) by (simp add: in_step_def)
  note net = fold_events_net [OF this assms(4) delta]
  obtain evs where evs: "w_bus w' = w_bus w @ BusMempoolDelta \<lparr>md_added = added, md_removed = removed\<rparr> # evs" "\<forall>e\<in>set evs. is_cluster_event e"
    using frame w1(2) by (auto simp: w_frame_def)
  have "get_delta_stream (BusMempoolDelta \<lparr>md_added = added, md_removed = removed\<rparr> # evs) = [\<lparr>md_added = added, md_removed = removed\<rparr>]"
    using get_delta_stream_cluster [OF evs(2)] by (simp add: get_delta_stream_def map_filter_def)
  moreover have "residency (w_db w') = residency (w_db w1)"
    using frame_residency [OF frame] by simp
  ultimately show ?thesis
    using net w1(1) evs(1) by (intro exI [of _ "BusMempoolDelta \<lparr>md_added = added, md_removed = removed\<rparr> # evs"]) simp
qed

text \<open>On every path through a tick, what it publishes leads from the residency recorded before to the one after.\<close>

lemma tick_stream:
  assumes "tick env preempted meanwhile now ap = Some ap'" "iterates (ev_it_txids env)" "coherent (ap_world ap)"
    "\<not> lg_degraded (w_ledger (ap_world ap))"
  shows "\<exists>new. w_bus (ap_world ap') = w_bus (ap_world ap) @ new \<and>
    fold_events (get_delta_stream new) (residency (w_db (ap_world ap))) = residency (w_db (ap_world ap'))"
proof -
  have "distinct (map tx_txid (db_transactions (w_db (ap_world ap))))"
    using assms(3) by (simp add: in_step_def)
  from tick_cases [OF assms(1,2) this] show ?thesis
  proof
    assume "unflushed meanwhile (ap_world ap) (ap_world ap')"
    then show ?thesis
      by (auto simp: unflushed_def residency_def fold_events_def get_delta_stream_def map_filter_def)
  next
    assume "flushed env meanwhile (ap_world ap) (ap_world ap')"
    from flushed_stream [OF this assms(3,4,2)] show ?thesis .
  qed
qed

lemma write_batch_unhindered:
  assumes "\<forall>n. \<not> preempted n" "write_batch it None preempted now es d = (res, d')"
  shows "\<exists>out. res = Inr (Some out)"
proof -
  have bail: "bail_each preempted k n = Inr (k + n)" for k n
    using assms(1) by (simp add: bail_each_Inr)
  have "\<exists>out d''. write_batch_in it preempted now es d = Inr (out, d'')"
    using assms(1) by (simp add: write_batch_in_def write_deltas_def insert_hollow_transactions_def bail Let_def)
  then show ?thesis
    using assms(2) by (auto simp: write_batch_def query_def split: if_splits)
qed

lemma tick_writes:
  assumes run: "tick env preempted meanwhile now ap = Some ap'" and it: "iterates (ev_it_txids env)"
    and dist: "distinct (map tx_txid (db_transactions (w_db (ap_world ap))))"
    and gate: "fst (try_begin_flush now (ap_gate ap))"
    and calm: "ev_fault env (w_steps (ap_world ap)) = None" "\<forall>n. \<not> preempted n"
  shows "residency (w_db (ap_world ap')) = replay (lg_journal (w_ledger (ap_world ap))) (residency (w_db (ap_world ap)))"
proof -
  let ?w = "ap_world ap" and ?batch = "lg_journal (w_ledger (ap_world ap))"
  obtain g where begun: "try_begin_flush now (ap_gate ap) = (True, g)"
    using gate by (cases "try_begin_flush now (ap_gate ap)") simp
  show ?thesis
  proof (cases "?batch = []")
    case True
    then show ?thesis using run begun by (auto simp: tick_def begin_flush_def)
  next
    case False
    obtain res d where wr: "write_batch (ev_it_txids env) None preempted (ev_now env (w_steps ?w)) ?batch (w_db ?w) = (res, d)"
      by (rule prod.exhaust)
    obtain out where res: "res = Inr (Some out)"
      using write_batch_unhindered [OF calm(2) wr] by blast
    obtain w1 where sync: "sync_clusters_after_flush env (added_txids (ev_it_txids env) ?batch) out w1 = Some (ap_world ap')" "w_db w1 = d"
      using run begun False wr res calm(1)
      by (auto simp: tick_def begin_flush_def db_write_def after_write_def split: prod.splits option.splits)
    have "residency (w_db (ap_world ap')) = residency d"
      using frame_residency sync_clusters_frame sync unfolding sync_clusters_after_flush_def by metis
    then show ?thesis
      using write_batch_fields(2) [OF it dist False wr res] by simp
  qed
qed

section \<open>Properties\<close>

definition world_ok :: "world \<Rightarrow> bool" where
  "world_ok w \<longleftrightarrow> coherent w \<and> cluster_inv (w_db w) \<and> view_ok (view_of w)"

lemma write_batch_outside:
  assumes "iterates it" "distinct (map tx_txid (db_transactions d))" "write_batch it fault pre now es d = (res, d')"
  shows "cluster_outside d d'"
proof (cases "es = []")
  case True
  then show ?thesis
    using assms(3) by (simp add: write_batch_def outside.keeps_refl)
next
  case False
  have "cluster_outside d d''" if "write_batch_in it pre now es d = Inr (out, d'')" for out d''
    using write_batch_in_spec [OF assms(1,2) that] insert_hollow_rows_spec(1) [OF assms(2)]
    by (simp add: cluster_outside_def)
  then show ?thesis
    using False assms(3) unfolding write_batch_def
    by (auto elim!: query_outside split: sum.splits DieselError.splits simp: outside.keeps_refl)
qed

lemma sync_returns:
  assumes "node_ok env" "iterates (ev_it_txids env)" "cluster_inv (w_db w)" "view_ok (view_of w)"
  shows "\<exists>w'. sync_clusters env cand conf evic w = Some w' \<and> cluster_inv (w_db w') \<and> view_ok (view_of w') \<and> w_frame w w'"
proof -
  obtain ch w1 where run: "sync_clusters env cand conf evic w = Some (if ds_is_empty ch then w1 else publish_delta env ch w1)"
    "stage_effect (view_of w) w (ch, w1)"
    using sync_clusters_effect [OF assms] by blast
  then show ?thesis
    using publish_delta_stage(1,2) [OF run(2)] sync_clusters_frame [OF run(1)] by auto
qed

lemma tick_returns:
  assumes "node_ok env" "iterates (ev_it_txids env)" "produces meanwhile" "world_ok (ap_world ap)"
  shows "\<exists>ap'. tick env pre meanwhile now ap = Some ap' \<and> cluster_inv (w_db (ap_world ap')) \<and> view_ok (view_of (ap_world ap')) \<and>
    bg_in_flight (ap_gate ap') = bg_in_flight (ap_gate ap)"
proof -
  let ?w = "ap_world ap" and ?it = "ev_it_txids env"
  have ok: "cluster_inv (w_db ?w)" "view_ok (view_of ?w)" "distinct (map tx_txid (db_transactions (w_db ?w)))"
    using assms(4) by (simp_all add: world_ok_def in_step_def)
  obtain begun g where gate: "try_begin_flush now (ap_gate ap) = (begun, g)"
    by (rule prod.exhaust)
  have flight: "bg_in_flight g = (bg_in_flight (ap_gate ap) \<or> begun)" "begun \<Longrightarrow> \<not> bg_in_flight (ap_gate ap)"
    using gate try_begin_flush_iff [of now "ap_gate ap"] try_begin_flush_gate [of now "ap_gate ap"]
    by (auto simp: is_held_gate split: option.splits if_splits)
  show ?thesis
  proof (cases "begun \<and> lg_journal (w_ledger ?w) \<noteq> []")
    case False
    then show ?thesis
      using gate flight ok by (cases begun) (auto simp: tick_def begin_flush_def drop_lease_def)
  next
    case True
    let ?batch = "lg_journal (w_ledger ?w)"
    obtain res d' where wr: "write_batch ?it (ev_fault env (w_steps ?w)) pre (ev_now env (w_steps ?w)) ?batch (w_db ?w) = (res, d')"
      by (rule prod.exhaust)
    let ?w1 = "step (?w\<lparr>w_db := d'\<rparr>)"
    have dbw: "db_write env (\<lambda>fault clock. write_batch ?it fault pre clock ?batch) ?w = (res, ?w1)"
      by (simp add: db_write_def wr)
    note d' = cluster_outside_inv [OF write_batch_outside [OF assms(2) ok(3) wr] ok(1)]
    obtain l where l: "commit ?batch (meanwhile (w_ledger ?w)) = Some l"
      using commit_produced [of "w_ledger ?w" "meanwhile (w_ledger ?w)"] assms(3,4) by (auto simp: produces_def world_ok_def in_step_def)
    have "\<exists>q w'. after_write env meanwhile ?batch outcome (ap_queue ap) ?w1 = Some (q, w') \<and>
        cluster_inv (w_db w') \<and> view_ok (view_of w')" for outcome
    proof -
      obtain added removed where delta: "residency_delta ?it ?batch = (added, removed)"
        by (rule prod.exhaust)
      let ?w2 = "publish (BusMempoolDelta \<lparr>md_added = added, md_removed = removed\<rparr>) (?w1\<lparr>w_ledger := l\<rparr>)"
      have "cluster_inv (w_db ?w2)" "view_ok (view_of ?w2)"
        using d' ok(2) by simp_all
      then obtain w' where "sync_clusters env (added_txids ?it ?batch) (fo_confirmed outcome) (fo_evicted outcome) ?w2 = Some w'"
        "cluster_inv (w_db w')" "view_ok (view_of w')"
        using sync_returns [OF assms(1,2)] by blast
      then show ?thesis
        by (auto simp: after_write_def delta l sync_clusters_after_flush_def)
    qed
    note after = this
    have rest: "bg_in_flight (drop_lease g) = bg_in_flight (ap_gate ap)"
      using True flight by (simp add: drop_lease_def)
    show ?thesis
    proof (cases "\<exists>outcome. res = Inr (Some outcome)")
      case False
      then show ?thesis
        using True gate dbw d' ok rest
        by (auto simp: tick_def begin_flush_def split: sum.split option.split)
    next
      case written: True
      then obtain outcome q w' where res: "res = Inr (Some outcome)"
        and run: "after_write env meanwhile ?batch outcome (ap_queue ap) ?w1 = Some (q, w')"
          "cluster_inv (w_db w')" "view_ok (view_of w')"
        using after by blast
      have "tick env pre meanwhile now ap = Some \<lparr>ap_world = w', ap_queue = q, ap_gate = drop_lease g\<rparr>"
        using True gate dbw res run(1) by (simp add: tick_def begin_flush_def)
      then show ?thesis
        using run(2,3) rest by simp
    qed
  qed
qed

lemma tick_ok:
  assumes "node_ok env" "iterates (ev_it_txids env)" "produces meanwhile" "world_ok (ap_world ap)"
    "tick env pre meanwhile now ap = Some ap'"
  shows "world_ok (ap_world ap')"
proof -
  have "distinct (map tx_txid (db_transactions (w_db (ap_world ap))))" "coherent (ap_world ap)"
    using assms(4) by (simp_all add: world_ok_def in_step_def)
  then have "coherent (ap_world ap')"
    using tick_cases [OF assms(5,2)] flushed_coherent unflushed_coherent assms(3) by blast
  then show ?thesis
    using tick_returns [OF assms(1-4), of pre now] assms(5) by (simp add: world_ok_def)
qed

text \<open>C3: A tick returns and keeps ledger, journal and database in step. For every node that answers
  with the cluster of the transaction asked about, whatever the gate says, whether the write is
  preempted or fails, and whatever observers report meanwhile: the tick ends with its lease given
  back and, unless the journal overflowed, the journal is again exactly the transitions from the
  recorded residency to the live set; the cluster tables stay consistent.\<close>

theorem tick_keeps_in_step:
  assumes "node_ok env" "iterates (ev_it_txids env)" "produces meanwhile" "world_ok (ap_world ap)"
  shows "\<exists>ap'. tick env preempted meanwhile now ap = Some ap' \<and> world_ok (ap_world ap') \<and>
    bg_in_flight (ap_gate ap') = bg_in_flight (ap_gate ap)"
  using tick_returns [OF assms] tick_ok [OF assms] by blast

definition sample_app :: app where
  "sample_app = \<lparr>ap_world = sample_world\<lparr>w_ledger := assert_present (\<lambda>_. 0) [''a''] ledger_default\<rparr>,
     ap_queue = empty_queue 5, ap_gate = gate_default\<rparr>"

lemma sample_app_ok: "world_ok (ap_world sample_app)"
proof -
  have "coherent sample_world"
    by (simp add: in_step_def sample_world_def sample_db_def residency_def)
  then have "in_step (assert_present (\<lambda>_. 0) [''a''] (w_ledger sample_world)) (w_db sample_world)"
    by (rule in_step_extends [OF _ assert_present_extends])
      (simp only: assert_present_live, simp add: sample_world_def)
  then show ?thesis
    by (simp add: world_ok_def sample_app_def ledger_default_def sample_world_def [THEN arg_cong, of w_ledger])
qed

theorem tick_keeps_in_step_witness:
  "\<exists>ap'. tick sample_env (\<lambda>_. True) id 9 sample_app = Some ap' \<and> world_ok (ap_world ap')"
  using tick_keeps_in_step [OF sample_env_ok(1,3) produces_id sample_app_ok] by blast


lemma sample_app_fields:
  "\<not> lg_degraded (w_ledger (ap_world sample_app))" "lg_live (w_ledger (ap_world sample_app)) = {''a''}"
  "fst (try_begin_flush 9 (ap_gate sample_app))" "ev_fault sample_env (w_steps (ap_world sample_app)) = None"
  by (simp_all add: sample_app_def ledger_default_def push_def JOURNAL_CAP_def try_begin_flush_def gate_default_def
      is_held_def sample_env_def)


lemma set_map_filter_Some: "set (List.map_filter g xs) = {y. \<exists>x\<in>set xs. g x = Some y}"
  by (induction xs) (auto simp: map_filter_def)

lemma set_to_backfill:
  "set (to_backfill out) = (\<lambda>x. (x, Raw)) ` set (fo_new_txids out) \<union>
    {(x, stage) | x stage fill. (x, fill) \<in> set (fo_existing out) \<and> backfill_stage fill = Some stage}"
proof -
  have "{y. \<exists>p\<in>set (fo_existing out). (case p of (txid, fill) \<Rightarrow> map_option (\<lambda>stage. (txid, stage)) (backfill_stage fill)) = Some y} =
      {(x, stage) | x stage fill. (x, fill) \<in> set (fo_existing out) \<and> backfill_stage fill = Some stage}"
    by (auto split: prod.splits)
  then show ?thesis
    by (simp add: to_backfill_def set_map_filter_Some)
qed

text \<open>C28: Every added transaction with an incomplete row is offered for backfill, from the stage its
  row needs, and nothing else is: after a batch is written, the requests are, once each, the added
  txids whose row in the database still lacks its inputs, weight or fee.\<close>

theorem backfill_requests_exact:
  assumes "iterates it" "distinct (map tx_txid (db_transactions d))" "es \<noteq> []"
    "write_batch it fault pre now es d = (Inr (Some out), d')"
  shows "set (to_backfill out) = {(tx_txid t, stage) | t stage. t \<in> set (db_transactions d') \<and>
      tx_txid t \<in> added_by es \<and> backfill_stage (tx_fill t) = Some stage}"
proof -
  obtain "write_batch_in it pre now es d = Inr (out, d')"
    using assms(4,3) by (cases rule: write_batch_cases) auto
  note spec = write_batch_in_spec [OF assms(1,2) this]
  let ?old = "db_transactions d" and ?new = "db_transactions d'"
  have hollow: "backfill_stage (tx_fill (hollow now x)) = Some Raw" for x
    by (simp add: backfill_stage_def tx_fill_def hollow_def)
  define fresh where "fresh t \<longleftrightarrow> tx_txid t \<in> set (fo_new_txids out) \<and> t = hollow now (tx_txid t)" for t
  have rows: "t \<in> set ?new \<longleftrightarrow> t \<in> set ?old \<or> fresh t" for t
  proof -
    have "t \<in> set ?new" if "tx_txid t \<in> set (fo_new_txids out)" "t = hollow now (tx_txid t)"
    proof -
      have "tx_txid t \<in> tx_txid ` set ?new"
        using that(1) insert_hollow_rows_spec(4) [OF assms(2)] by (simp add: spec(2))
      then obtain t' where t': "t' \<in> set ?new" "tx_txid t' = tx_txid t"
        by auto
      moreover have "t' \<notin> set ?old"
        using that(1) t'(2) spec(5) by (metis DiffD2 imageI)
      ultimately have "t' = hollow now (tx_txid t')"
        using insert_hollow_rows_spec(3) [OF assms(2)] by (metis spec(2))
      then show ?thesis
        using t' that(2) by metis
    qed
    then show ?thesis
      using insert_hollow_rows_spec(2,3) [OF assms(2), where now = now and txids = "fo_new_txids out"] unfolding spec(2) fresh_def by blast
  qed
  have fresh_iff: "(x, stage) \<in> (\<lambda>x. (x, Raw)) ` set (fo_new_txids out) \<longleftrightarrow>
      (\<exists>t. x = tx_txid t \<and> fresh t \<and> backfill_stage (tx_fill t) = Some stage)" for x stage
  proof
    assume "(x, stage) \<in> (\<lambda>x. (x, Raw)) ` set (fo_new_txids out)"
    then show "\<exists>t. x = tx_txid t \<and> fresh t \<and> backfill_stage (tx_fill t) = Some stage"
      by (intro exI [of _ "hollow now x"]) (auto simp: backfill_stage_def tx_fill_def fresh_def hollow_def)
  next
    assume "\<exists>t. x = tx_txid t \<and> fresh t \<and> backfill_stage (tx_fill t) = Some stage"
    then show "(x, stage) \<in> (\<lambda>x. (x, Raw)) ` set (fo_new_txids out)"
      unfolding fresh_def using hollow by (metis (no_types, lifting) image_eqI option.inject)
  qed
  have "fresh t \<Longrightarrow> tx_txid t \<in> added_by es" for t
    using spec(5) unfolding fresh_def by blast
  then have "(x, stage) \<in> set (to_backfill out) \<longleftrightarrow> (\<exists>t. x = tx_txid t \<and> t \<in> set ?new \<and>
      tx_txid t \<in> added_by es \<and> backfill_stage (tx_fill t) = Some stage)" for x stage
    unfolding set_to_backfill spec(6) Un_iff fresh_iff rows by blast
  then show ?thesis
    by (auto simp: set_eq_iff)
qed

theorem backfill_requests_exact_witness:
  "set (to_backfill (the (projr (fst (write_batch sorted_list_of_set None (\<lambda>_. False) 9
      [\<lparr>je_txid = ''a'', je_direction = Remove, je_observed_at = 1\<rparr>]
      \<lparr>db_clusters = [], db_cluster_seq = 1, db_chunks = [], db_transactions = [hollow 3 ''a''], db_blocks = [], db_deltas = []\<rparr>))))) = {}"
  (is "set (to_backfill (the (projr (fst (write_batch _ _ _ _ ?es ?d))))) = _")
proof -
  obtain out d' where run: "write_batch sorted_list_of_set None (\<lambda>_. False) 9 ?es ?d = (Inr (Some out), d')"
    using write_batch_undisturbed by blast
  have "added_by ?es = {}"
    by (auto simp: added_by_def)
  then show ?thesis
    using backfill_requests_exact [OF iterates_sorted _ _ run] run by simp
qed

text \<open>A subscriber can keep a transaction that is gone. The first frame is the live set, but later
  frames are net changes of the recorded residency: a transaction that entered after the last flush,
  is in the first frame, and leaves before the next one is never reported as removed.\<close>

theorem subscriber_keeps_removed:
  "let l1 = assert_present clk [txid] ledger_default;
       l2 = assert_absent clk [txid] l1
   in begin_flush l2 = Some (lg_journal l2) \<and>
      lg_live l1 = {txid} \<and> lg_live l2 = {} \<and> lg_journal l1 \<noteq> [] \<and>
      residency_delta sorted_list_of_set (lg_journal l2) = ([], []) \<and>
      fold_events (get_snapshot_then_delta_stream sorted_list_of_set (lg_live l1)
        [BusMempoolDelta \<lparr>md_added = fst (residency_delta sorted_list_of_set (lg_journal l2)),
           md_removed = snd (residency_delta sorted_list_of_set (lg_journal l2))\<rparr>]) {} = {txid}"
  by (simp add: ledger_default_def push_def JOURNAL_CAP_def begin_flush_def residency_delta_def first_last_def
      first_last_step_def get_snapshot_then_delta_stream_def snapshot_frame_def get_delta_stream_def map_filter_def
      fold_events_def Let_def)

end
