(* ===== verification/Blocks.thy ===== *)
theory Blocks
  imports Reconciler
begin

text \<open>
  The block service (\<open>api/src/services/block.rs\<close>) and its errors (\<open>api/src/error.rs\<close>). The node's
  block calls are a record of answers, indexed like the other outside calls by the step they are
  made at. Applying a block runs under the gate and the lock of the gate theory, so no tick and no
  other block writes inside it. Catching up is a loop that only ends when the stored chain reaches
  the tip: \<open>None\<close> means that it does not return.
\<close>

section \<open>Errors\<close>

datatype BlockSyncError = Node ObserverError | Db RepoError

definition source_label :: "BlockSyncError \<Rightarrow> string" where
  "source_label e = (case e of Node _ \<Rightarrow> ''node'' | Db _ \<Rightarrow> ''db'')"

definition SOURCE_LABELS :: "string list" where
  "SOURCE_LABELS = [''node'', ''db'']"

section \<open>Backoff\<close>

definition CATCH_UP_BACKOFF_BASE :: nat where
  "CATCH_UP_BACKOFF_BASE = from_millis 250"

definition MAX_CATCH_UP_BACKOFF :: nat where
  "MAX_CATCH_UP_BACKOFF = from_secs 10"

definition catch_up_backoff :: "32 word \<Rightarrow> nat" where
  "catch_up_backoff attempts =
    (let factor = (case checked_shl 1 attempts of Some f \<Rightarrow> f | None \<Rightarrow> -1)
     in min (saturating_mul CATCH_UP_BACKOFF_BASE factor) MAX_CATCH_UP_BACKOFF)"

interpretation catch_up_delay: capped_doubling catch_up_backoff CATCH_UP_BACKOFF_BASE MAX_CATCH_UP_BACKOFF
proof
  show "catch_up_backoff n = min (CATCH_UP_BACKOFF_BASE * 2 ^ unat n) MAX_CATCH_UP_BACKOFF" for n
    unfolding catch_up_backoff_def Let_def
    by (rule capped_factor)
      (simp_all add: CATCH_UP_BACKOFF_BASE_def MAX_CATCH_UP_BACKOFF_def from_millis_def from_secs_def DURATION_MAX_def)
qed (simp_all add: CATCH_UP_BACKOFF_BASE_def MAX_CATCH_UP_BACKOFF_def from_millis_def from_secs_def)

section \<open>Applying a block\<close>

record block_node =
  nd_tip :: "nat \<Rightarrow> ObserverError + int"
  nd_hash :: "nat \<Rightarrow> int \<Rightarrow> ObserverError + string"
  nd_block :: "nat \<Rightarrow> string \<Rightarrow> ObserverError + GetBlockModel"

definition mined_row :: "instant \<Rightarrow> GetBlockModel \<Rightarrow> BlockTxSummary \<Rightarrow> Transaction" where
  "mined_row seen_at block tx =
    \<lparr>tx_txid = bt_txid tx, tx_fee = Some (bt_fee_sats tx), tx_weight = bt_weight tx, tx_first_seen_at = seen_at,
     tx_confirmed_at = Some (bk_mined_at block), tx_cluster_id = None,
     tx_confirmed_at_block = Some (bk_hash block), tx_input_txids = Some (bt_input_txids tx)\<rparr>"

text \<open>Collecting pairs into a hash map: a later pair wins.\<close>

definition collect :: "('k \<times> 'v) list \<Rightarrow> ('k \<rightharpoonup> 'v)" where
  "collect pairs = map_of (rev pairs)"

definition apply_block ::
  "env \<Rightarrow> block_node \<Rightarrow> string \<Rightarrow> world \<Rightarrow> ((BlockSyncError + unit) \<times> world) option" where
  "apply_block env nd hash w =
    (case nd_block nd (w_steps w) hash of
       Inl e \<Rightarrow> Some (Inl (Node e), step w)
     | Inr block \<Rightarrow>
         (let w1 = step w;
              txids = map bt_txid (bk_txs block);
              fees = collect (map (\<lambda>tx. (bt_txid tx, bt_fee_sats tx)) (bk_txs block));
              weights = collect (map (\<lambda>tx. (bt_txid tx, bt_weight tx)) (bk_txs block));
              new_txs = map (mined_row (ev_now env (w_steps w1)) block) (bk_txs block)
          in case db_write env (\<lambda>fault now. insert_with_transactions fault (new_block_from now block) new_txs) w1 of
               (Inl e, w2) \<Rightarrow> Some (Inl (Db e), w2)
             | (Inr _, w2) \<Rightarrow>
                 (let w3 = (step w2)\<lparr>w_ledger := assert_absent (ev_push_clk env (w_steps w2)) txids (w_ledger w2)\<rparr>
                  in map_option (\<lambda>w4. (Inr (), publish (BusNewBlock \<lparr>nb_height = bk_height block,
                          nb_mined_at = bk_mined_at block\<rparr>) w4))
                       (confirm_mined env txids fees weights (bk_mined_at block) w3))))"

section \<open>Catching up\<close>

fun apply_heights ::
  "env \<Rightarrow> block_node \<Rightarrow> int list \<Rightarrow> world \<Rightarrow> ((BlockSyncError + unit) \<times> world) option" where
  "apply_heights env nd [] w = Some (Inr (), w)"
| "apply_heights env nd (height # heights) w =
    (case nd_hash nd (w_steps w) (u64_of height) of
       Inl e \<Rightarrow> Some (Inl (Node e), step w)
     | Inr hash \<Rightarrow>
         (case apply_block env nd hash (step w) of
            None \<Rightarrow> None
          | Some (Inl e, w') \<Rightarrow> Some (Inl e, w')
          | Some (Inr _, w') \<Rightarrow> apply_heights env nd heights w'))"

definition next_height :: "int option \<Rightarrow> int \<Rightarrow> int" where
  "next_height latest tip = (case latest of Some height \<Rightarrow> height + 1 | None \<Rightarrow> tip)"

partial_function (option) catch_up :: "env \<Rightarrow> block_node \<Rightarrow> world \<Rightarrow> ((BlockSyncError + unit) \<times> world) option" where
  "catch_up env nd w =
    (case nd_tip nd (w_steps w) of
       Inl e \<Rightarrow> Some (Inl (Node e), step w)
     | Inr tip \<Rightarrow>
         (case db_read env (\<lambda>fault. latest_height fault) (step w) of
            (Inl e, w2) \<Rightarrow> Some (Inl (Db e), w2)
          | (Inr latest, w2) \<Rightarrow>
              (if next_height latest tip > tip then Some (Inr (), w2)
               else Option.bind (apply_heights env nd [next_height latest tip..tip] w2)
                 (\<lambda>(r, w3). case r of Inl e \<Rightarrow> Some (Inl e, w3) | Inr _ \<Rightarrow> catch_up env nd w3))))"

text \<open>The gauge is the only use of the sampled number; it is returned, with the delays slept.\<close>

definition sample_missing_heights :: "env \<Rightarrow> world \<Rightarrow> int option \<times> world" where
  "sample_missing_heights env w =
    (case db_read env (\<lambda>fault. missing_heights fault) w of
       (Inr n, w') \<Rightarrow> (Some n, w') | (Inl e, w') \<Rightarrow> (None, w'))"

partial_function (option) sync_missing_blocks ::
  "env \<Rightarrow> block_node \<Rightarrow> 32 word \<Rightarrow> world \<Rightarrow> (nat list \<times> int option \<times> world) option" where
  "sync_missing_blocks env nd attempts w =
    Option.bind (catch_up env nd w)
      (\<lambda>(r, w'). case r of
         Inl e \<Rightarrow> Option.bind (sync_missing_blocks env nd (saturating_add attempts 1) w')
             (\<lambda>(delays, rest). Some (catch_up_backoff attempts # delays, rest))
       | Inr _ \<Rightarrow> (case sample_missing_heights env w' of (n, w2) \<Rightarrow> Some ([], n, w2)))"

section \<open>What storing a block does\<close>

text \<open>A stored row that carries what a block says about its transaction.\<close>

definition confirmed_as :: "Transaction \<Rightarrow> Transaction \<Rightarrow> bool" where
  "confirmed_as row t \<longleftrightarrow> tx_txid t = tx_txid row \<and> tx_confirmed_at t = tx_confirmed_at row \<and>
     tx_confirmed_at_block t = tx_confirmed_at_block row \<and> tx_fee t = tx_fee row \<and> tx_weight t = tx_weight row \<and>
     tx_input_txids t = tx_input_txids row"

definition confirms :: "Transaction list \<Rightarrow> Transaction list \<Rightarrow> Transaction list \<Rightarrow> bool" where
  "confirms rows table table' \<longleftrightarrow> distinct (map tx_txid table') \<and>
     (\<forall>t. tx_txid t \<notin> tx_txid ` set rows \<longrightarrow> (t \<in> set table' \<longleftrightarrow> t \<in> set table)) \<and>
     (\<forall>row\<in>set rows. \<exists>t\<in>set table'. confirmed_as row t)"

lemma confirmsD:
  assumes "confirms rows table table'"
  shows "distinct (map tx_txid table')"
    and "tx_txid t \<notin> tx_txid ` set rows \<Longrightarrow> t \<in> set table' \<longleftrightarrow> t \<in> set table"
    and "row \<in> set rows \<Longrightarrow> \<exists>t\<in>set table'. confirmed_as row t"
  using assms by (simp_all add: confirms_def)

lemma confirms_none: "distinct (map tx_txid table) \<Longrightarrow> confirms [] table table"
  by (simp add: confirms_def)

lemma confirms_append:
  assumes "confirms xs t1 t2" "confirms ys t2 t3" "tx_txid ` set xs \<inter> tx_txid ` set ys = {}"
  shows "confirms (xs @ ys) t1 t3"
  unfolding confirms_def
proof (intro conjI allI ballI impI)
  show "distinct (map tx_txid t3)"
    by (rule confirmsD(1) [OF assms(2)])
  show "t \<in> set t3 \<longleftrightarrow> t \<in> set t1" if "tx_txid t \<notin> tx_txid ` set (xs @ ys)" for t
    using that confirmsD(2) [OF assms(1)] confirmsD(2) [OF assms(2)] by (simp add: image_Un)
  show "\<exists>t\<in>set t3. confirmed_as row t" if "row \<in> set (xs @ ys)" for row
  proof (cases "row \<in> set ys")
    case True
    then show ?thesis
      by (rule confirmsD(3) [OF assms(2)])
  next
    case False
    then have row: "row \<in> set xs"
      using that by simp
    from confirmsD(3) [OF assms(1) row] obtain t where t: "t \<in> set t2" "confirmed_as row t"
      by blast
    then have "tx_txid t \<notin> tx_txid ` set ys"
      using assms(3) row unfolding confirmed_as_def by (metis disjoint_iff image_eqI)
    then show ?thesis
      using t confirmsD(2) [OF assms(2)] by blast
  qed
qed

lemma upsert_row_confirm:
  assumes "distinct (map tx_txid table)"
  shows "\<exists>table'. upsert_row confirm_row row (n, table) = (n + 1, table') \<and> confirms [row] table table'"
proof (cases "find (\<lambda>t. tx_txid t = tx_txid row) table")
  case None
  then have "tx_txid row \<notin> tx_txid ` set table"
    by (auto simp: find_None_iff)
  then have "confirms [row] table (table @ [row])"
    using assms by (auto simp: confirms_def confirmed_as_def)
  then show ?thesis
    using None by (simp add: upsert_row_def)
next
  case (Some old)
  then have old: "old \<in> set table" "tx_txid old = tx_txid row"
    by (auto simp: find_Some_iff)
  let ?new = "the (confirm_row old row)"
  let ?table = "map (\<lambda>t. if tx_txid t = tx_txid row then ?new else t) table"
  have new: "confirmed_as row ?new"
    using old(2) by (simp add: confirm_row_def confirmed_as_def)
  then have "map tx_txid ?table = map tx_txid table"
    by (simp add: comp_def confirmed_as_def)
  moreover have "?new \<in> set ?table"
    using old by (auto intro!: image_eqI [of _ _ old])
  moreover have "t \<in> set ?table \<longleftrightarrow> t \<in> set table" if "tx_txid t \<noteq> tx_txid row" for t
    using that new by (auto simp: confirmed_as_def)
  ultimately have "confirms [row] table ?table"
    unfolding confirms_def using assms new by (simp del: map_map set_map list.set_map) blast
  moreover have "upsert_row confirm_row row (n, table) = (n + 1, ?table)"
    using Some by (simp add: upsert_row_def confirm_row_def)
  ultimately show ?thesis
    by blast
qed

lemma fold_upsert_confirm:
  assumes "distinct (map tx_txid table)" "distinct (map tx_txid rows)"
  shows "\<exists>k table'. fold (upsert_row confirm_row) rows (n, table) = (k, table') \<and> confirms rows table table'"
  using assms
proof (induction rows arbitrary: n table)
  case Nil
  then show ?case
    by (simp add: confirms_none)
next
  case (Cons row rows)
  obtain table1 where 1: "upsert_row confirm_row row (n, table) = (n + 1, table1)" "confirms [row] table table1"
    using upsert_row_confirm [OF Cons.prems(1)] by blast
  obtain k table2 where 2: "fold (upsert_row confirm_row) rows (n + 1, table1) = (k, table2)" "confirms rows table1 table2"
    using Cons.IH [OF confirmsD(1) [OF 1(2)], of "n + 1"] Cons.prems(2) by auto
  have "confirms ([row] @ rows) table table2"
    using 1(2) 2(2) by (rule confirms_append) (use Cons.prems(2) in auto)
  then show ?case
    using 1(1) 2(1) by auto
qed

lemma upsert_batches_confirm:
  assumes "distinct (map tx_txid (db_transactions d))" "distinct (map tx_txid (concat bs))"
  shows "\<exists>k table. upsert_batches confirm_row bs n d = Inr (k, d\<lparr>db_transactions := table\<rparr>) \<and>
    confirms (concat bs) (db_transactions d) table"
  using assms
proof (induction bs arbitrary: n d)
  case Nil
  then show ?case
    by (auto simp: confirms_none intro!: exI [of _ "db_transactions d"])
next
  case (Cons b bs)
  have dist: "distinct (map tx_txid b)" "distinct (map tx_txid (concat bs))"
    "tx_txid ` set b \<inter> tx_txid ` set (concat bs) = {}"
    using Cons.prems(2) by auto
  obtain m table1 where 1: "fold (upsert_row confirm_row) b (n, db_transactions d) = (m, table1)"
    "confirms b (db_transactions d) table1"
    using fold_upsert_confirm [OF Cons.prems(1) dist(1)] by blast
  have "distinct (map tx_txid (db_transactions (d\<lparr>db_transactions := table1\<rparr>)))"
    using confirmsD(1) [OF 1(2)] by simp
  from Cons.IH [OF this dist(2), of m] obtain k table where
    2: "upsert_batches confirm_row bs m (d\<lparr>db_transactions := table1\<rparr>) = Inr (k, d\<lparr>db_transactions := table\<rparr>)"
      "confirms (concat bs) table1 table"
    by auto
  have "confirms (concat (b # bs)) (db_transactions d) table"
    using confirms_append [OF 1(2) 2(2) dist(3)] by simp
  then show ?case
    using 1(1) 2(1) dist(1) by auto
qed

text \<open>Storing a block either fails and leaves every table, or stores its row unless the hash is known
  and confirms its transactions; it fails only for a fault when no txid is listed twice.\<close>

lemma insert_with_transactions_spec:
  assumes "distinct (map tx_txid (db_transactions d))" "distinct (map tx_txid rows)"
    "insert_with_transactions fault block rows d = (res, d')"
  shows "(\<exists>e. res = Inl e \<and> fault \<noteq> None \<and> same_tables d d' \<and> db_cluster_seq d \<le> db_cluster_seq d') \<or>
    (res = Inr () \<and> (\<exists>table. confirms rows (db_transactions d) table \<and>
      d' = d\<lparr>db_blocks := (if bl_hash block \<in> bl_hash ` set (db_blocks d) then db_blocks d else db_blocks d @ [block]),
             db_transactions := table\<rparr>))"
proof -
  let ?d1 = "snd (insert_block_row block d)"
  let ?bs = "chunks_of TRANSACTION_INSERT_CHUNK_SIZE (sorted_by_txid rows)"
  have d1: "?d1 = d\<lparr>db_blocks := (if bl_hash block \<in> bl_hash ` set (db_blocks d) then db_blocks d else db_blocks d @ [block])\<rparr>"
    by (simp add: insert_block_row_def)
  have "distinct (map tx_txid (sorted_by_txid rows))"
    using assms(2) by (simp add: sorted_by_txid_def distinct_map)
  then have "distinct (map tx_txid (concat ?bs))"
    by (simp add: TRANSACTION_INSERT_CHUNK_SIZE_def)
  then obtain k table where run: "insert_or_confirm_many rows ?d1 = Inr (k, ?d1\<lparr>db_transactions := table\<rparr>)"
    "confirms (concat ?bs) (db_transactions d) table"
    using upsert_batches_confirm [of ?d1 ?bs 0] assms(1) by (auto simp: insert_or_confirm_many_def d1)
  have "confirms rows (db_transactions d) table"
    using run(2) by (simp add: TRANSACTION_INSERT_CHUNK_SIZE_def confirms_def sorted_by_txid_def)
  then show ?thesis
    using assms(3) run(1) unfolding insert_with_transactions_def query_def d1 same_tables_def
    by (auto split: option.splits)
qed

section \<open>The stored chain\<close>

text \<open>What the node's block calls are relied on for: the hash answered for a height is that of a
  block of that height, a block carries the hash it was asked by and lists no transaction twice, and
  heights are non-negative 64-bit integers. The answer for a height may change between calls.\<close>

definition honest_node :: "block_node \<Rightarrow> (string \<Rightarrow> int) \<Rightarrow> bool" where
  "honest_node nd height_of \<longleftrightarrow>
    (\<forall>n t. nd_tip nd n = Inr t \<longrightarrow> 0 \<le> t \<and> t < 2 ^ 63) \<and>
    (\<forall>n h x. 0 \<le> h \<longrightarrow> h < 2 ^ 63 \<longrightarrow> nd_hash nd n (u64_of h) = Inr x \<longrightarrow> height_of x = h) \<and>
    (\<forall>n x b. nd_block nd n x = Inr b \<longrightarrow>
       bk_hash b = x \<and> bk_height b = height_of x \<and> distinct (map bt_txid (bk_txs b)))"

definition heights :: "db \<Rightarrow> int list" where
  "heights d = map bl_height (db_blocks d)"

definition chain_ok :: "(string \<Rightarrow> int) \<Rightarrow> db \<Rightarrow> bool" where
  "chain_ok height_of d \<longleftrightarrow>
    (heights d \<noteq> [] \<longrightarrow> heights d = [hd (heights d)..last (heights d)] \<and> 0 \<le> hd (heights d)) \<and>
    (\<forall>b\<in>set (db_blocks d). height_of (bl_hash b) = bl_height b)"

text \<open>The height a catch-up continues with.\<close>

definition continues :: "int \<Rightarrow> db \<Rightarrow> bool" where
  "continues h d \<longleftrightarrow> heights d = [] \<and> 0 \<le> h \<or> heights d \<noteq> [] \<and> h = last (heights d) + 1"

lemma upto_nonempty: "xs \<noteq> [] \<Longrightarrow> xs = [a..b] \<Longrightarrow> a \<le> b"
  by (cases "a \<le> b") auto

lemma chain_ok_heights:
  assumes "chain_ok height_of d" "heights d \<noteq> []"
  shows "set (heights d) = {hd (heights d)..last (heights d)}" "hd (heights d) \<le> last (heights d)"
    "int (length (heights d)) = last (heights d) - hd (heights d) + 1" "0 \<le> hd (heights d)"
proof -
  have eq: "heights d = [hd (heights d)..last (heights d)]" and "0 \<le> hd (heights d)"
    using assms by (auto simp: chain_ok_def)
  show "set (heights d) = {hd (heights d)..last (heights d)}"
    using eq by (metis set_upto)
  show le: "hd (heights d) \<le> last (heights d)"
    by (rule upto_nonempty [OF assms(2) eq])
  have "length (heights d) = nat (last (heights d) - hd (heights d) + 1)"
    using eq by (metis length_upto)
  then show "int (length (heights d)) = last (heights d) - hd (heights d) + 1"
    using le by simp
qed (use assms in \<open>auto simp: chain_ok_def\<close>)

lemma latest_height_chain:
  assumes "chain_ok height_of d"
  shows "latest_height None d = Inr (if heights d = [] then None else Some (last (heights d)))"
proof (cases "heights d = []")
  case False
  have "Max {hd (heights d)..last (heights d)} = last (heights d)"
    using chain_ok_heights(2) [OF assms False] by (intro Max_eqI) auto
  then show ?thesis
    using False chain_ok_heights(1) [OF assms False]
    by (auto simp: latest_height_def query_def heights_def)
qed (simp add: latest_height_def query_def heights_def)

lemma missing_heights_chain:
  assumes "chain_ok height_of d"
  shows "missing_heights None d = Inr 0"
proof (cases "heights d = []")
  case False
  have "Max {hd (heights d)..last (heights d)} = last (heights d)" "Min {hd (heights d)..last (heights d)} = hd (heights d)"
    using chain_ok_heights(2) [OF assms False] by (intro Max_eqI Min_eqI; simp)+
  then show ?thesis
    using False chain_ok_heights(1,3) [OF assms False]
    by (simp add: missing_heights_def query_def heights_def)
qed (simp add: missing_heights_def query_def heights_def)

lemma chain_ok_append:
  assumes "chain_ok height_of d" "continues (bl_height b) d" "height_of (bl_hash b) = bl_height b"
    "db_blocks d' = db_blocks d @ [b]"
  shows "chain_ok height_of d'" "last (heights d') = bl_height b" "heights d' \<noteq> []"
proof -
  have h: "heights d' = heights d @ [bl_height b]"
    using assms(4) by (simp add: heights_def)
  then show "last (heights d') = bl_height b" "heights d' \<noteq> []"
    by simp_all
  show "chain_ok height_of d'"
  proof (cases "heights d = []")
    case True
    then show ?thesis
      using assms h by (auto simp: chain_ok_def continues_def)
  next
    case False
    note D = chain_ok_heights [OF assms(1) False]
    have "heights d = [hd (heights d)..last (heights d)]"
      using assms(1) False by (simp add: chain_ok_def)
    then have "heights d' = [hd (heights d)..bl_height b]"
      using assms(2) False D(2) upto_rec2 [of "hd (heights d)" "bl_height b"] by (simp add: h continues_def)
    moreover have ends: "hd (heights d') = hd (heights d)" "last (heights d') = bl_height b"
      using False by (simp_all add: h)
    ultimately have "heights d' = [hd (heights d')..last (heights d')]"
      by simp
    moreover have "\<forall>b\<in>set (db_blocks d'). height_of (bl_hash b) = bl_height b"
      using assms by (simp add: chain_ok_def)
    ultimately show ?thesis
      unfolding chain_ok_def ends(1) using D(4) by blast
  qed
qed

lemma new_hash:
  assumes "chain_ok height_of d" "continues (height_of x) d"
  shows "x \<notin> bl_hash ` set (db_blocks d)"
proof
  assume "x \<in> bl_hash ` set (db_blocks d)"
  then obtain b where b: "b \<in> set (db_blocks d)" "bl_hash b = x"
    by auto
  then have "height_of x \<in> set (heights d)"
    using assms(1) by (auto simp: chain_ok_def heights_def)
  moreover from b have "heights d \<noteq> []"
    by (auto simp: heights_def)
  ultimately show False
    using chain_ok_heights(1) [OF assms(1)] assms(2) by (auto simp: continues_def)
qed

section \<open>Every outcome of applying a block\<close>

lemma confirms_mined:
  assumes "confirms rows ts ts'" "\<forall>row\<in>set rows. tx_confirmed_at row \<noteq> None"
  shows "tx_txid ` set rows \<subseteq> mined ts'"
proof -
  have "tx_txid row \<in> mined ts'" if row: "row \<in> set rows" for row
  proof -
    obtain t where "t \<in> set ts'" "confirmed_as row t"
      using confirmsD(3) [OF assms(1) row] by blast
    then have "t \<in> {t \<in> set ts'. tx_confirmed_at t \<noteq> None}" "tx_txid row = tx_txid t"
      using assms(2) row by (auto simp: confirmed_as_def)
    then show ?thesis
      unfolding mined_def by blast
  qed
  then show ?thesis
    by blast
qed

text \<open>The block a catch-up stored: its row is last, its transactions are stored as mined, and the tables
  the cluster service keeps are consistent again.\<close>

definition applied :: "GetBlockModel \<Rightarrow> world \<Rightarrow> world \<Rightarrow> bool" where
  "applied block w w' \<longleftrightarrow>
    (\<exists>now. db_blocks (w_db w') = db_blocks (w_db w) @ [new_block_from now block]) \<and>
    bt_txid ` set (bk_txs block) \<subseteq> mined_in (w_db w') \<and>
    residency (w_db w') = residency (w_db w) \<and>
    (\<exists>clk. extends (assert_absent clk (map bt_txid (bk_txs block)) (w_ledger w)) (w_ledger w')) \<and>
    (\<exists>evs. w_bus w' = w_bus w @ evs @ [BusNewBlock \<lparr>nb_height = bk_height block, nb_mined_at = bk_mined_at block\<rparr>] \<and>
       (\<forall>e\<in>set evs. is_cluster_event e))"

definition not_applied :: "world \<Rightarrow> world \<Rightarrow> bool" where
  "not_applied w w' \<longleftrightarrow> same_tables (w_db w) (w_db w') \<and> w_ledger w' = w_ledger w \<and> w_bus w' = w_bus w \<and>
     w_snapshot w' = w_snapshot w"

lemma confirm_returns:
  assumes "node_ok env" "iterates (ev_it_txids env)" "cluster_inv (w_db w)" "view_ok (view_of w)"
  shows "\<exists>w'. confirm_mined env txids fees weights t w = Some w' \<and> cluster_inv (w_db w') \<and> view_ok (view_of w') \<and> w_frame w w'"
proof -
  obtain ch w1 where run: "confirm_mined env txids fees weights t w = Some (publish_delta env ch w1)"
    "stage_effect (view_of w) w (ch, w1)"
    using confirm_mined_effect [OF assms] by blast
  then show ?thesis
    using publish_delta_stage(1,2) [OF run(2)] confirm_mined_frame [OF run(1)] by auto
qed

lemma in_step_outside:
  assumes "world_ok w" "cluster_outside (w_db w) d'" "db_deltas d' = db_deltas (w_db w)"
  shows "world_ok (w\<lparr>w_db := d'\<rparr>)"
  using assms cluster_outside_inv [OF assms(2)] by (simp add: world_ok_def in_step_def residency_def cluster_outside_def)

lemma world_ok_step [simp]: "world_ok (step w) \<longleftrightarrow> world_ok w"
  by (simp add: world_ok_def)

lemma world_ok_publish [simp]: "world_ok (publish e w) \<longleftrightarrow> world_ok w"
  by (simp add: world_ok_def)

lemma world_ok_produced:
  assumes "world_ok w" "produces f"
  shows "world_ok (w\<lparr>w_ledger := f (w_ledger w)\<rparr>)"
proof -
  have "coherent w" "finite (lg_live (f (w_ledger w)))" "extends (w_ledger w) (f (w_ledger w))"
    using assms by (simp_all add: world_ok_def in_step_def produces_def)
  then show ?thesis
    using in_step_extends assms(1) by (simp add: world_ok_def)
qed

section \<open>Catching up\<close>

text \<open>The outside disturbed the call made at step \<open>n\<close>.\<close>

definition failing :: "env \<Rightarrow> block_node \<Rightarrow> nat \<Rightarrow> bool" where
  "failing env nd n \<longleftrightarrow> (\<exists>e. nd_tip nd n = Inl e) \<or> (\<exists>h e. nd_hash nd n h = Inl e) \<or>
     (\<exists>x e. nd_block nd n x = Inl e) \<or> ev_fault env n \<noteq> None"

definition tips_below :: "block_node \<Rightarrow> int \<Rightarrow> bool" where
  "tips_below nd T \<longleftrightarrow> (\<forall>n t. nd_tip nd n = Inr t \<longrightarrow> t \<le> T)"

definition calm_from :: "env \<Rightarrow> block_node \<Rightarrow> nat \<Rightarrow> bool" where
  "calm_from env nd N \<longleftrightarrow> (\<forall>n\<ge>N. \<not> failing env nd n)"

definition sync_inv :: "(world \<Rightarrow> bool) \<Rightarrow> (string \<Rightarrow> int) \<Rightarrow> world \<Rightarrow> bool" where
  "sync_inv P height_of w \<longleftrightarrow> P w \<and> chain_ok height_of (w_db w)"

definition sync_ok :: "(string \<Rightarrow> int) \<Rightarrow> world \<Rightarrow> bool" where
  "sync_ok height_of w \<longleftrightarrow> world_ok w \<and> chain_ok height_of (w_db w)"

definition stored_after :: "world \<Rightarrow> world \<Rightarrow> bool" where
  "stored_after w w' \<longleftrightarrow> w_steps w \<le> w_steps w' \<and> (\<exists>ext. db_blocks (w_db w') = db_blocks (w_db w) @ ext)"

interpretation storing: keeps stored_after
  by unfold_locales (auto simp: stored_after_def)

lemma stored_after_step: "stored_after w w' \<Longrightarrow> stored_after w (step w')"
  by (simp add: stored_after_def step_def)

definition failed_since :: "env \<Rightarrow> block_node \<Rightarrow> world \<Rightarrow> bool" where
  "failed_since env nd w \<longleftrightarrow> (\<exists>n\<ge>w_steps w. failing env nd n)"

lemma failed_since_later: "failed_since env nd w' \<Longrightarrow> w_steps w \<le> w_steps w' \<Longrightarrow> failed_since env nd w"
  unfolding failed_since_def using le_trans by blast

lemma failed_since_now: "failing env nd n \<Longrightarrow> w_steps w \<le> n \<Longrightarrow> failed_since env nd w"
  by (auto simp: failed_since_def)

text \<open>How far the stored chain is from a bound on the tips.\<close>

definition room :: "int \<Rightarrow> db \<Rightarrow> nat" where
  "room T d = nat (T - (if heights d = [] then -1 else last (heights d)))"

lemma next_continues:
  assumes "chain_ok height_of d" "latest_height None d = Inr latest" "0 \<le> tip"
  shows "continues (next_height latest tip) d" "0 \<le> next_height latest tip"
    and "next_height latest tip > tip \<Longrightarrow> heights d \<noteq> [] \<and> tip \<le> last (heights d)"
proof -
  have latest: "latest = (if heights d = [] then None else Some (last (heights d)))"
    using assms(2) latest_height_chain [OF assms(1)] by simp
  show "continues (next_height latest tip) d"
    using assms(3) by (simp add: latest next_height_def continues_def)
  show "0 \<le> next_height latest tip"
  proof (cases "heights d = []")
    case False
    then show ?thesis
      using chain_ok_heights(2,4) [OF assms(1) False] by (simp add: latest next_height_def)
  qed (simp add: latest next_height_def assms(3))
  show "next_height latest tip > tip \<Longrightarrow> heights d \<noteq> [] \<and> tip \<le> last (heights d)"
    by (auto simp: latest next_height_def split: if_splits)
qed

definition caught_up :: "env \<Rightarrow> block_node \<Rightarrow> world \<Rightarrow> BlockSyncError + unit \<Rightarrow> world \<Rightarrow> bool" where
  "caught_up env nd w r w' \<longleftrightarrow> stored_after w w' \<and> w_steps w < w_steps w' \<and>
    (case r of
       Inl e \<Rightarrow> failed_since env nd w
     | Inr _ \<Rightarrow> \<exists>n tip. w_steps w \<le> n \<and> n < w_steps w' \<and> nd_tip nd n = Inr tip \<and>
         heights (w_db w') \<noteq> [] \<and> tip \<le> last (heights (w_db w')))"

lemma caught_up_later:
  assumes "stored_after w w1" "caught_up env nd w1 r w'"
  shows "caught_up env nd w r w'"
proof -
  have "stored_after w w'"
    using assms storing.keeps_trans unfolding caught_up_def by blast
  moreover have "w_steps w \<le> w_steps w1"
    using assms(1) by (simp add: stored_after_def)
  ultimately show ?thesis
    using assms(2) failed_since_later [of env nd w1 w] unfolding caught_up_def
    by (cases r) (auto intro: order.trans)
qed

definition synced :: "block_node \<Rightarrow> world \<Rightarrow> world \<Rightarrow> bool" where
  "synced nd w w' \<longleftrightarrow> stored_after w w' \<and> (\<exists>n tip. w_steps w \<le> n \<and> n < w_steps w' \<and> nd_tip nd n = Inr tip \<and>
     heights (w_db w') \<noteq> [] \<and> tip \<le> last (heights (w_db w')))"

lemma synced_later:
  assumes "stored_after w w1" "synced nd w1 w'"
  shows "synced nd w w'"
proof -
  have "w_steps w \<le> w_steps w1"
    using assms(1) by (simp add: stored_after_def)
  then show ?thesis
    using assms(2) storing.keeps_trans [OF assms(1)] unfolding synced_def by (meson order.trans)
qed

text \<open>What catching up needs of an invariant of the service's state: it implies that the cluster service can be
  called, and each thing the block service does keeps it. The lemmas hold for every such invariant.\<close>

locale block_inv =
  fixes env :: env and inv :: "world \<Rightarrow> bool"
  assumes inv_tables: "inv w \<Longrightarrow> node_ok env \<and> iterates (ev_it_txids env) \<and> cluster_inv (w_db w) \<and> view_ok (view_of w)"
    and inv_step [simp]: "inv (step w) \<longleftrightarrow> inv w"
    and inv_publish: "inv w \<Longrightarrow> inv (publish (BusNewBlock e) w)"
    and inv_outside: "inv w \<Longrightarrow> cluster_outside (w_db w) d \<Longrightarrow> db_deltas d = db_deltas (w_db w) \<Longrightarrow> inv (w\<lparr>w_db := d\<rparr>)"
    and inv_produced: "inv w \<Longrightarrow> produces f \<Longrightarrow> inv (w\<lparr>w_ledger := f (w_ledger w)\<rparr>)"
    and inv_confirm: "inv w \<Longrightarrow> confirm_mined env txids fees weights t w = Some w' \<Longrightarrow> inv w'"
begin

lemma block_cases:
  assumes nd: "honest_node nd height_of"
    and w: "inv w" "chain_ok height_of (w_db w)" "continues (height_of hash) (w_db w)"
  shows "\<exists>r w'. apply_block env nd hash w = Some (r, w') \<and> inv w' \<and> w_steps w < w_steps w' \<and>
    (case r of
       Inl (Node e) \<Rightarrow> nd_block nd (w_steps w) hash = Inl e \<and> not_applied w w'
     | Inl (Db e) \<Rightarrow> ev_fault env (Suc (w_steps w)) \<noteq> None \<and> not_applied w w'
     | Inr _ \<Rightarrow> \<exists>block. nd_block nd (w_steps w) hash = Inr block \<and> applied block w w')"
proof (cases "nd_block nd (w_steps w) hash")
  case (Inl e)
  then show ?thesis
    using w(1) by (simp add: apply_block_def not_applied_def same_tables_def) (simp add: step_def)
next
  case (Inr block)
  have block: "bk_hash block = hash" "bk_height block = height_of hash" "distinct (map bt_txid (bk_txs block))"
    using nd Inr unfolding honest_node_def by blast+
  let ?w1 = "step w"
  let ?rows = "map (mined_row (ev_now env (w_steps ?w1)) block) (bk_txs block)"
  let ?new = "new_block_from (ev_now env (w_steps ?w1)) block"
  obtain res d' where ins: "insert_with_transactions (ev_fault env (w_steps ?w1)) ?new ?rows (w_db w) = (res, d')"
    by (rule prod.exhaust)
  let ?w2 = "step (?w1\<lparr>w_db := d'\<rparr>)"
  have dbw: "db_write env (\<lambda>fault now. insert_with_transactions fault (new_block_from now block) ?rows) ?w1 = (res, ?w2)"
    using ins by (simp add: db_write_def)
  have txids: "map tx_txid ?rows = map bt_txid (bk_txs block)"
    by (simp add: mined_row_def comp_def)
  have dist: "distinct (map tx_txid (db_transactions (w_db w)))"
    using inv_tables [OF w(1)] by (simp add: cluster_inv_def cluster_inv_upto_def)
  have "distinct (map tx_txid ?rows)"
    unfolding txids by (rule block(3))
  from insert_with_transactions_spec [OF dist this ins] show ?thesis
  proof (elim disjE exE conjE)
    fix e
    assume res: "res = Inl e" "ev_fault env (w_steps ?w1) \<noteq> None" "same_tables (w_db w) d'" "db_cluster_seq (w_db w) \<le> db_cluster_seq d'"
    have "cluster_outside (w_db w) d'"
      using res(3,4) unfolding cluster_outside_def same_tables_def by (metis (no_types) db.select_convs db.surjective db.update_convs(2))
    then have "inv ?w2"
      using inv_outside [of ?w1 d'] w(1) same_tables_fields(1) [OF res(3)] by simp
    then show ?thesis
      using Inr dbw res by (simp add: apply_block_def Let_def not_applied_def) (simp add: step_def)
  next
    fix table
    assume res: "res = Inr ()" and conf: "confirms ?rows (db_transactions (w_db w)) table"
      and d': "d' = (w_db w)\<lparr>db_blocks := (if bl_hash ?new \<in> bl_hash ` set (db_blocks (w_db w)) then db_blocks (w_db w)
         else db_blocks (w_db w) @ [?new]), db_transactions := table\<rparr>"
    have fresh: "bl_hash ?new \<notin> bl_hash ` set (db_blocks (w_db w))"
      using new_hash [OF w(2,3)] block(1) by (simp add: new_block_from_def)
    have "cluster_outside (w_db w) d'"
      using confirmsD(1) [OF conf] by (simp add: d' cluster_outside_def)
    then have "inv (?w1\<lparr>w_db := d'\<rparr>)"
      using inv_outside [of ?w1 d'] w(1) by (simp add: d')
    let ?w3 = "(step ?w2)\<lparr>w_ledger := assert_absent (ev_push_clk env (w_steps ?w2)) (map bt_txid (bk_txs block)) (w_ledger ?w2)\<rparr>"
    have w3: "inv ?w3"
      using inv_produced [OF _ produces_asserts(2), of "step ?w2"] \<open>inv (?w1\<lparr>w_db := d'\<rparr>)\<close>
      by (simp del: assert_absent.simps)
    obtain w4 where w4: "confirm_mined env (map bt_txid (bk_txs block))
        (collect (map (\<lambda>tx. (bt_txid tx, bt_fee_sats tx)) (bk_txs block)))
        (collect (map (\<lambda>tx. (bt_txid tx, bt_weight tx)) (bk_txs block))) (bk_mined_at block) ?w3 = Some w4"
      "cluster_inv (w_db w4)" "view_ok (view_of w4)" "w_frame ?w3 w4"
      using confirm_returns [of env ?w3] inv_tables [OF w3] by blast
    let ?w5 = "publish (BusNewBlock \<lparr>nb_height = bk_height block, nb_mined_at = bk_mined_at block\<rparr>) w4"
    have run: "apply_block env nd hash w = Some (Inr (), ?w5)"
      using Inr dbw res w4(1) by (simp add: apply_block_def Let_def)
    have "inv ?w5"
      using inv_publish inv_confirm [OF w3 w4(1)] by simp
    moreover have "w_steps w < w_steps ?w5"
      using w4(4) by (simp add: w_frame_def publish_def) (simp add: step_def)
    moreover have "applied block w ?w5"
      unfolding applied_def
    proof (intro conjI)
      show "\<exists>now. db_blocks (w_db ?w5) = db_blocks (w_db w) @ [new_block_from now block]"
        using w4(4) fresh by (auto simp: w_frame_def db_frame_def d')
      have "tx_txid ` set ?rows = bt_txid ` set (bk_txs block)"
        using txids by (metis list.set_map)
      moreover have "\<forall>row\<in>set ?rows. tx_confirmed_at row \<noteq> None"
        by (simp add: mined_row_def)
      ultimately have "bt_txid ` set (bk_txs block) \<subseteq> mined table"
        using confirms_mined [OF conf] by simp
      then show "bt_txid ` set (bk_txs block) \<subseteq> mined_in (w_db ?w5)"
        using w4(4) by (simp add: w_frame_def db_frame_def rows_frame_def mined_in_eq d')
      show "residency (w_db ?w5) = residency (w_db w)"
        using frame_residency [OF w4(4)] by (simp add: residency_def d')
      show "\<exists>clk. extends (assert_absent clk (map bt_txid (bk_txs block)) (w_ledger w)) (w_ledger ?w5)"
        using w4(4) by (auto simp: w_frame_def simp del: assert_absent.simps)
      show "\<exists>evs. w_bus ?w5 = w_bus w @ evs @ [BusNewBlock \<lparr>nb_height = bk_height block, nb_mined_at = bk_mined_at block\<rparr>] \<and>
          (\<forall>e\<in>set evs. is_cluster_event e)"
        using w4(4) by (auto simp: w_frame_def)
    qed
    ultimately show ?thesis
      using run Inr by auto
  qed
qed

text \<open>One height.\<close>

lemma height_run:
  assumes "honest_node nd height_of" "sync_inv inv height_of w"
    and h: "continues h (w_db w)" "0 \<le> h" "h < 2 ^ 63" "nd_hash nd (w_steps w) (u64_of h) = Inr hash"
  shows "\<exists>r w'. apply_block env nd hash (step w) = Some (r, w') \<and> sync_inv inv height_of w' \<and> stored_after w w' \<and>
    w_steps w < w_steps w' \<and>
    (case r of Inl e \<Rightarrow> failed_since env nd w | Inr _ \<Rightarrow> heights (w_db w') \<noteq> [] \<and> last (heights (w_db w')) = h)"
proof -
  have hash: "height_of hash = h"
    using assms(1) h(2-4) unfolding honest_node_def by blast
  have w: "inv (step w)" "chain_ok height_of (w_db (step w))" "continues (height_of hash) (w_db (step w))"
    using assms(2) h(1) hash by (simp_all add: sync_inv_def)
  obtain r w' where run: "apply_block env nd hash (step w) = Some (r, w')" "inv w'" "w_steps (step w) < w_steps w'"
    and res: "case r of Inl (Node e) \<Rightarrow> nd_block nd (w_steps (step w)) hash = Inl e \<and> not_applied (step w) w'
     | Inl (Db e) \<Rightarrow> ev_fault env (Suc (w_steps (step w))) \<noteq> None \<and> not_applied (step w) w'
     | Inr _ \<Rightarrow> \<exists>block. nd_block nd (w_steps (step w)) hash = Inr block \<and> applied block (step w) w'"
    using block_cases [OF assms(1) w] by blast
  have steps: "w_steps w < w_steps w'"
    using run(3) by (simp add: step_def)
  show ?thesis
  proof (cases r)
    case (Inl e)
    have "not_applied (step w) w'"
      using res Inl by (cases e) auto
    then have "db_blocks (w_db w') = db_blocks (w_db w)"
      using same_tables_fields(2) by (simp add: not_applied_def)
    moreover have "failing env nd (Suc (w_steps w)) \<or> failing env nd (Suc (Suc (w_steps w)))"
      using res Inl by (cases e) (auto simp: failing_def step_def)
    then have "failed_since env nd w"
      using failed_since_now [of env nd _ w] by fastforce
    ultimately show ?thesis
      using run(1,2) steps Inl assms(2)
      by (auto simp: sync_inv_def stored_after_def chain_ok_def heights_def)
  next
    case (Inr u)
    then obtain block now where block: "nd_block nd (w_steps (step w)) hash = Inr block"
      and blocks: "db_blocks (w_db w') = db_blocks (w_db w) @ [new_block_from now block]"
      using res by (auto simp: applied_def)
    have "bk_hash block = hash" "bk_height block = h"
      using assms(1) block hash unfolding honest_node_def by blast+
    then have new: "bl_height (new_block_from now block) = h" "bl_hash (new_block_from now block) = hash"
      by (simp_all add: new_block_from_def)
    have "chain_ok height_of (w_db w)"
      using assms(2) by (simp add: sync_inv_def)
    from chain_ok_append [OF this _ _ blocks] new h(1) hash
    have "chain_ok height_of (w_db w')" "last (heights (w_db w')) = h" "heights (w_db w') \<noteq> []"
      by simp_all
    then show ?thesis
      using run(1,2) steps Inr blocks by (auto simp: sync_inv_def stored_after_def)
  qed
qed

text \<open>A run of heights.\<close>

lemma heights_run:
  assumes "honest_node nd height_of" "sync_inv inv height_of w"
    and "continues h (w_db w)" "0 \<le> h" "h \<le> t" "t < 2 ^ 63"
  shows "\<exists>r w'. apply_heights env nd [h..t] w = Some (r, w') \<and> sync_inv inv height_of w' \<and> stored_after w w' \<and>
    w_steps w < w_steps w' \<and>
    (case r of Inl e \<Rightarrow> failed_since env nd w | Inr _ \<Rightarrow> heights (w_db w') \<noteq> [] \<and> last (heights (w_db w')) = t)"
  using assms(2-)
proof (induction "nat (t - h)" arbitrary: h w)
  case (0 h w)
  then have "[h..t] = [h]"
    by simp
  show ?case
  proof (cases "nd_hash nd (w_steps w) (u64_of h)")
    case (Inl e)
    then have "failing env nd (w_steps w)"
      by (auto simp: failing_def)
    then have "failed_since env nd w"
      by (auto intro: failed_since_now)
    then show ?thesis
      using Inl 0 \<open>[h..t] = [h]\<close> by (simp add: sync_inv_def stored_after_def) (simp add: step_def)
  next
    case (Inr hash)
    have "h < 2 ^ 63" "h = t"
      using 0 by simp_all
    from height_run [OF assms(1) 0(2,3,4) this(1) Inr] obtain r w' where
      "apply_block env nd hash (step w) = Some (r, w')" "sync_inv inv height_of w'" "stored_after w w'" "w_steps w < w_steps w'"
      "case r of Inl e \<Rightarrow> failed_since env nd w | Inr _ \<Rightarrow> heights (w_db w') \<noteq> [] \<and> last (heights (w_db w')) = h"
      by blast
    then show ?thesis
      using Inr \<open>[h..t] = [h]\<close> \<open>h = t\<close> by (cases r) auto
  qed
next
  case (Suc k h w)
  then have upto: "[h..t] = h # [h + 1..t]"
    by (simp add: upto_rec1)
  show ?case
  proof (cases "nd_hash nd (w_steps w) (u64_of h)")
    case (Inl e)
    then have "failing env nd (w_steps w)"
      by (auto simp: failing_def)
    then have "failed_since env nd w"
      by (auto intro: failed_since_now)
    then show ?thesis
      using Inl Suc.prems upto by (simp add: sync_inv_def stored_after_def) (simp add: step_def)
  next
    case (Inr hash)
    have "h < 2 ^ 63"
      using Suc.prems by simp
    from height_run [OF assms(1) Suc.prems(1-3) this Inr] obtain r w1 where
      1: "apply_block env nd hash (step w) = Some (r, w1)" "sync_inv inv height_of w1" "stored_after w w1" "w_steps w < w_steps w1"
      "case r of Inl e \<Rightarrow> failed_since env nd w | Inr _ \<Rightarrow> heights (w_db w1) \<noteq> [] \<and> last (heights (w_db w1)) = h"
      by blast
    show ?thesis
    proof (cases r)
      case (Inl e)
      then show ?thesis
        using 1 upto Inr by auto
    next
      case ok: (Inr u)
      have "k = nat (t - (h + 1))" "continues (h + 1) (w_db w1)" "0 \<le> h + 1" "h + 1 \<le> t"
        using Suc.hyps(2) Suc.prems 1(5) ok by (auto simp: continues_def)
      from Suc.hyps(1) [OF this(1) 1(2) this(2-4) Suc.prems(5)] obtain r2 w2 where
        2: "apply_heights env nd [h + 1..t] w1 = Some (r2, w2)" "sync_inv inv height_of w2" "stored_after w1 w2" "w_steps w1 < w_steps w2"
        "case r2 of Inl e \<Rightarrow> failed_since env nd w1 | Inr _ \<Rightarrow> heights (w_db w2) \<noteq> [] \<and> last (heights (w_db w2)) = t"
        by blast
      have "stored_after w w2"
        using 1(3) 2(3) by (rule storing.keeps_trans)
      moreover have "case r2 of Inl e \<Rightarrow> failed_since env nd w | Inr _ \<Rightarrow> heights (w_db w2) \<noteq> [] \<and> last (heights (w_db w2)) = t"
        using 2(5) 1(4) failed_since_later [of env nd w1 w] by (cases r2) auto
      ultimately show ?thesis
        using 1(1,4) 2(1,2,4) upto Inr ok by auto
    qed
  qed
qed

lemma caught_run:
  assumes "honest_node nd height_of" "sync_inv inv height_of w"
    and bound: "tips_below nd T"
  shows "\<exists>r w'. catch_up env nd w = Some (r, w') \<and> sync_inv inv height_of w' \<and> caught_up env nd w r w'"
  using assms(2)
proof (induction "room T (w_db w)" arbitrary: w rule: less_induct)
  case less
  show ?case
  proof (cases "nd_tip nd (w_steps w)")
    case (Inl e)
    then have "failing env nd (w_steps w)"
      by (auto simp: failing_def)
    then have "failed_since env nd w"
      by (auto intro: failed_since_now)
    then show ?thesis
      using Inl less.prems
      by (simp add: catch_up.simps [of env nd w] sync_inv_def caught_up_def stored_after_def) (simp add: step_def)
  next
    case (Inr tip)
    have tip: "0 \<le> tip" "tip < 2 ^ 63" "tip \<le> T"
      using assms(1) Inr bound unfolding honest_node_def tips_below_def by blast+
    let ?w2 = "step (step w)"
    obtain res where read: "latest_height (ev_fault env (w_steps (step w))) (w_db w) = res"
      by blast
    have dbr: "db_read env (\<lambda>fault. latest_height fault) (step w) = (res, ?w2)"
      using read by (simp add: db_read_def)
    show ?thesis
    proof (cases "ev_fault env (w_steps (step w)) = None")
      case False
      then obtain e where "res = Inl e"
        using read by (auto simp: latest_height_def query_def)
      moreover have "failing env nd (Suc (w_steps w))"
        using False by (simp add: failing_def step_def)
      then have "failed_since env nd w"
        by (auto intro: failed_since_now)
      ultimately show ?thesis
        using Inr dbr less.prems
        by (simp add: catch_up.simps [of env nd w] sync_inv_def caught_up_def stored_after_def) (simp add: step_def)
    next
      case True
      have chain: "chain_ok height_of (w_db w)"
        using less.prems by (simp add: sync_inv_def)
      then obtain latest where latest: "res = Inr latest" "latest_height None (w_db w) = Inr latest"
        using read True latest_height_chain by auto
      note nxt = next_continues [OF chain latest(2) tip(1)]
      let ?h = "next_height latest tip"
      show ?thesis
      proof (cases "?h > tip")
        case True
        then show ?thesis
          using Inr dbr less.prems nxt(3) latest(1)
          by (auto simp: catch_up.simps [of env nd w] sync_inv_def caught_up_def stored_after_def)
            (auto simp: step_def)
      next
        case False
        have "sync_inv inv height_of ?w2" "continues ?h (w_db ?w2)" "?h \<le> tip"
          using less.prems nxt(1) False by (simp_all add: sync_inv_def)
        from heights_run [OF assms(1) this(1,2) nxt(2) this(3) tip(2)] obtain r w3 where
          3: "apply_heights env nd [?h..tip] ?w2 = Some (r, w3)" "sync_inv inv height_of w3" "stored_after ?w2 w3" "w_steps ?w2 < w_steps w3"
          "case r of Inl e \<Rightarrow> failed_since env nd ?w2 | Inr _ \<Rightarrow> heights (w_db w3) \<noteq> [] \<and> last (heights (w_db w3)) = tip"
          by blast
        have w3: "stored_after w w3" "w_steps w < w_steps w3"
          using 3(3,4) by (simp_all add: stored_after_def) (simp_all add: step_def)
        show ?thesis
        proof (cases r)
          case (Inl e)
          have "failed_since env nd w"
            using 3(5) Inl failed_since_later [of env nd ?w2 w] by (simp add: step_def)
          then have "caught_up env nd w (Inl e) w3"
            using w3 by (simp add: caught_up_def)
          then show ?thesis
            using Inr dbr latest(1) False 3(1,2) Inl by (simp add: catch_up.simps [of env nd w])
        next
          case ok: (Inr u)
          have "room T (w_db w3) < room T (w_db w)"
            using 3(5) ok nxt(1) \<open>?h \<le> tip\<close> tip by (auto simp: room_def continues_def)
          from less.hyps [OF this 3(2)] obtain r4 w4 where
            4: "catch_up env nd w3 = Some (r4, w4)" "sync_inv inv height_of w4" "caught_up env nd w3 r4 w4"
            by blast
          have "catch_up env nd w = Some (r4, w4)"
            using Inr dbr latest(1) False 3(1) ok 4(1) by (simp add: catch_up.simps [of env nd w])
          then show ?thesis
            using 4(2) caught_up_later [OF w3(1) 4(3)] by blast
        qed
      qed
    qed
  qed
qed

text \<open>Once nothing fails from some step on, the retry loop ends.\<close>

lemma synced_run:
  assumes "honest_node nd height_of" "sync_inv inv height_of w"
    and bound: "tips_below nd T"
    and calm: "calm_from env nd N"
  shows "\<exists>delays m w'. sync_missing_blocks env nd attempts w = Some (delays, m, w') \<and> sync_inv inv height_of w' \<and>
    synced nd w w' \<and> (m = None \<or> m = Some 0) \<and> length delays \<le> N - w_steps w \<and>
    (\<forall>d\<in>set delays. CATCH_UP_BACKOFF_BASE \<le> d \<and> d \<le> MAX_CATCH_UP_BACKOFF)"
  using assms(2)
proof (induction "N - w_steps w" arbitrary: w attempts rule: less_induct)
  case less
  obtain r w1 where 1: "catch_up env nd w = Some (r, w1)" "sync_inv inv height_of w1" "caught_up env nd w r w1"
    using caught_run [OF assms(1) less.prems bound] by blast
  have after: "stored_after w w1" "w_steps w < w_steps w1"
    using 1(3) by (simp_all add: caught_up_def)
  show ?case
  proof (cases r)
    case (Inl e)
    then obtain n where n: "w_steps w \<le> n" "failing env nd n"
      using 1(3) by (auto simp: caught_up_def failed_since_def)
    then have "n < N"
      using calm unfolding calm_from_def by (meson not_le)
    with n(1) after(2) have less': "N - w_steps w1 < N - w_steps w"
      by linarith
    from less.hyps [OF this 1(2), of "saturating_add attempts 1"] obtain delays m w' where
      2: "sync_missing_blocks env nd (saturating_add attempts 1) w1 = Some (delays, m, w')" "sync_inv inv height_of w'"
        "synced nd w1 w'" "m = None \<or> m = Some 0" "length delays \<le> N - w_steps w1"
        "\<forall>d\<in>set delays. CATCH_UP_BACKOFF_BASE \<le> d \<and> d \<le> MAX_CATCH_UP_BACKOFF"
      by blast
    have "sync_missing_blocks env nd attempts w = Some (catch_up_backoff attempts # delays, m, w')"
      using 1(1) 2(1) Inl by (simp add: sync_missing_blocks.simps [of env nd attempts w])
    moreover have "synced nd w w'"
      by (rule synced_later [OF after(1) 2(3)])
    ultimately show ?thesis
      using 2(2,4-6) less' catch_up_delay.at_least_base [of attempts] catch_up_delay.at_most_ceiling [of attempts] by auto
  next
    case (Inr u)
    obtain m w2 where smp: "sample_missing_heights env w1 = (m, w2)"
      by (rule prod.exhaust)
    have "chain_ok height_of (w_db w1)"
      using 1(2) by (simp add: sync_inv_def)
    then have m: "m = None \<or> m = Some 0" "w2 = step w1"
      using smp missing_heights_chain unfolding sample_missing_heights_def db_read_def
      by (auto simp: missing_heights_def query_def split: sum.splits option.splits)
    have "synced nd w w1"
      using 1(3) Inr after by (simp add: caught_up_def synced_def)
    then have "synced nd w w2"
      unfolding m(2) synced_def by (auto simp: stored_after_step) (auto simp: step_def intro: less_SucI)
    moreover have "sync_missing_blocks env nd attempts w = Some ([], m, w2)"
      using 1(1) Inr smp by (simp add: sync_missing_blocks.simps [of env nd attempts w])
    moreover have "sync_inv inv height_of w2"
      using 1(2) by (simp add: m(2) sync_inv_def)
    ultimately show ?thesis
      using m(1) by auto
  qed
qed

lemma synced_keeps:
  assumes "sync_missing_blocks env nd attempts w = Some (delays, m, w')" "honest_node nd height_of" "tips_below nd T" "sync_inv inv height_of w"
  shows "sync_inv inv height_of w'"
proof -
  let ?P = "\<lambda>e nd attempts w r. e = env \<longrightarrow> honest_node nd height_of \<longrightarrow> tips_below nd T \<longrightarrow> sync_inv inv height_of w \<longrightarrow>
    sync_inv inv height_of (snd (snd r))"
  have "?P env nd attempts w (delays, m, w')"
  proof (rule sync_missing_blocks.raw_induct [where P = ?P, OF _ assms(1)], intro impI)
    fix f e nd attempts w r
    assume IH: "\<And>e nd attempts w r. f e nd attempts w = Some r \<Longrightarrow> ?P e nd attempts w r"
      and body: "Option.bind (catch_up e nd w) (\<lambda>(r, w'). case r of
           Inl err \<Rightarrow> Option.bind (f e nd (saturating_add attempts 1) w') (\<lambda>(delays, rest). Some (catch_up_backoff attempts # delays, rest))
         | Inr _ \<Rightarrow> (case sample_missing_heights e w' of (n, w2) \<Rightarrow> Some ([], n, w2))) = Some r"
      and "e = env" and nd: "honest_node nd height_of" "tips_below nd T" and w: "sync_inv inv height_of w"
    obtain res w1 where 1: "catch_up env nd w = Some (res, w1)" "sync_inv inv height_of w1"
      using caught_run [OF nd(1) w nd(2)] by blast
    have smp: "sync_inv inv height_of (snd (sample_missing_heights env w1))"
      using 1(2) by (simp add: sample_missing_heights_def db_read_def sync_inv_def split: sum.split)
    show "sync_inv inv height_of (snd (snd r))"
    proof (cases res)
      case (Inl err)
      then obtain rest where "f env nd (saturating_add attempts 1) w1 = Some rest" "snd r = snd rest"
        using body 1(1) \<open>e = env\<close> by (auto simp: Option.bind_eq_Some_conv)
      then show ?thesis using IH nd 1(2) by metis
    next
      case (Inr u)
      then show ?thesis using body 1(1) smp \<open>e = env\<close> by (auto simp: split_beta)
    qed
  qed
  with assms(2-) show ?thesis by simp
qed

end

text \<open>The ledger in step, and the cluster tables alone.\<close>

definition tables_ok :: "env \<Rightarrow> world \<Rightarrow> bool" where
  "tables_ok env w \<longleftrightarrow> node_ok env \<and> iterates (ev_it_txids env) \<and> cluster_inv (w_db w) \<and> view_ok (view_of w)"

lemma confirm_world_ok:
  assumes "node_ok env" "iterates (ev_it_txids env)" "world_ok w" "confirm_mined env txids fees weights t w = Some w'"
  shows "world_ok w'"
  using confirm_returns [OF assms(1,2), of w txids fees weights t] assms(3,4) coherent_frame unfolding world_ok_def by auto

interpretation table_blocks: block_inv env "tables_ok env" for env
proof (unfold_locales, goal_cases)
  case (4 w d)
  then show ?case using cluster_outside_inv by (simp add: tables_ok_def)
next
  case (6 w txids fees weights t w')
  then show ?case using confirm_returns [of env w txids fees weights t] by (auto simp: tables_ok_def)
qed (simp_all add: tables_ok_def)

interpretation ledger_blocks: block_inv env "\<lambda>w. tables_ok env w \<and> world_ok w" for env
proof (unfold_locales, goal_cases)
  case (4 w d)
  then show ?case using in_step_outside [of w d] table_blocks.inv_outside by blast
next
  case (5 w f)
  then show ?case using world_ok_produced table_blocks.inv_produced by blast
next
  case (6 w txids fees weights t w')
  then show ?case using confirm_world_ok table_blocks.inv_confirm unfolding tables_ok_def by blast
qed (simp_all add: tables_ok_def)

lemma sync_ok_inv:
  assumes "node_ok env" "iterates (ev_it_txids env)"
  shows "sync_inv (\<lambda>w. tables_ok env w \<and> world_ok w) height_of w \<longleftrightarrow> sync_ok height_of w"
  using assms by (auto simp: sync_inv_def sync_ok_def tables_ok_def world_ok_def)

lemma apply_block_cases:
  assumes env: "node_ok env" "iterates (ev_it_txids env)" and nd: "honest_node nd height_of"
    and w: "world_ok w" "chain_ok height_of (w_db w)" "continues (height_of hash) (w_db w)"
  shows "\<exists>r w'. apply_block env nd hash w = Some (r, w') \<and> world_ok w' \<and> w_steps w < w_steps w' \<and>
    (case r of
       Inl (Node e) \<Rightarrow> nd_block nd (w_steps w) hash = Inl e \<and> not_applied w w'
     | Inl (Db e) \<Rightarrow> ev_fault env (Suc (w_steps w)) \<noteq> None \<and> not_applied w w'
     | Inr _ \<Rightarrow> \<exists>block. nd_block nd (w_steps w) hash = Inr block \<and> applied block w w')"
  using ledger_blocks.block_cases [OF nd _ w(2,3), of env] w(1) env unfolding tables_ok_def world_ok_def by blast

lemma catch_up_run:
  assumes "node_ok env" "iterates (ev_it_txids env)" "honest_node nd height_of" "sync_ok height_of w" "tips_below nd T"
  shows "\<exists>r w'. catch_up env nd w = Some (r, w') \<and> sync_ok height_of w' \<and> caught_up env nd w r w'"
  using ledger_blocks.caught_run [OF assms(3) _ assms(5), of env w] assms(4) unfolding sync_ok_inv [OF assms(1,2)] .

lemma sync_missing_blocks_run:
  assumes "node_ok env" "iterates (ev_it_txids env)" "honest_node nd height_of" "sync_ok height_of w"
    and "tips_below nd T" "calm_from env nd N"
  shows "\<exists>delays m w'. sync_missing_blocks env nd attempts w = Some (delays, m, w') \<and> sync_ok height_of w' \<and>
    synced nd w w' \<and> (m = None \<or> m = Some 0) \<and> length delays \<le> N - w_steps w \<and>
    (\<forall>d\<in>set delays. CATCH_UP_BACKOFF_BASE \<le> d \<and> d \<le> MAX_CATCH_UP_BACKOFF)"
  using ledger_blocks.synced_run [OF assms(3) _ assms(5,6), of w attempts] assms(4) unfolding sync_ok_inv [OF assms(1,2)] .

section \<open>Properties\<close>

text \<open>C6: Applying a block is all or nothing, and returns. When the node cannot answer or the write
  fails, the tables, the ledger, the snapshot and the bus are as they were. Otherwise the block is
  stored last, its transactions are stored as mined and taken out of the ledger before anything else
  is asserted, the recorded residency is unchanged until the next flush, and the new block is
  announced after the cluster changes. Ledger, journal and
  database stay in step and the cluster tables consistent either way.\<close>

theorem apply_block_all_or_nothing:
  assumes "node_ok env" "iterates (ev_it_txids env)" "honest_node nd height_of" "world_ok w"
    "chain_ok height_of (w_db w)" "continues (height_of hash) (w_db w)"
  shows "\<exists>r w'. apply_block env nd hash w = Some (r, w') \<and> world_ok w' \<and>
    (case r of
       Inl e \<Rightarrow> not_applied w w'
     | Inr _ \<Rightarrow> \<exists>block. nd_block nd (w_steps w) hash = Inr block \<and> applied block w w')"
proof -
  obtain r w' where run: "apply_block env nd hash w = Some (r, w')" "world_ok w'"
    "case r of
       Inl (Node e) \<Rightarrow> nd_block nd (w_steps w) hash = Inl e \<and> not_applied w w'
     | Inl (Db e) \<Rightarrow> ev_fault env (Suc (w_steps w)) \<noteq> None \<and> not_applied w w'
     | Inr _ \<Rightarrow> \<exists>block. nd_block nd (w_steps w) hash = Inr block \<and> applied block w w'"
    using apply_block_cases [OF assms] by blast
  then show ?thesis
    by (auto split: sum.splits BlockSyncError.splits)
qed

definition sample_block :: GetBlockModel where
  "sample_block = \<lparr>bk_hash = ''h7'', bk_height = 7, bk_mined_at = 50, bk_size = 100, bk_difficulty = 1,
     bk_txs = [\<lparr>bt_txid = ''a'', bt_vsize = 100, bt_weight = 400, bt_fee_sats = 9, bt_input_txids = []\<rparr>]\<rparr>"

definition sample_chain :: block_node where
  "sample_chain = \<lparr>nd_tip = (\<lambda>n. if n = 0 then Inl (FailedToFetch ''down'') else Inr 7),
     nd_hash = (\<lambda>_ h. if h = 7 then Inr ''h7'' else Inl (FailedToFetch ''no such height'')),
     nd_block = (\<lambda>_ x. if x = ''h7'' then Inr sample_block else Inl (FailedToFetch ''unknown''))\<rparr>"

lemma sample_chain_honest: "honest_node sample_chain (\<lambda>_. 7)"
  by (auto simp: honest_node_def sample_chain_def sample_block_def u64_of_id is_u64_def split: if_splits)

lemma sample_sync_ok: "world_ok sample_world" "chain_ok height_of (w_db sample_world)" "continues 7 (w_db sample_world)"
proof -
  have "coherent sample_world"
    by (simp add: in_step_def sample_world_def sample_db_def residency_def)
  then show "world_ok sample_world"
    by (simp add: world_ok_def)
qed (simp_all add: chain_ok_def continues_def heights_def sample_world_def sample_db_def)

theorem apply_block_all_or_nothing_witness:
  "\<exists>r w'. apply_block sample_env sample_chain ''h7'' sample_world = Some (r, w') \<and> world_ok w'"
  using apply_block_all_or_nothing [OF sample_env_ok(1,3) sample_chain_honest sample_sync_ok, of "''h7''"] by blast

text \<open>C10: Catching up returns and reaches the tip without gaps. When the node's tips stay below some
  bound, the loop ends; whatever happened, the stored heights are consecutive, in order, and no
  stored block was touched; after success the chain reaches a tip the node reported during the
  call, and an error means that some outside call failed.\<close>

theorem catch_up_reaches_tip:
  assumes "node_ok env" "iterates (ev_it_txids env)" "honest_node nd height_of" "world_ok w" "chain_ok height_of (w_db w)"
    "tips_below nd T"
  shows "\<exists>r w'. catch_up env nd w = Some (r, w') \<and> world_ok w' \<and> chain_ok height_of (w_db w') \<and>
    (\<exists>ext. db_blocks (w_db w') = db_blocks (w_db w) @ ext) \<and>
    (case r of
       Inl e \<Rightarrow> \<exists>n\<ge>w_steps w. failing env nd n
     | Inr _ \<Rightarrow> \<exists>n tip. w_steps w \<le> n \<and> n < w_steps w' \<and> nd_tip nd n = Inr tip \<and>
         heights (w_db w') \<noteq> [] \<and> tip \<le> last (heights (w_db w')))"
proof -
  have "sync_ok height_of w"
    using assms(4,5) by (simp add: sync_ok_def)
  then obtain r w' where "catch_up env nd w = Some (r, w')" "sync_ok height_of w'" "caught_up env nd w r w'"
    using catch_up_run [OF assms(1-3) _ assms(6)] by blast
  then show ?thesis
    by (auto simp: sync_ok_def caught_up_def stored_after_def failed_since_def split: sum.splits)
qed

lemma sample_chain_tips: "tips_below sample_chain 7"
  by (simp add: sample_chain_def tips_below_def split: if_splits)

theorem catch_up_reaches_tip_witness:
  "\<exists>r w'. catch_up sample_env sample_chain sample_world = Some (r, w') \<and> chain_ok (\<lambda>_. 7) (w_db w')"
  using catch_up_reaches_tip [OF sample_env_ok(1,3) sample_chain_honest sample_sync_ok(1,2) sample_chain_tips] by blast

text \<open>C15: The retry loop around catching up ends once the outside calms down. If from some step on
  no call to the node or the database fails and the tips stay bounded, the loop returns with the
  chain at a tip the node reported, no more retries than steps were disturbed, every delay between
  250 ms and 10 s, and the sampled number of missing heights, if it could be read, zero.\<close>

theorem sync_missing_blocks_returns:
  assumes "node_ok env" "iterates (ev_it_txids env)" "honest_node nd height_of" "world_ok w" "chain_ok height_of (w_db w)"
    "tips_below nd T" "calm_from env nd N"
  shows "\<exists>delays m w'. sync_missing_blocks env nd attempts w = Some (delays, m, w') \<and>
    world_ok w' \<and> chain_ok height_of (w_db w') \<and> (m = None \<or> m = Some 0) \<and>
    (\<exists>n tip. w_steps w \<le> n \<and> nd_tip nd n = Inr tip \<and> heights (w_db w') \<noteq> [] \<and> tip \<le> last (heights (w_db w'))) \<and>
    length delays \<le> N - w_steps w \<and> (\<forall>d\<in>set delays. 250000000 \<le> d \<and> d \<le> 10000000000)"
proof -
  have "sync_ok height_of w"
    using assms(4,5) by (simp add: sync_ok_def)
  from sync_missing_blocks_run [OF assms(1-3) this assms(6,7), of attempts] obtain delays m w' where
    "sync_missing_blocks env nd attempts w = Some (delays, m, w')" "sync_ok height_of w'" "synced nd w w'"
    "m = None \<or> m = Some 0" "length delays \<le> N - w_steps w"
    "\<forall>d\<in>set delays. CATCH_UP_BACKOFF_BASE \<le> d \<and> d \<le> MAX_CATCH_UP_BACKOFF"
    by blast
  moreover have "CATCH_UP_BACKOFF_BASE = 250000000" "MAX_CATCH_UP_BACKOFF = 10000000000"
    by (simp_all add: CATCH_UP_BACKOFF_BASE_def MAX_CATCH_UP_BACKOFF_def from_millis_def from_secs_def)
  ultimately show ?thesis
    unfolding sync_ok_def synced_def by metis
qed

definition calm_chain :: block_node where
  "calm_chain = \<lparr>nd_tip = (\<lambda>n. if n = 0 then Inl (FailedToFetch ''down'') else Inr 7),
     nd_hash = (\<lambda>_ h. Inr (replicate (nat h) (CHR ''x''))),
     nd_block = (\<lambda>_ x. Inr (sample_block\<lparr>bk_hash := x, bk_height := int (length x)\<rparr>))\<rparr>"

lemma calm_chain_ok:
  "honest_node calm_chain (\<lambda>x. int (length x))" "tips_below calm_chain 7" "calm_from sample_env calm_chain 1"
  by (auto simp: honest_node_def calm_chain_def sample_block_def u64_of_id is_u64_def tips_below_def calm_from_def
      failing_def sample_env_def split: if_splits)

theorem sync_missing_blocks_returns_witness:
  "\<exists>delays m w'. sync_missing_blocks sample_env calm_chain 0 sample_world = Some (delays, m, w') \<and>
     heights (w_db w') \<noteq> [] \<and> length delays \<le> 1"
  using sync_missing_blocks_returns [OF sample_env_ok(1,3) calm_chain_ok(1) sample_sync_ok(1,2) calm_chain_ok(2,3), of 0]
  by (auto simp: sample_world_def)

end
