(* ===== verification/Bootstrap.thy ===== *)
theory Bootstrap
  imports Blocks
begin

text \<open>
  The start-up sequence (\<open>api/src/services/bootstrap.rs\<close>): catch up with the chain, compare the
  recorded mempool with the node's, seed the cluster snapshot. The node's mempool is one answer, made
  at the step it is asked for. What the ledger holds afterwards decides whether the reconciler's
  journal describes the database.
\<close>

section \<open>Operations\<close>

record MempoolReconciliation =
  mr_txs_added :: nat
  mr_txs_removed :: nat

definition queue_incomplete_backfills :: "env \<Rightarrow> txid list \<Rightarrow> app \<Rightarrow> app" where
  "queue_incomplete_backfills env txids ap =
    (case db_read env (\<lambda>fault. find_fills_by_txids fault txids) (ap_world ap) of
       (Inl e, w) \<Rightarrow> ap\<lparr>ap_world := w\<rparr>
     | (Inr fills, w) \<Rightarrow> ap\<lparr>ap_world := w, ap_queue := enqueue_all
           (List.map_filter (\<lambda>(txid, fill). map_option (\<lambda>stage. (txid, stage)) (backfill_stage fill)) fills) (ap_queue ap)\<rparr>)"

definition setup_mempool_snapshot ::
  "env \<Rightarrow> (nat \<Rightarrow> ObserverError + MempoolEntrySummary list) \<Rightarrow> app \<Rightarrow> MempoolReconciliation option \<times> app" where
  "setup_mempool_snapshot env raw_mempool ap =
    (let now = ev_now env (w_steps (ap_world ap)); it = ev_it_txids env in
     case db_read env (\<lambda>fault. reconstruct_snapshot fault now) (ap_world ap) of
       (Inl e, w1) \<Rightarrow> (None, ap\<lparr>ap_world := w1\<rparr>)
     | (Inr prev, w1) \<Rightarrow>
         (case raw_mempool (w_steps w1) of
            Inl e \<Rightarrow> (None, ap\<lparr>ap_world := step w1\<rparr>)
          | Inr summaries \<Rightarrow>
              (let w2 = step w1;
                   entries = collect (map (\<lambda>e. (es_txid e, e)) summaries);
                   live = dom entries;
                   added = sort (it (live - prev));
                   removed = sort (it (prev - live));
                   reconciliation = \<lparr>mr_txs_added = length added, mr_txs_removed = length removed\<rparr>;
                   rows = map (\<lambda>t. tx_from_entry (ev_now env (w_steps w2)) (the (entries t))) (it live);
                   w3 = snd (db_write env (\<lambda>fault clock. insert_many fault rows) w2);
                   ap4 = queue_incomplete_backfills env (it (live \<inter> prev)) (ap\<lparr>ap_world := w3\<rparr>);
                   w4 = ap_world ap4
               in (Some reconciliation, ap4\<lparr>ap_world := (step w4)\<lparr>w_ledger :=
                     submit_authoritative it (ev_push_clk env (w_steps w4)) live (seed prev (w_ledger w4))\<rparr>\<rparr>))))"

definition bootstrap_run ::
  "env \<Rightarrow> block_node \<Rightarrow> (nat \<Rightarrow> ObserverError + MempoolEntrySummary list) \<Rightarrow> app \<Rightarrow> (MempoolReconciliation option \<times> app) option" where
  "bootstrap_run env nd raw_mempool ap =
    Option.bind (sync_missing_blocks env nd 0 (ap_world ap))
      (\<lambda>(_, _, w1). case setup_mempool_snapshot env raw_mempool (ap\<lparr>ap_world := w1\<rparr>) of
         (reconciliation, ap2) \<Rightarrow> Some (reconciliation, ap2\<lparr>ap_world := seed_snapshot env (ap_world ap2)\<rparr>))"

section \<open>The rows it writes\<close>

lemma fold_upsert_fee_frame:
  assumes "\<forall>row\<in>set rows. tx_confirmed_at row = None" "distinct (map tx_txid table)"
  shows "\<exists>k table'. fold (upsert_row fill_fee) rows (n, table) = (k, table') \<and> rows_frame table table'"
  using assms
proof (induction rows arbitrary: n table)
  case Nil
  then show ?case
    by (simp add: row_frame.keeps_refl)
next
  case (Cons row rows)
  have "\<exists>k table1. upsert_row fill_fee row (n, table) = (k, table1) \<and> rows_frame table table1"
  proof (cases "find (\<lambda>t. tx_txid t = tx_txid row) table")
    case None
    then have "tx_txid row \<notin> tx_txid ` set table"
      by (auto simp: find_None_iff)
    then have "rows_frame table (table @ [row])"
      using rows_frame_insert_ignoring [of row table] Cons.prems(1) by (simp add: insert_ignoring_def)
    then show ?thesis
      using None by (simp add: upsert_row_def)
  next
    case (Some old)
    then have old: "old \<in> set table" "tx_txid old = tx_txid row"
      by (auto simp: find_Some_iff)
    have only: "t = old" if "t \<in> set table" "tx_txid t = tx_txid row" for t
      using that old Cons.prems(2) by (metis distinct_map inj_onD)
    have "map (\<lambda>t. if tx_txid t = tx_txid row then old\<lparr>tx_fee := tx_fee row\<rparr> else t) table =
        map (\<lambda>t. if tx_txid t = tx_txid row then t\<lparr>tx_fee := tx_fee row\<rparr> else t) table"
      by (rule map_cong [OF refl]) (use only in auto)
    moreover have "rows_frame table (map (\<lambda>t. if tx_txid t = tx_txid row then t\<lparr>tx_fee := tx_fee row\<rparr> else t) table)"
      by (rule rows_frame_map) simp
    ultimately have "rows_frame table (map (\<lambda>t. if tx_txid t = tx_txid row then old\<lparr>tx_fee := tx_fee row\<rparr> else t) table)"
      by metis
    then show ?thesis
      using Some by (auto simp: upsert_row_def fill_fee_def row_frame.keeps_refl)
  qed
  then obtain k table1 where 1: "upsert_row fill_fee row (n, table) = (k, table1)" "rows_frame table table1"
    by blast
  moreover have "distinct (map tx_txid table1)"
    using 1(2) Cons.prems(2) by (simp add: rows_frame_def)
  ultimately show ?case
    using Cons.IH [of table1 k] Cons.prems(1) row_frame.keeps_trans [OF 1(2)] by fastforce
qed

lemma upsert_batches_fee_frame:
  assumes "\<forall>row\<in>set (concat bs). tx_confirmed_at row = None" "distinct (map tx_txid (db_transactions d))"
    "upsert_batches fill_fee bs n d = Inr (k, d')"
  shows "\<exists>table. d' = d\<lparr>db_transactions := table\<rparr> \<and> rows_frame (db_transactions d) table"
  using assms
proof (induction bs arbitrary: n d)
  case Nil
  then show ?case
    by (auto simp: row_frame.keeps_refl intro!: exI [of _ "db_transactions d"])
next
  case (Cons b bs)
  obtain m table1 where 1: "fold (upsert_row fill_fee) b (n, db_transactions d) = (m, table1)"
    "rows_frame (db_transactions d) table1"
    using fold_upsert_fee_frame [of b "db_transactions d" n] Cons.prems(1,2) by auto
  then have "upsert_batches fill_fee bs m (d\<lparr>db_transactions := table1\<rparr>) = Inr (k, d')"
    using Cons.prems(3) by (simp split: if_splits)
  moreover have "distinct (map tx_txid table1)"
    using 1(2) Cons.prems(2) by (simp add: rows_frame_def)
  ultimately obtain table where "d' = d\<lparr>db_transactions := table\<rparr>" "rows_frame table1 table"
    using Cons.IH [of "d\<lparr>db_transactions := table1\<rparr>" m] Cons.prems(1) by auto
  then show ?case
    using row_frame.keeps_trans [OF 1(2)] by blast
qed

lemma insert_many_frame:
  assumes "\<forall>row\<in>set rows. tx_confirmed_at row = None" "distinct (map tx_txid (db_transactions d))"
    "insert_many fault rows d = (r, d')"
  shows "db_frame d d'" "cluster_outside d d'"
proof -
  let ?bs = "chunks_of TRANSACTION_INSERT_CHUNK_SIZE (sorted_by_txid rows)"
  have "\<forall>row\<in>set (concat ?bs). tx_confirmed_at row = None"
    using assms(1) by (simp add: TRANSACTION_INSERT_CHUNK_SIZE_def sorted_by_txid_def)
  note kept = upsert_batches_fee_frame [OF this assms(2)]
  have frames: "db_frame d d'' \<and> cluster_outside d d''" if "upsert_batches fill_fee ?bs 0 d = Inr (x, d'')" for x d''
    using kept [OF that] by (auto simp: db_frame_def cluster_outside_def rows_frame_def)
  show "db_frame d d'"
    using assms(3) frames unfolding insert_many_def
    by (auto split: if_splits simp: table_frame.keeps_refl elim!: query_frame)
  show "cluster_outside d d'"
    using assms(3) frames unfolding insert_many_def
    by (auto split: if_splits simp: outside.keeps_refl elim!: query_outside)
qed

section \<open>What the ledger starts from\<close>

lemma dom_collect: "dom (collect (map (\<lambda>e. (f e, e)) es)) = f ` set es"
  by (simp add: collect_def dom_map_of_conv_image_fst image_image)

lemma queue_incomplete_world:
  "ap_world (queue_incomplete_backfills env txids ap) = step (ap_world ap)"
  by (auto simp: queue_incomplete_backfills_def db_read_def split: sum.split)

lemma residency_finite: "finite (residency d)"
  unfolding residency_def by (rule deltas.finite_fold) simp

lemma reconstruct_finite: "reconstruct_snapshot fault now d = Inr prev \<Longrightarrow> finite prev"
  using deltas.finite_fold [of "{}"] by (auto simp: reconstruct_snapshot_def query_def Let_def split: option.splits prod.splits)

lemma setup_cases:
  fixes env ap defines "w \<equiv> ap_world ap"
  assumes it: "iterates (ev_it_txids env)"
    and read: "reconstruct_snapshot (ev_fault env (w_steps w)) (ev_now env (w_steps w)) (w_db w) = Inr prev" "finite prev"
    and node: "raw_mempool (Suc (w_steps w)) = Inr summaries"
    and dist: "distinct (map tx_txid (db_transactions (w_db w)))"
    and run: "setup_mempool_snapshot env raw_mempool ap = (r, ap')"
  shows "r = Some \<lparr>mr_txs_added = card (es_txid ` set summaries - prev), mr_txs_removed = card (prev - es_txid ` set summaries)\<rparr>"
    and "\<exists>clk. w_ledger (ap_world ap') = submit_authoritative (ev_it_txids env) clk (es_txid ` set summaries) (seed prev (w_ledger w))"
    and "db_frame (w_db w) (w_db (ap_world ap'))" "cluster_outside (w_db w) (w_db (ap_world ap'))"
proof -
  let ?live = "es_txid ` set summaries"
  let ?entries = "collect (map (\<lambda>e. (es_txid e, e)) summaries)"
  let ?w2 = "step (step w)"
  let ?rows = "map (\<lambda>t. tx_from_entry (ev_now env (w_steps ?w2)) (the (?entries t))) (ev_it_txids env ?live)"
  obtain res d' where ins: "insert_many (ev_fault env (w_steps ?w2)) ?rows (w_db w) = (res, d')"
    by (rule prod.exhaust)
  let ?w3 = "step (?w2\<lparr>w_db := d'\<rparr>)"
  have dbw: "snd (db_write env (\<lambda>fault clock. insert_many fault ?rows) ?w2) = ?w3"
    using ins by (simp add: db_write_def)
  have dom: "dom ?entries = ?live"
    by (rule dom_collect)
  have rd: "db_read env (\<lambda>fault. reconstruct_snapshot fault (ev_now env (w_steps w))) w = (Inr prev, step w)"
    using read(1) by (simp add: db_read_def)
  have raw: "raw_mempool (w_steps (step w)) = Inr summaries"
    using node by (simp add: step_def)
  note run' = run [unfolded setup_mempool_snapshot_def w_def [symmetric] Let_def rd prod.case sum.case raw dom dbw]
  have len: "length (sort (ev_it_txids env S)) = card S" if "finite S" for S
    using iterates_length [OF it that] by simp
  show "r = Some \<lparr>mr_txs_added = card (?live - prev), mr_txs_removed = card (prev - ?live)\<rparr>"
    using run' read(2) len [of "?live - prev"] len [of "prev - ?live"] by auto
  have "w_db (ap_world ap') = d'" "w_ledger (ap_world ap') = submit_authoritative (ev_it_txids env)
      (ev_push_clk env (w_steps (step ?w3))) ?live (seed prev (w_ledger w))"
    using run' by (auto simp: queue_incomplete_world)
  then show "\<exists>clk. w_ledger (ap_world ap') = submit_authoritative (ev_it_txids env) clk ?live (seed prev (w_ledger w))"
    and "db_frame (w_db w) (w_db (ap_world ap'))" "cluster_outside (w_db w) (w_db (ap_world ap'))"
    using insert_many_frame [OF _ dist ins] by (auto simp: tx_from_entry_def)
qed

lemma setup_exact:
  assumes "iterates (ev_it_txids env)" "cluster_inv (w_db (ap_world ap))" "view_ok (active_view (w_db (ap_world ap)))"
    and "lg_journal (w_ledger (ap_world ap)) = []" "\<not> lg_degraded (w_ledger (ap_world ap))"
    and "reconstruct_snapshot (ev_fault env (w_steps (ap_world ap))) (ev_now env (w_steps (ap_world ap))) (w_db (ap_world ap)) =
      Inr (residency (w_db (ap_world ap)))"
    and "raw_mempool (Suc (w_steps (ap_world ap))) = Inr summaries"
    and "setup_mempool_snapshot env raw_mempool ap = (r, ap')"
  shows "world_ok (ap_world ap') \<and> lg_live (w_ledger (ap_world ap')) = es_txid ` set summaries \<and>
    residency (w_db (ap_world ap')) = residency (w_db (ap_world ap)) \<and>
    r = Some \<lparr>mr_txs_added = card (es_txid ` set summaries - residency (w_db (ap_world ap))),
              mr_txs_removed = card (residency (w_db (ap_world ap)) - es_txid ` set summaries)\<rparr>"
proof -
  let ?w = "ap_world ap" and ?w' = "ap_world ap'" and ?live = "es_txid ` set summaries"
  let ?l0 = "seed (residency (w_db ?w)) (w_ledger ?w)"
  have dist: "distinct (map tx_txid (db_transactions (w_db ?w)))"
    using assms(2) by (simp add: cluster_inv_def cluster_inv_upto_def)
  note cases = setup_cases [OF assms(1,6) residency_finite assms(7) dist assms(8)]
  obtain clk where l: "w_ledger ?w' = submit_authoritative (ev_it_txids env) clk ?live ?l0"
    using cases(2) by blast
  have "in_step ?l0 (w_db ?w)"
    using assms(4,5) dist residency_finite by (simp add: in_step_def seed_def)
  moreover have fin: "finite (lg_live ?l0)"
    by (simp add: seed_def residency_finite)
  moreover have live: "lg_live (w_ledger ?w') = ?live"
    by (simp add: l submit_authoritative_def Let_def)
  moreover have "extends ?l0 (w_ledger ?w')"
    unfolding l by (rule submit_authoritative_extends [OF assms(1) _ fin]) simp
  ultimately have "in_step (w_ledger ?w') (w_db ?w)"
    using in_step_extends by simp
  then have "coherent ?w'"
    by (rule in_step_db) (use cases(3) in \<open>simp_all add: db_frame_def rows_frame_def\<close>)
  then have "world_ok ?w'"
    using cluster_outside_inv [OF cases(4) assms(2)] assms(3) by (simp add: world_ok_def)
  moreover have "residency (w_db ?w') = residency (w_db ?w)"
    using cases(3) by (simp add: residency_def db_frame_def)
  ultimately show ?thesis
    using live cases(1) by simp
qed

section \<open>Properties\<close>

text \<open>C26: What the start-up comparison leaves. When the ledger's journal is still empty, the replay of the recorded deltas
  answers with \<open>prev\<close> and the node lists its mempool, the live set afterwards is the node's mempool, the
  report counts what differs from \<open>prev\<close>, and the recorded deltas are not touched. If the difference fits under the journal's
  cap, the journal is exactly it, once each; otherwise the ledger is marked as degraded. If the replay gave the whole recorded
  residency (no resident's last transition is older than the replayed window), ledger and database are in step:
  without an overflow, replaying the journal on the recorded residency gives the live set.\<close>

theorem setup_mempool_snapshot_exact:
  fixes ap defines "w \<equiv> ap_world ap"
  assumes "iterates (ev_it_txids env)" "cluster_inv (w_db w)" "view_ok (active_view (w_db w))"
    and "lg_journal (w_ledger w) = []" "\<not> lg_degraded (w_ledger w)"
    and "reconstruct_snapshot (ev_fault env (w_steps w)) (ev_now env (w_steps w)) (w_db w) = Inr prev"
    and "raw_mempool (Suc (w_steps w)) = Inr summaries"
    and "setup_mempool_snapshot env raw_mempool ap = (r, ap')"
  shows "let w' = ap_world ap'; live = es_txid ` set summaries; need = card (live - prev) + card (prev - live) in
    r = Some \<lparr>mr_txs_added = card (live - prev), mr_txs_removed = card (prev - live)\<rparr> \<and>
    lg_live (w_ledger w') = live \<and> db_deltas (w_db w') = db_deltas (w_db w) \<and>
    (if need \<le> JOURNAL_CAP
     then \<not> lg_degraded (w_ledger w') \<and> length (lg_journal (w_ledger w')) = need \<and>
       (\<lambda>e. (je_txid e, je_direction e)) ` set (lg_journal (w_ledger w')) = (live - prev) \<times> {Add} \<union> (prev - live) \<times> {Remove}
     else lg_degraded (w_ledger w')) \<and>
    (prev = residency (w_db w) \<longrightarrow> world_ok w')"
proof -
  have dist: "distinct (map tx_txid (db_transactions (w_db w)))"
    using assms(3) by (simp add: cluster_inv_def cluster_inv_upto_def)
  have fin: "finite prev"
    by (rule reconstruct_finite [OF assms(7)])
  note cases = setup_cases [OF assms(2) assms(7) [unfolded w_def] fin assms(8) [unfolded w_def] dist [unfolded w_def] assms(9), folded w_def]
  obtain clk where l: "w_ledger (ap_world ap') = submit_authoritative (ev_it_txids env) clk (es_txid ` set summaries) (seed prev (w_ledger w))"
    using cases(2) by blast
  have seeded: "lg_journal (seed prev (w_ledger w)) = []" "\<not> lg_degraded (seed prev (w_ledger w))" "lg_live (seed prev (w_ledger w)) = prev"
    using assms(5,6) by (simp_all add: seed_def)
  have "finite (lg_live (seed prev (w_ledger w)))" "finite (es_txid ` set summaries)"
    using fin seeded(3) by simp_all
  note journalled = submit_authoritative_journals [OF assms(2) this(2,1) seeded(1,2), of clk, unfolded seeded(3), folded l]
  have "lg_live (w_ledger (ap_world ap')) = es_txid ` set summaries"
    by (simp add: l submit_authoritative_def Let_def)
  moreover have "db_deltas (w_db (ap_world ap')) = db_deltas (w_db w)"
    using cases(3) by (simp add: db_frame_def)
  moreover have "world_ok (ap_world ap')" if "prev = residency (w_db w)"
    using setup_exact [OF assms(2) assms(3-6) [unfolded w_def] _ assms(8) [unfolded w_def] assms(9)] assms(7) that by (simp add: w_def)
  ultimately show ?thesis
    using cases(1) journalled by (auto simp: Let_def not_le)
qed

definition fresh_app :: app where
  "fresh_app = \<lparr>ap_world = sample_world, ap_queue = empty_queue 5, ap_gate = gate_default\<rparr>"

theorem setup_mempool_snapshot_exact_witness:
  "\<exists>ap'. setup_mempool_snapshot sample_env (\<lambda>_. Inr [sample_summary]) fresh_app =
      (Some \<lparr>mr_txs_added = 1, mr_txs_removed = 0\<rparr>, ap') \<and> lg_live (w_ledger (ap_world ap')) = {''a''}"
proof -
  obtain r ap' where run: "setup_mempool_snapshot sample_env (\<lambda>_. Inr [sample_summary]) fresh_app = (r, ap')"
    by (rule prod.exhaust)
  have res: "residency (w_db (ap_world fresh_app)) = {}"
    by (simp add: residency_def fresh_app_def sample_world_def sample_db_def)
  have "reconstruct_snapshot (ev_fault sample_env (w_steps (ap_world fresh_app))) (ev_now sample_env (w_steps (ap_world fresh_app)))
      (w_db (ap_world fresh_app)) = Inr (residency (w_db (ap_world fresh_app)))"
    unfolding res by (simp add: reconstruct_snapshot_def query_def Let_def sample_env_def fresh_app_def sample_world_def sample_db_def)
  from setup_mempool_snapshot_exact [OF sample_env_ok(3) _ _ _ _ this refl run] show ?thesis
    using run res sample_world_ok by (simp add: fresh_app_def Let_def) (simp add: sample_world_def sample_summary_def Let_def)
qed

text \<open>A journal left by the block sync survives the start-up comparison. Applying a missed block
  may re-ask the node about clusters and assert their members into the still unseeded ledger. The
  comparison replaces the live set but keeps that journal: a transaction both asserted and in the
  node's mempool is journalled as added twice, and one that left in between is recorded as resident
  with nothing left to remove it.\<close>

theorem bootstrap_keeps_stale_journal:
  "let l1 = assert_present clk [txid] ledger_default;
       still_there = submit_authoritative sorted_list_of_set clk' {txid} (seed {} l1);
       gone = submit_authoritative sorted_list_of_set clk' {} (seed {} l1)
   in map (\<lambda>e. (je_txid e, je_direction e)) (lg_journal still_there) = [(txid, Add), (txid, Add)] \<and>
      \<not> effective (lg_journal still_there) {} \<and>
      lg_live gone = {} \<and> \<not> lg_degraded gone \<and> replay (lg_journal gone) {} = {txid}"
  by (simp add: ledger_default_def push_def JOURNAL_CAP_def submit_authoritative_def seed_def Let_def apply_entry_def)

end
