(* ===== verification/System.thy ===== *)
theory System
  imports Bootstrap
begin

text \<open>
  The running service as one transition system: the reconciler, the block service, the cluster
  service, the backfill consumer and the observers act on one application state. The invariants of the
  components together are kept by every step.
\<close>

section \<open>Backfills leave the rest alone\<close>

definition fills :: "db \<Rightarrow> db \<Rightarrow> bool" where
  "fills d d' \<longleftrightarrow> cluster_outside d d' \<and> db_deltas d' = db_deltas d \<and> db_blocks d' = db_blocks d"

interpretation filling: keeps fills
  by unfold_locales (auto simp: fills_def intro: outside.keeps_refl outside.keeps_trans)

lemma update_returning_fills:
  assumes "\<And>t. tx_txid (f t) = tx_txid t" "update_returning txid cond f d = Inr (x, d')"
  shows "fills d d'"
proof -
  have "tx_txid \<circ> (\<lambda>t. if tx_txid t = txid \<and> cond t then f t else t) = tx_txid"
    using assms(1) by (intro ext) simp
  then show ?thesis
    using assms(2) by (auto simp: update_returning_def fills_def cluster_outside_def split: option.splits)
qed

interpretation filling_calls: call_contract fills
  by unfold_locales (simp add: fills_def cluster_outside_def)

lemmas query_fills = filling_calls.call_keeps

lemma backfill_fills:
  "backfill_raw fault txid ins weight d = (r, d') \<Longrightarrow> fills d d'"
  "backfill_fee fault txid fee d = (r, d') \<Longrightarrow> fills d d'"
  unfolding backfill_raw_def backfill_fee_def
  by (erule query_fills, erule update_returning_fills [rotated], simp)+

lemma process_fills:
  assumes "\<And>d. fills d (an_meanwhile a d)"
  shows "fills d (snd (process jittered a ledger req d))"
proof -
  have raw: "fills d (snd (run_raw_stage a txid d))" for txid d
    by (auto simp: run_raw_stage_def filling.keeps_refl split: sum.split prod.split option.split dest: backfill_fills(1))
  have entry: "fills d (snd (run_entry_stage a txid d))" for txid d
    by (auto simp: run_entry_stage_def filling.keeps_refl split: sum.split prod.split option.split dest: backfill_fills(2))
  obtain r1 d1 where start: "(if br_stage req = Raw then map_prod id (an_meanwhile a) (run_raw_stage a (br_txid req) d)
      else (Inr (Some (br_stage req)), d)) = (r1, d1)"
    by (rule prod.exhaust)
  have "d1 = (if br_stage req = Raw then an_meanwhile a (snd (run_raw_stage a (br_txid req) d)) else d)"
    using arg_cong [OF start, of snd] by (auto split: if_splits)
  then have f1: "fills d d1"
    using filling.keeps_trans [OF raw assms] by (simp add: filling.keeps_refl)
  obtain r2 d2 where last_stage: "run_entry_stage a (br_txid req) d1 = (r2, d2)"
    by (rule prod.exhaust)
  have f2: "fills d d2"
    using filling.keeps_trans [OF f1 entry] last_stage by (metis snd_conv)
  have "snd (run_stages a (br_txid req) (br_stage req) d) \<in> {d1, d2}"
    unfolding run_stages_def start prod.case using last_stage by (cases r1; cases r2) auto
  then show ?thesis
    using f1 f2 by (auto simp: process_def)
qed

section \<open>The whole system\<close>

text \<open>One state for the running service, and what may happen to it next: a tick of the reconciler, a
  catch-up of the block service, a cluster round, a backfill, or an observer reporting. Each is one
  step, because the gate keeps ticks and blocks apart, and what may interleave with a tick's write
  is part of the tick.\<close>

inductive system_step :: "env \<Rightarrow> block_node \<Rightarrow> app \<Rightarrow> app \<Rightarrow> bool" for env nd where
  sys_tick: "produces meanwhile \<Longrightarrow> tick env preempted meanwhile now ap = Some ap' \<Longrightarrow> system_step env nd ap ap'"
| sys_blocks: "catch_up env nd (ap_world ap) = Some (r, w) \<Longrightarrow> system_step env nd ap (ap\<lparr>ap_world := w\<rparr>)"
| sys_clusters: "sync_clusters_for env cand evicted (ap_world ap) = Some w \<Longrightarrow> system_step env nd ap (ap\<lparr>ap_world := w\<rparr>)"
| sys_backfill: "(\<And>d. fills d (an_meanwhile a d)) \<Longrightarrow> system_step env nd ap
    (ap\<lparr>ap_world := (ap_world ap)\<lparr>w_db := snd (process jittered a (w_ledger (ap_world ap)) req (w_db (ap_world ap)))\<rparr>\<rparr>)"
| sys_observe: "produces f \<Longrightarrow> system_step env nd ap
    (ap\<lparr>ap_world := (ap_world ap)\<lparr>w_ledger := f (w_ledger (ap_world ap))\<rparr>\<rparr>)"

definition outside_ok :: "env \<Rightarrow> block_node \<Rightarrow> (string \<Rightarrow> int) \<Rightarrow> int \<Rightarrow> bool" where
  "outside_ok env nd height_of T \<longleftrightarrow> node_ok env \<and> iterates (ev_it_txids env) \<and> honest_node nd height_of \<and> tips_below nd T"

definition system_inv :: "env \<Rightarrow> block_node \<Rightarrow> (string \<Rightarrow> int) \<Rightarrow> int \<Rightarrow> app \<Rightarrow> bool" where
  "system_inv env nd height_of T ap \<longleftrightarrow> outside_ok env nd height_of T \<and> sync_ok height_of (ap_world ap)"

lemma chain_ok_blocks: "db_blocks d' = db_blocks d \<Longrightarrow> chain_ok height_of d' = chain_ok height_of d"
  by (simp add: chain_ok_def heights_def)

lemma tick_blocks:
  assumes "tick env pre meanwhile now ap = Some ap'" "iterates (ev_it_txids env)"
    "distinct (map tx_txid (db_transactions (w_db (ap_world ap))))"
  shows "db_blocks (w_db (ap_world ap')) = db_blocks (w_db (ap_world ap))"
  using tick_cases [OF assms]
proof
  assume "flushed env meanwhile (ap_world ap) (ap_world ap')"
  then obtain e w1 l where "db_blocks (w_db w1) = db_blocks (w_db (ap_world ap))"
    "w_frame (publish e (w1\<lparr>w_ledger := l\<rparr>)) (ap_world ap')"
    unfolding flushed_def by blast
  then show ?thesis
    by (simp add: w_frame_def db_frame_def)
qed (simp add: unflushed_def)

lemma system_step_inv:
  assumes "system_step env nd ap ap'" "system_inv env nd height_of T ap"
  shows "system_inv env nd height_of T ap'"
proof -
  have out: "node_ok env" "iterates (ev_it_txids env)" "honest_node nd height_of" "tips_below nd T"
    and w: "world_ok (ap_world ap)" "chain_ok height_of (w_db (ap_world ap))"
    using assms(2) by (simp_all add: system_inv_def outside_ok_def sync_ok_def)
  have "sync_ok height_of (ap_world ap')"
    using assms(1)
  proof cases
    case (sys_tick meanwhile preempted now)
    have "distinct (map tx_txid (db_transactions (w_db (ap_world ap))))"
      using w(1) by (simp add: world_ok_def in_step_def)
    from chain_ok_blocks [OF tick_blocks [OF sys_tick(2) out(2) this]] show ?thesis
      using tick_ok [OF out(1,2) sys_tick(1) w(1) sys_tick(2)] w(2) by (simp add: sync_ok_def)
  next
    case (sys_blocks r w')
    then show ?thesis
      using catch_up_run [OF out(1-3) _ out(4), of "ap_world ap"] w by (auto simp: sync_ok_def)
  next
    case (sys_clusters cand evicted w')
    have "w_frame (ap_world ap) w'"
      using sys_clusters(2) unfolding sync_clusters_for_def by (rule sync_clusters_frame)
    then have co: "coherent w'" and blk: "db_blocks (w_db w') = db_blocks (w_db (ap_world ap))"
      using coherent_frame w(1) by (auto simp: world_ok_def w_frame_def db_frame_def)
    have "cluster_inv (w_db w')" "view_ok (view_of w')"
      using sync_returns [OF out(1,2), of "ap_world ap" cand "[]" evicted] w(1) sys_clusters(2)
      by (auto simp: world_ok_def sync_clusters_for_def)
    then show ?thesis
      using co w(2) chain_ok_blocks [OF blk, of height_of] sys_clusters(1) by (simp add: sync_ok_def world_ok_def)
  next
    case (sys_backfill a jittered req)
    have kept: "fills (w_db (ap_world ap)) (snd (process jittered a (w_ledger (ap_world ap)) req (w_db (ap_world ap))))"
      by (rule process_fills) (rule sys_backfill(2))
    then have blk: "db_blocks (snd (process jittered a (w_ledger (ap_world ap)) req (w_db (ap_world ap)))) = db_blocks (w_db (ap_world ap))"
      by (simp add: fills_def)
    show ?thesis
      using kept in_step_outside [OF w(1)] w(2) chain_ok_blocks [OF blk, of height_of] sys_backfill(1)
      by (simp add: sync_ok_def fills_def)
  next
    case (sys_observe f)
    then show ?thesis
      using world_ok_produced [OF w(1)] w(2) by (simp add: sync_ok_def)
  qed
  then show ?thesis
    using assms(2) by (simp add: system_inv_def)
qed

interpretation system: machine "system_inv env nd height_of T" "system_step env nd" "system_inv env nd height_of T"
  by (unfold_locales, assumption, rule system_step_inv)

end
