(* ===== verification/Events.thy ===== *)
theory Events imports Tx_Repo
begin

text \<open>
  The lifecycle log and what writes to it about the node: the system event repository and service
  (\<open>api/src/db/repositories/system_event.rs\<close>, \<open>api/src/services/system_event.rs\<close>), node health
  (\<open>api/src/services/node_health.rs\<close>, \<open>node_status.rs\<close>), start-up readiness
  (\<open>api/src/infra/readiness.rs\<close>) and the wait for the node (\<open>api/src/infra/node_wait.rs\<close>). JSON details
  keep their shape. Outside answers are indexed by a step counter, as in the cluster service.
\<close>

section \<open>The lifecycle log\<close>

datatype json = JNull | JBool bool | JInt int | JString string | JObject "(string \<times> json) list"

datatype SystemEventKind =
    ServerStarted | ServerStopped | BootstrapStarted | BootstrapCompleted
  | NodeConnected | NodeDisconnected | NodeVersionChanged

record SystemEventRow =
  se_id :: int
  se_kind :: SystemEventKind
  se_details :: json
  se_created_at :: instant

text \<open>Ids come from a sequence, which may skip \<open>gap\<close> values (a failed insert can use one up).\<close>

definition event_insert :: "RepoError option \<Rightarrow> nat \<Rightarrow> instant \<Rightarrow> SystemEventKind \<Rightarrow> json \<Rightarrow> SystemEventRow list \<Rightarrow>
    (RepoError + nat) \<times> SystemEventRow list" where
  "event_insert fault gap now kind details rows =
    (case fault of
       Some e \<Rightarrow> (Inl e, rows)
     | None \<Rightarrow> (Inr 1, rows @ [\<lparr>se_id = (if rows = [] then 1 else se_id (last rows) + 1) + int gap, se_kind = kind,
         se_details = details, se_created_at = now\<rparr>]))"

text \<open>Ids grow, so the order by id is the order of the table.\<close>

definition latest_of_kind ::
  "RepoError option \<Rightarrow> SystemEventKind \<Rightarrow> SystemEventRow list \<Rightarrow> RepoError + SystemEventRow option" where
  "latest_of_kind fault kind rows =
    (case fault of
       Some e \<Rightarrow> Inl e
     | None \<Rightarrow> Inr (let hits = filter (\<lambda>r. se_kind r = kind) rows in if hits = [] then None else Some (last hits)))"

definition exists_of_kind_in ::
  "RepoError option \<Rightarrow> SystemEventKind \<Rightarrow> instant \<Rightarrow> instant \<Rightarrow> SystemEventRow list \<Rightarrow> RepoError + bool" where
  "exists_of_kind_in fault kind from to rows =
    (case fault of
       Some e \<Rightarrow> Inl e
     | None \<Rightarrow> Inr (\<exists>r\<in>set rows. se_kind r = kind \<and> from < se_created_at r \<and> se_created_at r \<le> to))"

definition list_events ::
  "RepoError option \<Rightarrow> instant option \<Rightarrow> instant option \<Rightarrow> SystemEventRow list \<Rightarrow> RepoError + SystemEventRow list" where
  "list_events fault from to rows =
    (case fault of
       Some e \<Rightarrow> Inl e
     | None \<Rightarrow> Inr (filter (\<lambda>r. (case from of Some f \<Rightarrow> f \<le> se_created_at r | None \<Rightarrow> True) \<and>
         (case to of Some t \<Rightarrow> se_created_at r \<le> t | None \<Rightarrow> True)) rows))"

section \<open>Node health\<close>

datatype Reachability = Unknown | IsReachable | IsUnreachable

record GetNetworkInfoModel =
  ni_version :: int
  ni_subversion :: string

record health_env =
  he_network :: "nat \<Rightarrow> ObserverError + GetNetworkInfoModel"
  he_fault :: "nat \<Rightarrow> RepoError option"
  he_gap :: "nat \<Rightarrow> nat"
  he_now :: "nat \<Rightarrow> instant"

record health =
  hs_last :: Reachability
  hs_events :: "SystemEventRow list"
  hs_steps :: nat

definition hs_step :: "health \<Rightarrow> health" where
  "hs_step h = h\<lparr>hs_steps := Suc (hs_steps h)\<rparr>"

text \<open>\<open>SystemEventService::record\<close>: a failure is only logged.\<close>

definition record_event :: "health_env \<Rightarrow> SystemEventKind \<Rightarrow> json \<Rightarrow> health \<Rightarrow> health" where
  "record_event env kind details h =
    hs_step (h\<lparr>hs_events := snd (event_insert (he_fault env (hs_steps h)) (he_gap env (hs_steps h)) (he_now env (hs_steps h)) kind details (hs_events h))\<rparr>)"

definition transition :: "Reachability \<Rightarrow> health \<Rightarrow> bool \<times> health" where
  "transition observed h = (if hs_last h = observed then (False, h) else (True, h\<lparr>hs_last := observed\<rparr>))"

definition json_string :: "json \<Rightarrow> string \<Rightarrow> string option" where
  "json_string j key =
    (case j of JObject kvs \<Rightarrow> (case map_of kvs key of Some (JString s) \<Rightarrow> Some s | _ \<Rightarrow> None) | _ \<Rightarrow> None)"

definition json_opt :: "string option \<Rightarrow> json" where
  "json_opt s = (case s of None \<Rightarrow> JNull | Some x \<Rightarrow> JString x)"

definition check_version :: "health_env \<Rightarrow> GetNetworkInfoModel \<Rightarrow> health \<Rightarrow> health" where
  "check_version env info h =
    (let previous = (case latest_of_kind (he_fault env (hs_steps h)) NodeVersionChanged (hs_events h) of
           Inr p \<Rightarrow> p | Inl e \<Rightarrow> None);
         h1 = hs_step h;
         from_subversion = Option.bind previous (\<lambda>event. json_string (se_details event) ''to'')
     in if from_subversion = Some (ni_subversion info) then h1
        else record_event env NodeVersionChanged
          (JObject [(''from'', json_opt from_subversion), (''to'', JString (ni_subversion info)),
             (''version'', JInt (ni_version info))]) h1)"

definition observe_reachable :: "health_env \<Rightarrow> GetBlockchainInfoModel \<Rightarrow> health \<Rightarrow> health" where
  "observe_reachable env info h =
    (case transition IsReachable h of
       (False, h1) \<Rightarrow> h1
     | (True, h1) \<Rightarrow>
         (let network_info = (case he_network env (hs_steps h1) of Inr i \<Rightarrow> Some i | Inl e \<Rightarrow> None);
              h2 = record_event env NodeConnected
                (JObject [(''blocks'', JInt (bi_blocks info)), (''headers'', JInt (bi_headers info)),
                   (''subversion'', json_opt (map_option ni_subversion network_info))]) (hs_step h1)
          in case network_info of None \<Rightarrow> h2 | Some i \<Rightarrow> check_version env i h2))"

definition observe_unreachable :: "health_env \<Rightarrow> string \<Rightarrow> health \<Rightarrow> health" where
  "observe_unreachable env error h =
    (case transition IsUnreachable h of
       (False, h1) \<Rightarrow> h1
     | (True, h1) \<Rightarrow> record_event env NodeDisconnected (JObject [(''error'', JString error)]) h1)"

text \<open>\<open>NodeStatusService::consume\<close>, event by event.\<close>

definition consume_status :: "health_env \<Rightarrow> NodeStatusEvent \<Rightarrow> health \<Rightarrow> health" where
  "consume_status env event h =
    (case event of
       Reachable blocks headers progress ibd \<Rightarrow> observe_reachable env
         \<lparr>bi_blocks = blocks, bi_headers = headers, bi_verification_progress = progress, bi_initial_block_download = ibd\<rparr> h
     | Unreachable error \<Rightarrow> observe_unreachable env error h)"

section \<open>Readiness\<close>

datatype Phase = WaitingForNode | Bootstrapping | Ready

record NodeReport =
  nr_reachable :: bool
  nr_error :: "string option"
  nr_blocks :: "int option"
  nr_headers :: "int option"
  nr_verification_progress :: "f64 option"
  nr_initial_block_download :: "bool option"
  nr_mempool_loaded :: "bool option"

definition report_default :: NodeReport where
  "report_default = \<lparr>nr_reachable = False, nr_error = None, nr_blocks = None, nr_headers = None,
     nr_verification_progress = None, nr_initial_block_download = None, nr_mempool_loaded = None\<rparr>"

record Readiness =
  rd_phase :: Phase
  rd_node :: NodeReport

definition readiness_default :: Readiness where
  "readiness_default = \<lparr>rd_phase = WaitingForNode, rd_node = report_default\<rparr>"

definition record_node :: "GetBlockchainInfoModel \<Rightarrow> Readiness \<Rightarrow> Readiness" where
  "record_node info r = r\<lparr>rd_node := \<lparr>nr_reachable = True, nr_error = None, nr_blocks = Some (bi_blocks info),
     nr_headers = Some (bi_headers info), nr_verification_progress = Some (bi_verification_progress info),
     nr_initial_block_download = Some (bi_initial_block_download info), nr_mempool_loaded = None\<rparr>\<rparr>"

definition record_mempool_loaded :: "bool \<Rightarrow> Readiness \<Rightarrow> Readiness" where
  "record_mempool_loaded loaded r = r\<lparr>rd_node := (rd_node r)\<lparr>nr_mempool_loaded := Some loaded\<rparr>\<rparr>"

definition record_node_error :: "string \<Rightarrow> Readiness \<Rightarrow> Readiness" where
  "record_node_error error r = r\<lparr>rd_node := report_default\<lparr>nr_error := Some error\<rparr>\<rparr>"

definition set_phase :: "Phase \<Rightarrow> Readiness \<Rightarrow> Readiness" where
  "set_phase phase r = r\<lparr>rd_phase := phase\<rparr>"

definition is_ready :: "Readiness \<Rightarrow> bool" where
  "is_ready r \<longleftrightarrow> rd_phase r = Ready"

record HealthReport =
  hr_ready :: bool
  hr_phase :: Phase
  hr_node :: NodeReport

definition health_report :: "Readiness \<Rightarrow> HealthReport" where
  "health_report r = \<lparr>hr_ready = (rd_phase r = Ready), hr_phase = rd_phase r, hr_node = rd_node r\<rparr>"

text \<open>The middleware: the handler's response, or \<open>503\<close> with a retry hint and the report.\<close>

datatype 'r gated = Served 'r | Unavailable string HealthReport

definition require_ready :: "Readiness \<Rightarrow> 'r \<Rightarrow> 'r gated" where
  "require_ready r response = (if is_ready r then Served response else Unavailable ''10'' (health_report r))"

section \<open>Waiting for the node\<close>

text \<open>One poll: the answers to \<open>getblockchaininfo\<close> and \<open>getmempoolinfo\<close> at poll \<open>n\<close>; the flag says
  that the wait is over.\<close>

record GetMempoolInfoModel =
  mi_loaded :: bool

record polls =
  po_chain :: "nat \<Rightarrow> ObserverError + GetBlockchainInfoModel"
  po_mempool :: "nat \<Rightarrow> ObserverError + GetMempoolInfoModel"

definition poll_step :: "health_env \<Rightarrow> polls \<Rightarrow> nat \<Rightarrow> Readiness \<times> health \<Rightarrow> bool \<times> Readiness \<times> health" where
  "poll_step env p n s =
    (case s of (r, h) \<Rightarrow>
      (case po_chain p n of
         Inr info \<Rightarrow>
           (if \<not> bi_initial_block_download info
            then (case po_mempool p n of
                    Inr m \<Rightarrow> (mi_loaded m, record_mempool_loaded (mi_loaded m) (record_node info r), observe_reachable env info h)
                  | Inl e \<Rightarrow> (False, record_node info r, observe_reachable env info h))
            else (False, record_node info r, observe_reachable env info h))
       | Inl e \<Rightarrow> (False, record_node_error (observer_error_display e) r, observe_unreachable env (observer_error_display e) h)))"

partial_function (option) wait_until_ready ::
  "health_env \<Rightarrow> polls \<Rightarrow> nat \<Rightarrow> Readiness \<times> health \<Rightarrow> (Readiness \<times> health) option" where
  "wait_until_ready env p n s =
    (case poll_step env p n s of (ready, s') \<Rightarrow>
       (if ready then Some s' else wait_until_ready env p (Suc n) s'))"

section \<open>The log against the observations\<close>

fun observed :: "NodeStatusEvent \<Rightarrow> Reachability" where
  "observed (Reachable blocks headers progress ibd) = IsReachable"
| "observed (Unreachable error) = IsUnreachable"

fun conn_kind :: "SystemEventKind \<Rightarrow> Reachability option" where
  "conn_kind NodeConnected = Some IsReachable"
| "conn_kind NodeDisconnected = Some IsUnreachable"
| "conn_kind _ = None"

definition conn_log :: "health \<Rightarrow> Reachability list" where
  "conn_log h = List.map_filter (\<lambda>r. conn_kind (se_kind r)) (hs_events h)"

definition version_rows :: "health \<Rightarrow> (string option \<times> string option) list" where
  "version_rows h = map (\<lambda>r. (json_string (se_details r) ''from'', json_string (se_details r) ''to''))
     (filter (\<lambda>r. se_kind r = NodeVersionChanged) (hs_events h))"

definition no_event_faults :: "health_env \<Rightarrow> bool" where
  "no_event_faults env \<longleftrightarrow> (\<forall>n. he_fault env n = None)"

definition fresh_health :: health where
  "fresh_health = \<lparr>hs_last = Unknown, hs_events = [], hs_steps = 0\<rparr>"

definition sample_health_env :: health_env where
  "sample_health_env = \<lparr>he_network = (\<lambda>n. Inr \<lparr>ni_version = 300000, ni_subversion = ''/Satoshi:30.0/''\<rparr>),
     he_fault = (\<lambda>n. None), he_gap = (\<lambda>n. 0), he_now = int\<rparr>"

definition sample_chain_info :: GetBlockchainInfoModel where
  "sample_chain_info = \<lparr>bi_blocks = 5, bi_headers = 5, bi_verification_progress = 0x3FF0000000000000, bi_initial_block_download = False\<rparr>"

lemma record_event_simps [simp]:
  assumes "no_event_faults env"
  shows "conn_log (record_event env kind details h) = conn_log h @ (case conn_kind kind of None \<Rightarrow> [] | Some r \<Rightarrow> [r])"
    and "hs_last (record_event env kind details h) = hs_last h"
    and "version_rows (record_event env kind details h) = version_rows h @
      (if kind = NodeVersionChanged then [(json_string details ''from'', json_string details ''to'')] else [])"
  using assms by (auto simp: record_event_def conn_log_def version_rows_def hs_step_def event_insert_def no_event_faults_def
      List.map_filter_def split: option.splits)

lemma hs_step_simps [simp]:
  "conn_log (hs_step h) = conn_log h" "hs_last (hs_step h) = hs_last h" "version_rows (hs_step h) = version_rows h"
  "hs_events (hs_step h) = hs_events h"
  by (simp_all add: hs_step_def conn_log_def version_rows_def)

lemma hs_last_update_simps [simp]:
  "conn_log (h\<lparr>hs_last := r\<rparr>) = conn_log h" "version_rows (h\<lparr>hs_last := r\<rparr>) = version_rows h"
  by (simp_all add: conn_log_def version_rows_def)

lemma check_version_simps [simp]:
  assumes "no_event_faults env"
  shows "conn_log (check_version env i h) = conn_log h" "hs_last (check_version env i h) = hs_last h"
  using assms by (simp_all add: check_version_def Let_def)

lemma consume_status_log:
  assumes "no_event_faults env"
  shows "conn_log (consume_status env e h) = conn_log h @ (if hs_last h = observed e then [] else [observed e])"
    and "hs_last (consume_status env e h) = observed e"
  using assms by (cases e; cases "he_network env (hs_steps h)";
      simp add: consume_status_def observe_reachable_def observe_unreachable_def transition_def Let_def)+

lemma remdups_adj_append_one:
  "remdups_adj (xs @ [x]) = remdups_adj xs @ (if xs \<noteq> [] \<and> last xs = x then [] else [x])"
  by (induction xs rule: remdups_adj.induct) auto

text \<open>The connection log is the history of observations with repeats removed.\<close>

lemma connection_log_is_history:
  assumes "no_event_faults env" "hs_last h = Unknown" "conn_log h = []"
  shows "conn_log (fold (consume_status env) es h) = remdups_adj (map observed es) \<and>
    hs_last (fold (consume_status env) es h) = (if es = [] then Unknown else observed (last es))"
proof (induction es rule: rev_induct)
  case Nil
  then show ?case using assms by simp
next
  case (snoc e es)
  have "observed e \<noteq> Unknown" by (cases e) simp_all
  then show ?case using snoc by (auto simp: consume_status_log [OF assms(1)] remdups_adj_append_one last_map)
qed

section \<open>The wait for the node\<close>

text \<open>What ends the wait: the node answers, is out of initial block download and has loaded its
  mempool.\<close>

definition node_up :: "polls \<Rightarrow> nat \<Rightarrow> bool" where
  "node_up p n \<longleftrightarrow> (\<exists>info m. po_chain p n = Inr info \<and> \<not> bi_initial_block_download info \<and>
     po_mempool p n = Inr m \<and> mi_loaded m)"

lemma observe_reachable_last: "hs_last (observe_reachable env info h) = IsReachable"
  by (simp add: observe_reachable_def transition_def Let_def check_version_def record_event_def hs_step_def
      split: sum.split option.split)

lemma poll_step_up: "fst (poll_step env p n s) = node_up p n"
  by (auto simp: poll_step_def node_up_def split: prod.splits sum.splits)

lemma poll_step_phase: "rd_phase (fst (snd (poll_step env p n s))) = rd_phase (fst s)"
  by (auto simp: poll_step_def record_mempool_loaded_def record_node_def record_node_error_def
      split: prod.splits sum.splits)

text \<open>What the readiness shows when the wait ends at poll \<open>k\<close>.\<close>

definition reports_up :: "polls \<Rightarrow> nat \<Rightarrow> Readiness \<times> health \<Rightarrow> bool" where
  "reports_up p k s \<longleftrightarrow> (\<exists>info. po_chain p k = Inr info \<and> hs_last (snd s) = IsReachable \<and>
     rd_node (fst s) = \<lparr>nr_reachable = True, nr_error = None, nr_blocks = Some (bi_blocks info),
       nr_headers = Some (bi_headers info), nr_verification_progress = Some (bi_verification_progress info),
       nr_initial_block_download = Some False, nr_mempool_loaded = Some True\<rparr>)"

lemma poll_step_reports: "node_up p n \<Longrightarrow> reports_up p n (snd (poll_step env p n s))"
  by (auto simp: node_up_def reports_up_def poll_step_def record_mempool_loaded_def record_node_def
      observe_reachable_last split: prod.splits sum.splits)

lemma wait_first:
  assumes "n \<le> k" "node_up p k" "\<forall>j. n \<le> j \<and> j < k \<longrightarrow> \<not> node_up p j"
  shows "\<exists>s'. wait_until_ready env p n s = Some s' \<and> reports_up p k s' \<and> rd_phase (fst s') = rd_phase (fst s)"
  using assms
proof (induction n arbitrary: s rule: inc_induct)
  case base
  then show ?case using poll_step_reports [OF assms(2)] poll_step_up [of env p k s] poll_step_phase [of env p k s]
    by (subst wait_until_ready.simps) (simp add: split_beta)
next
  case (step n)
  have no: "\<not> node_up p n" using step by blast
  have "\<forall>j. Suc n \<le> j \<and> j < k \<longrightarrow> \<not> node_up p j" using step.prems by simp
  from step.IH [OF assms(2) this, of "snd (poll_step env p n s)"] no show ?case
    using poll_step_up [of env p n s] poll_step_phase [of env p n s]
    by (subst wait_until_ready.simps) (simp add: split_beta)
qed

lemma wait_only:
  assumes "wait_until_ready env p n s = Some s'"
  shows "\<exists>k\<ge>n. node_up p k"
proof (rule wait_until_ready.raw_induct [where P = "\<lambda>env p n s s'. \<exists>k\<ge>n. node_up p k", OF _ assms])
  fix w :: "health_env \<Rightarrow> polls \<Rightarrow> nat \<Rightarrow> Readiness \<times> health \<Rightarrow> (Readiness \<times> health) option" and env p n s s'
  assume ih: "\<And>env p n s s'. w env p n s = Some s' \<Longrightarrow> \<exists>k\<ge>n. node_up p k"
    and body: "(case poll_step env p n s of (ready, s') \<Rightarrow> if ready then Some s' else w env p (Suc n) s') = Some s'"
  show "\<exists>k\<ge>n. node_up p k"
  proof (cases "node_up p n")
    case False
    then have "w env p (Suc n) (snd (poll_step env p n s)) = Some s'"
      using body poll_step_up [of env p n s] by (simp add: split_beta)
    then show ?thesis using ih Suc_leD by blast
  qed blast
qed

text \<open>Start-up waits for the node and no longer: the wait returns exactly when some poll finds the
  node answering, out of initial block download and with its mempool loaded; it ends at the first
  such poll, with that poll's chain state in the health report and the start-up phase unchanged.\<close>

theorem wait_until_ready_returns:
  "(wait_until_ready env p 0 s \<noteq> None) = (\<exists>k. node_up p k) \<and>
   (case wait_until_ready env p 0 s of None \<Rightarrow> True
    | Some s' \<Rightarrow> reports_up p (LEAST k. node_up p k) s' \<and> rd_phase (fst s') = rd_phase (fst s))"
proof (cases "\<exists>k. node_up p k")
  case True
  have "node_up p (LEAST k. node_up p k)" using True by (rule LeastI_ex)
  moreover have "\<forall>j. 0 \<le> j \<and> j < (LEAST k. node_up p k) \<longrightarrow> \<not> node_up p j" using not_less_Least by blast
  ultimately obtain s' where "wait_until_ready env p 0 s = Some s'" "reports_up p (LEAST k. node_up p k) s'"
      "rd_phase (fst s') = rd_phase (fst s)"
    using wait_first [of 0 "LEAST k. node_up p k" p env s] by blast
  with True show ?thesis by simp
next
  case False
  then have "wait_until_ready env p 0 s = None"
    using wait_only [of env p 0 s] by (cases "wait_until_ready env p 0 s") auto
  with False show ?thesis by simp
qed

section \<open>Version rows\<close>

text \<open>Each row's \<open>from\<close> is the row before's \<open>to\<close>, and never its own.\<close>

fun version_chain :: "string option \<Rightarrow> (string option \<times> string option) list \<Rightarrow> bool" where
  "version_chain prev [] \<longleftrightarrow> True"
| "version_chain prev ((f, t) # rest) \<longleftrightarrow> f = prev \<and> t \<noteq> None \<and> t \<noteq> prev \<and> version_chain t rest"

definition last_version :: "(string option \<times> string option) list \<Rightarrow> string option" where
  "last_version vs = (if vs = [] then None else snd (last vs))"

lemma version_chain_append:
  "version_chain prev (vs @ [(f, t)]) \<longleftrightarrow>
    version_chain prev vs \<and> f = (if vs = [] then prev else snd (last vs)) \<and> t \<noteq> None \<and> t \<noteq> f"
  by (induction prev vs rule: version_chain.induct) auto

lemma check_version_reads:
  assumes "no_event_faults env"
  shows "Option.bind (case latest_of_kind (he_fault env n) NodeVersionChanged (hs_events h) of Inr p \<Rightarrow> p | Inl e \<Rightarrow> None)
      (\<lambda>event. json_string (se_details event) ''to'') = last_version (version_rows h)"
  using assms by (auto simp: latest_of_kind_def no_event_faults_def last_version_def version_rows_def Let_def last_map)

lemma json_string_details [simp]:
  "json_string (JObject [(''from'', json_opt f), (''to'', JString t), (''version'', v)]) ''from'' = f"
  "json_string (JObject [(''from'', json_opt f), (''to'', JString t), (''version'', v)]) ''to'' = Some t"
  by (simp_all add: json_string_def json_opt_def split: option.split)

lemma check_version_chain:
  assumes "no_event_faults env" "version_chain None (version_rows h)"
  shows "version_chain None (version_rows (check_version env i h)) \<and>
    last_version (version_rows (check_version env i h)) = Some (ni_subversion i)"
  using assms check_version_reads [OF assms(1)]
  by (auto simp: check_version_def Let_def version_chain_append last_version_def)

theorem version_rows_chain:
  assumes "no_event_faults env" "version_chain None (version_rows h)"
  shows "version_chain None (version_rows (fold (consume_status env) es h))"
proof (induction es rule: rev_induct)
  case (snoc e es)
  then show ?case using assms(1) check_version_chain [OF assms(1)]
    by (cases e) (auto simp: consume_status_def observe_reachable_def observe_unreachable_def transition_def Let_def
        split: sum.split option.split)
qed (simp add: assms)


end
