(* ===== verification/Api.thy ===== *)
theory Api
  imports Tx_Repo "HOL-Library.Char_ord"
begin

text \<open>
  The transaction lookup of the HTTP API: the query parser (\<open>api/src/controllers/transactions.rs\<close>), the
  service behind it (\<open>api/src/services/transaction.rs\<close>) and the errors a handler answers with
  (\<open>api/src/error.rs\<close>). A \<open>&str\<close> is the list of its UTF-8 bytes.
\<close>

section \<open>Errors\<close>

datatype ApiError = BadRequest string | Internal string

text \<open>The text of a pool or query error comes from the database crates: \<open>inner\<close> is a parameter.\<close>

definition repo_error_display :: "(RepoError \<Rightarrow> string) \<Rightarrow> RepoError \<Rightarrow> string" where
  "repo_error_display inner e =
    (case e of PoolError m \<Rightarrow> ''connection pool error: '' @ inner e | QueryError m \<Rightarrow> ''query error: '' @ inner e)"

definition api_error_of :: "(RepoError \<Rightarrow> string) \<Rightarrow> RepoError \<Rightarrow> ApiError" where
  "api_error_of inner e = Internal (repo_error_display inner e)"

text \<open>Status and body of the response.\<close>

definition into_response :: "ApiError \<Rightarrow> nat \<times> string" where
  "into_response e = (case e of BadRequest msg \<Rightarrow> (400, msg) | Internal msg \<Rightarrow> (500, ''internal error''))"

section \<open>Parsing the query\<close>

definition MAX_TXIDS :: nat where
  "MAX_TXIDS = 128"

fun decimal :: "nat \<Rightarrow> string" where
  "decimal n = (if n < 10 then [char_of (48 + n)] else decimal (n div 10) @ [char_of (48 + n mod 10)])"

declare decimal.simps [simp del]

fun split_at :: "char \<Rightarrow> string \<Rightarrow> string list" where
  "split_at c [] = [[]]"
| "split_at c (x # xs) = (if x = c then [] # split_at c xs
     else case split_at c xs of [] \<Rightarrow> [[x]] | s # ss \<Rightarrow> (x # s) # ss)"

definition is_valid_txid :: "string \<Rightarrow> bool" where
  "is_valid_txid s \<longleftrightarrow> length s = 64 \<and> list_all (\<lambda>b. (CHR ''0'' \<le> b \<and> b \<le> CHR ''9'') \<or> (CHR ''a'' \<le> b \<and> b \<le> CHR ''f'')) s"

fun first_invalid :: "string list \<Rightarrow> string option" where
  "first_invalid [] = None"
| "first_invalid (s # ss) = (if \<not> is_valid_txid s then Some s else first_invalid ss)"

definition dedupe :: "string list \<Rightarrow> string set \<times> string list" where
  "dedupe segments = foldl (\<lambda>(seen, txids) segment.
     if segment \<notin> seen then (insert segment seen, txids @ [segment]) else (seen, txids)) ({}, []) segments"

definition parse_txids :: "string \<Rightarrow> ApiError + string list" where
  "parse_txids raw =
    (if raw = [] then Inl (BadRequest ''`txids` must not be empty'')
     else let segments = split_at CHR '','' raw in
       if length segments > MAX_TXIDS
       then Inl (BadRequest (''at most '' @ decimal MAX_TXIDS @ '' txids allowed, got '' @ decimal (length segments)))
       else case first_invalid segments of
         Some s \<Rightarrow> Inl (BadRequest (''invalid txid: `'' @ s @ ''`''))
       | None \<Rightarrow> Inr (snd (dedupe segments)))"

section \<open>The lookup\<close>

record TransactionRef =
  tr_txid :: txid
  tr_fee :: "int option"
  tr_vsize :: int
  tr_first_seen_at :: instant
  tr_cluster_id :: "cluster_id option"
  tr_input_txids :: "txid list option"
  tr_complete :: bool

definition transaction_ref :: "(int \<Rightarrow> int) \<Rightarrow> Transaction \<Rightarrow> TransactionRef" where
  "transaction_ref vb row =
    \<lparr>tr_txid = tx_txid row, tr_fee = tx_fee row, tr_vsize = vsize_from_weight vb (tx_weight row),
     tr_first_seen_at = tx_first_seen_at row, tr_cluster_id = tx_cluster_id row,
     tr_input_txids = tx_input_txids row, tr_complete = is_complete row\<rparr>"

record TransactionLookup =
  lk_found :: "TransactionRef list"
  lk_missing :: "txid list"

definition lookup_step ::
  "(int \<Rightarrow> int) \<Rightarrow> (txid \<rightharpoonup> Transaction) \<times> TransactionLookup \<Rightarrow> txid \<Rightarrow> (txid \<rightharpoonup> Transaction) \<times> TransactionLookup" where
  "lookup_step vb acc txid =
    (case acc of (by_txid, lk) \<Rightarrow>
       (case by_txid txid of
          Some row \<Rightarrow> (by_txid(txid := None), lk\<lparr>lk_found := lk_found lk @ [transaction_ref vb row]\<rparr>)
        | None \<Rightarrow> (by_txid, lk\<lparr>lk_missing := lk_missing lk @ [txid]\<rparr>)))"

text \<open>Collecting into a hash map: a later row of the same txid replaces an earlier one.\<close>

definition by_txid :: "Transaction list \<Rightarrow> txid \<rightharpoonup> Transaction" where
  "by_txid rows = foldl (\<lambda>m row. m(tx_txid row \<mapsto> row)) Map.empty rows"

definition lookup ::
  "(RepoError \<Rightarrow> string) \<Rightarrow> (int \<Rightarrow> int) \<Rightarrow> fault \<Rightarrow> txid list \<Rightarrow> db \<Rightarrow> ApiError + TransactionLookup" where
  "lookup inner vb fault txids d =
    (case find_by_txids fault txids d of
       Inl e \<Rightarrow> Inl (api_error_of inner e)
     | Inr rows \<Rightarrow> Inr (snd (foldl (lookup_step vb) (by_txid rows, \<lparr>lk_found = [], lk_missing = []\<rparr>) txids)))"

definition transactions ::
  "(RepoError \<Rightarrow> string) \<Rightarrow> (int \<Rightarrow> int) \<Rightarrow> fault \<Rightarrow> string \<Rightarrow> db \<Rightarrow> ApiError + TransactionLookup" where
  "transactions inner vb fault raw d =
    (case parse_txids raw of Inl e \<Rightarrow> Inl e | Inr txids \<Rightarrow> lookup inner vb fault txids d)"

section \<open>The parser inverts joining with commas\<close>

fun join_with :: "char \<Rightarrow> string list \<Rightarrow> string" where
  "join_with c [] = []"
| "join_with c [s] = s"
| "join_with c (s # t # ss) = s @ c # join_with c (t # ss)"

lemma split_at_ne [simp]: "split_at c xs \<noteq> []"
  by (induction xs) (auto split: list.split)

lemma split_at_append: "c \<notin> set s \<Longrightarrow> split_at c (s @ c # rest) = s # split_at c rest"
  by (induction s) auto

lemma split_at_whole: "c \<notin> set s \<Longrightarrow> split_at c s = [s]"
  by (induction s) auto

lemma split_join:
  assumes "segments \<noteq> []" "\<forall>s\<in>set segments. c \<notin> set s"
  shows "split_at c (join_with c segments) = segments"
  using assms by (induction c segments rule: join_with.induct) (simp_all add: split_at_whole split_at_append)

lemma first_invalid_None: "first_invalid ss = None \<longleftrightarrow> (\<forall>s\<in>set ss. is_valid_txid s)"
  by (induction ss) auto

lemma valid_txid_facts:
  assumes "is_valid_txid s"
  shows "CHR '','' \<notin> set s" "s \<noteq> []"
  using assms by (auto simp: is_valid_txid_def list_all_iff less_eq_char_def)

lemma dedupe_acc:
  "foldl (\<lambda>(seen, txids) segment.
      if segment \<notin> seen then (insert segment seen, txids @ [segment]) else (seen, txids)) (set acc, acc) ss =
    (set acc \<union> set ss, acc @ filter (\<lambda>s. s \<notin> set acc) (rev (remdups (rev ss))))"
proof (induction ss rule: rev_induct)
  case (snoc s ss)
  then show ?case by auto
qed simp

lemma dedupe_keeps_firsts: "snd (dedupe ss) = rev (remdups (rev ss))"
  using dedupe_acc [of "[]" ss] by (simp add: dedupe_def)

section \<open>The lookup splits the request\<close>

lemma by_txid_lookup:
  assumes "distinct (map tx_txid rows)"
  shows "by_txid rows x = (case filter (\<lambda>r. tx_txid r = x) rows of [] \<Rightarrow> None | r # rs \<Rightarrow> Some r)"
  using assms
proof (induction rows rule: rev_induct)
  case (snoc row rows)
  then have "x = tx_txid row \<Longrightarrow> filter (\<lambda>r. tx_txid r = x) rows = []"
    by (auto simp: filter_empty_conv) (metis image_eqI)
  with snoc show ?case by (auto simp: by_txid_def split: list.split)
qed (simp add: by_txid_def)

lemma lookup_fold:
  assumes "distinct txids"
  shows "snd (foldl (lookup_step vb) (m, lk) txids) =
    \<lparr>lk_found = lk_found lk @ map (\<lambda>t. transaction_ref vb (the (m t))) (filter (\<lambda>t. m t \<noteq> None) txids),
     lk_missing = lk_missing lk @ filter (\<lambda>t. m t = None) txids\<rparr>"
  using assms
proof (induction txids arbitrary: m lk)
  case (Cons t ts)
  have "map (\<lambda>x. transaction_ref vb (the ((m(t := None)) x))) (filter (\<lambda>x. (m(t := None)) x \<noteq> None) ts) =
      map (\<lambda>x. transaction_ref vb (the (m x))) (filter (\<lambda>x. m x \<noteq> None) ts)"
    "filter (\<lambda>x. (m(t := None)) x = None) ts = filter (\<lambda>x. m x = None) ts"
    using Cons.prems by (auto intro!: filter_cong map_cong)
  then show ?case using Cons by (cases "m t") (simp_all add: lookup_step_def del: fun_upd_apply)
qed simp

text \<open>What a request for \<open>txids\<close> is answered with.\<close>

definition answer_for :: "(int \<Rightarrow> int) \<Rightarrow> txid list \<Rightarrow> Transaction list \<Rightarrow> TransactionLookup" where
  "answer_for vb txids table =
    \<lparr>lk_found = map (\<lambda>t. transaction_ref vb (hd (filter (\<lambda>r. tx_txid r = t) table))) (filter (\<lambda>t. t \<in> tx_txid ` set table) txids),
     lk_missing = filter (\<lambda>t. t \<notin> tx_txid ` set table) txids\<rparr>"

lemma by_txid_of_table:
  assumes "distinct (map tx_txid table)" "x \<in> set txids"
  shows "by_txid (filter (\<lambda>t. tx_txid t \<in> set txids) table) x =
    (if x \<in> tx_txid ` set table then Some (hd (filter (\<lambda>r. tx_txid r = x) table)) else None)"
proof -
  have "filter (\<lambda>r. tx_txid r = x) (filter (\<lambda>t. tx_txid t \<in> set txids) table) = filter (\<lambda>r. tx_txid r = x) table"
    using assms(2) by (auto simp: filter_filter intro: filter_cong)
  moreover have "distinct (map tx_txid (filter (\<lambda>t. tx_txid t \<in> set txids) table))"
    using assms(1) by (rule distinct_map_filter)
  moreover have "filter (\<lambda>r. tx_txid r = x) table = [] \<longleftrightarrow> x \<notin> tx_txid ` set table"
    by (auto simp: filter_empty_conv)
  ultimately show ?thesis by (cases "filter (\<lambda>r. tx_txid r = x) table") (auto simp: by_txid_lookup)
qed

lemma lookup_answers:
  assumes "distinct (map tx_txid (db_transactions d))" "distinct txids"
  shows "lookup inner vb None txids d = Inr (answer_for vb txids (db_transactions d))"
proof -
  let ?m = "by_txid (filter (\<lambda>t. tx_txid t \<in> set txids) (db_transactions d))"
  have "map (\<lambda>t. transaction_ref vb (the (?m t))) (filter (\<lambda>t. ?m t \<noteq> None) txids) =
      lk_found (answer_for vb txids (db_transactions d))"
    "filter (\<lambda>t. ?m t = None) txids = lk_missing (answer_for vb txids (db_transactions d))"
    unfolding answer_for_def TransactionLookup.simps
    by (intro map_cong filter_cong refl; auto simp: by_txid_of_table [OF assms(1)] split: if_splits)+
  then show ?thesis
    by (simp add: lookup_def find_by_txids_def query_def lookup_fold [OF assms(2)])
qed

lemma parse_join:
  assumes "segments \<noteq> []" "length segments \<le> MAX_TXIDS" "list_all is_valid_txid segments"
  shows "parse_txids (join_with CHR '','' segments) = Inr (rev (remdups (rev segments)))"
proof -
  have "split_at CHR '','' (join_with CHR '','' segments) = segments"
    using assms by (intro split_join) (auto simp: list_all_iff valid_txid_facts)
  moreover have "join_with CHR '','' segments \<noteq> []"
    using assms by (cases segments rule: remdups_adj.cases) (auto simp: valid_txid_facts)
  moreover have "first_invalid segments = None" using assms(3) by (simp add: first_invalid_None list_all_iff)
  ultimately show ?thesis using assms(2) by (simp add: parse_txids_def dedupe_keeps_firsts)
qed

lemma join_with_Cons: "join_with c ((x # s) # ss) = x # join_with c (s # ss)"
  by (cases ss) simp_all

lemma join_split: "join_with c (split_at c xs) = xs"
proof (induction xs)
  case (Cons x xs)
  obtain s ss where "split_at c xs = s # ss" by (meson split_at_ne list.exhaust)
  with Cons show ?case by (simp add: join_with_Cons)
qed simp

theorem parse_accepts_only:
  assumes "parse_txids raw = Inr txids"
  shows "\<exists>segments. raw = join_with CHR '','' segments \<and> segments \<noteq> [] \<and> length segments \<le> MAX_TXIDS \<and>
    list_all is_valid_txid segments \<and> txids = rev (remdups (rev segments))"
proof -
  let ?s = "split_at CHR '','' raw"
  have "length ?s \<le> MAX_TXIDS" "first_invalid ?s = None" "txids = rev (remdups (rev ?s))"
    using assms by (auto simp: parse_txids_def Let_def dedupe_keeps_firsts split: if_splits option.splits)
  then show ?thesis
    using join_split [of "CHR '',''" raw, symmetric] by (intro exI [of _ ?s]) (simp add: first_invalid_None list_all_iff)
qed

text \<open>C34: A lookup request is answered exactly. A request that joins with commas at most 128 txids of
  64 lowercase hex digits, repeats allowed, gets every stored transaction among them once, in the
  order of first mention and with the stored columns, and the rest as missing; when the database
  fails the client gets an internal error whose body is the same whatever the failure.\<close>

theorem transactions_answered:
  assumes "segments \<noteq> []" "length segments \<le> MAX_TXIDS" "list_all is_valid_txid segments"
    "distinct (map tx_txid (db_transactions d))"
  shows "transactions inner vb None (join_with CHR '','' segments) d =
      Inr (answer_for vb (rev (remdups (rev segments))) (db_transactions d)) \<and>
    (\<exists>err. transactions inner vb (Some (e, gap)) (join_with CHR '','' segments) d = Inl err \<and>
       into_response err = (500, ''internal error''))"
  using parse_join [OF assms(1-3)] lookup_answers [OF assms(4)]
  by (simp add: transactions_def) (simp add: lookup_def find_by_txids_def query_def api_error_of_def into_response_def)

definition sample_txid :: "char \<Rightarrow> txid" where
  "sample_txid c = replicate 64 c"

definition sample_tx_table :: db where
  "sample_tx_table = \<lparr>db_clusters = [], db_cluster_seq = 1, db_chunks = [],
     db_transactions = [hollow 7 (sample_txid CHR ''b'')], db_blocks = [], db_deltas = []\<rparr>"

theorem transactions_answered_witness:
  "map_sum id lk_missing (transactions (\<lambda>_. []) id None
     (join_with CHR '','' [sample_txid CHR ''a'', sample_txid CHR ''b'', sample_txid CHR ''a'']) sample_tx_table) =
   Inr [sample_txid CHR ''a'']"
proof -
  let ?segments = "[sample_txid CHR ''a'', sample_txid CHR ''b'', sample_txid CHR ''a'']"
  have "list_all is_valid_txid ?segments"
    by (simp add: is_valid_txid_def sample_txid_def list_all_iff less_eq_char_def)
  moreover have "length ?segments \<le> MAX_TXIDS" by (simp add: MAX_TXIDS_def)
  moreover have "distinct (map tx_txid (db_transactions sample_tx_table))" by (simp add: sample_tx_table_def)
  moreover have "?segments \<noteq> []" by simp
  ultimately show ?thesis
    using transactions_answered [of ?segments sample_tx_table "\<lambda>_. []" id] 
    by (simp add: answer_for_def sample_tx_table_def hollow_def sample_txid_def)
qed

end
