(* ===== verification/Samples.thy ===== *)
theory Samples
  imports Api Events Gate Snapshot Ledger Machine
begin

text \<open>
  The time series: the counter sampler (\<open>api/src/services/counter_sample.rs\<close>), the gauge sampler
  (\<open>api/src/services/gauge_sample.rs\<close>), their tables (\<open>api/src/db/repositories/counter_sample.rs\<close>,
  \<open>gauge_sample.rs\<close>) and the choice of resolution (\<open>api/src/services/resolution.rs\<close>). Instants are
  nanoseconds; the bucket of an instant, computed by the database in floating point, is the exact
  quotient (an \<open>f64\<close> tells neighbouring microseconds of the bucket boundaries apart).
\<close>

section \<open>Resolution\<close>

definition whole_seconds :: "int \<Rightarrow> int" where
  "whole_seconds span = (if span < 0 then - ((- span) div 1000000000) else span div 1000000000)"

definition NATIVE_RESOLUTION_SECS :: int where
  "NATIVE_RESOLUTION_SECS = 60"

definition RESOLUTION_LADDER_SECS :: "int list" where
  "RESOLUTION_LADDER_SECS = [NATIVE_RESOLUTION_SECS, 5 * 60, 10 * 60, 30 * 60, 60 * 60, 6 * 60 * 60, 24 * 60 * 60]"

definition MAX_POINTS :: int where
  "MAX_POINTS = 2000"

definition DEFAULT_RANGE :: int where
  "DEFAULT_RANGE = 24 * 3600 * 1000000000"

text \<open>Division of the \<open>i64\<close> seconds truncates; every rung is positive.\<close>

definition pick_resolution :: "int \<Rightarrow> int" where
  "pick_resolution span =
    (let span_secs = whole_seconds span in
     case find (\<lambda>res. (if span_secs < 0 then - ((- span_secs) div res) else span_secs div res) \<le> MAX_POINTS)
       RESOLUTION_LADDER_SECS of
       Some res \<Rightarrow> res | None \<Rightarrow> last RESOLUTION_LADDER_SECS)"

section \<open>Buckets\<close>

text \<open>What the two tables share: rows with a time, in a closed range, grouped by bucket.\<close>

definition in_range :: "('r \<Rightarrow> instant) \<Rightarrow> instant \<Rightarrow> instant \<Rightarrow> 'r list \<Rightarrow> 'r list" where
  "in_range at from to rows = filter (\<lambda>r. from \<le> at r \<and> at r \<le> to) rows"

definition range_native :: "('r \<Rightarrow> instant) \<Rightarrow> instant \<Rightarrow> instant \<Rightarrow> 'r list \<Rightarrow> 'r list" where
  "range_native at from to rows = sort_key at (in_range at from to rows)"

definition bucket :: "int \<Rightarrow> instant \<Rightarrow> int" where
  "bucket res t = t div (res * 1000000000)"

definition buckets :: "('r \<Rightarrow> instant) \<Rightarrow> int \<Rightarrow> 'r list \<Rightarrow> int list" where
  "buckets at res rows = sort (remdups (map (\<lambda>r. bucket res (at r)) rows))"

definition of_bucket :: "('r \<Rightarrow> instant) \<Rightarrow> int \<Rightarrow> int \<Rightarrow> 'r list \<Rightarrow> 'r list" where
  "of_bucket at res b rows = filter (\<lambda>r. bucket res (at r) = b) rows"

section \<open>Counters\<close>

record MempoolCounterSampleRow =
  cn_sampled_at :: instant
  cn_period_secs :: int
  cn_added_txs :: "int option"
  cn_confirmed_txs :: "int option"
  cn_evicted_txs :: "int option"

definition counter_insert ::
  "RepoError option \<Rightarrow> MempoolCounterSampleRow \<Rightarrow> MempoolCounterSampleRow list \<Rightarrow> (RepoError + nat) \<times> MempoolCounterSampleRow list" where
  "counter_insert fault row rows =
    (case fault of
       Some e \<Rightarrow> (Inl e, rows)
     | None \<Rightarrow> if cn_sampled_at row \<in> cn_sampled_at ` set rows then (Inr 0, rows) else (Inr 1, rows @ [row]))"

definition latest_sampled_at ::
  "RepoError option \<Rightarrow> MempoolCounterSampleRow list \<Rightarrow> RepoError + instant option" where
  "latest_sampled_at fault rows =
    (case fault of
       Some e \<Rightarrow> Inl e
     | None \<Rightarrow> Inr (case sort_key (\<lambda>r. - cn_sampled_at r) rows of [] \<Rightarrow> None | r # rs \<Rightarrow> Some (cn_sampled_at r)))"

text \<open>The aggregates of a bucket: a column is \<open>NULL\<close> when any of the bucket's counts is.\<close>

definition any_null :: "MempoolCounterSampleRow list \<Rightarrow> bool" where
  "any_null g \<longleftrightarrow> (\<exists>r\<in>set g. cn_added_txs r = None \<or> cn_confirmed_txs r = None \<or> cn_evicted_txs r = None)"

definition bucket_total :: "(MempoolCounterSampleRow \<Rightarrow> int option) \<Rightarrow> MempoolCounterSampleRow list \<Rightarrow> int option" where
  "bucket_total col g = (if any_null g then None else Some (\<Sum>r\<leftarrow>g. the (col r)))"

definition counter_range_bucketed ::
  "instant \<Rightarrow> instant \<Rightarrow> int \<Rightarrow> MempoolCounterSampleRow list \<Rightarrow> MempoolCounterSampleRow list" where
  "counter_range_bucketed from to res rows =
    (let bucketed = in_range cn_sampled_at from to rows in
     map (\<lambda>b. let g = of_bucket cn_sampled_at res b bucketed
         in \<lparr>cn_sampled_at = Max (cn_sampled_at ` set g), cn_period_secs = res,
             cn_added_txs = bucket_total cn_added_txs g, cn_confirmed_txs = bucket_total cn_confirmed_txs g,
             cn_evicted_txs = bucket_total cn_evicted_txs g\<rparr>)
       (buckets cn_sampled_at res bucketed))"

definition counter_range ::
  "RepoError option \<Rightarrow> instant \<Rightarrow> instant \<Rightarrow> int \<Rightarrow> MempoolCounterSampleRow list \<Rightarrow> RepoError + MempoolCounterSampleRow list" where
  "counter_range fault from to res rows =
    (case fault of
       Some e \<Rightarrow> Inl e
     | None \<Rightarrow> Inr (if res = NATIVE_RESOLUTION_SECS then range_native cn_sampled_at from to rows
         else counter_range_bucketed from to res rows))"

definition SAFETY_MARGIN :: int where
  "SAFETY_MARGIN = MAX_HOLD + 60 * 1000000000"

text \<open>The calls of one sample may fail, each on its own.\<close>

record sample_faults =
  fa_cursor :: "RepoError option"
  fa_events :: "RepoError option"
  fa_counts :: fault
  fa_insert :: "RepoError option"

definition unmeasured_row :: "instant \<Rightarrow> int \<Rightarrow> MempoolCounterSampleRow" where
  "unmeasured_row sampled_at period_secs = \<lparr>cn_sampled_at = sampled_at, cn_period_secs = period_secs,
     cn_added_txs = None, cn_confirmed_txs = None, cn_evicted_txs = None\<rparr>"

definition sample_window ::
  "sample_faults \<Rightarrow> instant \<Rightarrow> instant \<Rightarrow> SystemEventRow list \<Rightarrow> db \<Rightarrow> MempoolCounterSampleRow list \<Rightarrow>
    (RepoError + unit) \<times> MempoolCounterSampleRow list" where
  "sample_window fs window_start window_end events d rows =
    (let period_secs = whole_seconds (window_end - window_start) in
     case exists_of_kind_in (fa_events fs) ServerStarted window_start window_end events of
       Inl e \<Rightarrow> (Inl e, rows)
     | Inr restarted \<Rightarrow>
         (case (if restarted then Inr (unmeasured_row window_end period_secs)
                else map_sum id (\<lambda>(added, confirmed, evicted).
                    \<lparr>cn_sampled_at = window_end, cn_period_secs = period_secs, cn_added_txs = Some (int added),
                     cn_confirmed_txs = Some (int confirmed), cn_evicted_txs = Some (int evicted)\<rparr>)
                  (count_deltas_in (fa_counts fs) window_start window_end d)) of
            Inl e \<Rightarrow> (Inl e, rows)
          | Inr row \<Rightarrow> (case counter_insert (fa_insert fs) row rows of
                (Inl e, rows') \<Rightarrow> (Inl e, rows')
              | (Inr n, rows') \<Rightarrow> (Inr (), rows'))))"

text \<open>\<open>sample\<close> at the instant \<open>now\<close>: errors are logged and leave the table as it was.\<close>

definition sample_counters ::
  "sample_faults \<Rightarrow> int \<Rightarrow> instant \<Rightarrow> SystemEventRow list \<Rightarrow> db \<Rightarrow> MempoolCounterSampleRow list \<Rightarrow> MempoolCounterSampleRow list" where
  "sample_counters fs interval now events d rows =
    (let window_end = now - SAFETY_MARGIN in
     case latest_sampled_at (fa_cursor fs) rows of
       Inl e \<Rightarrow> rows
     | Inr None \<Rightarrow> snd (counter_insert (fa_insert fs) (unmeasured_row window_end (whole_seconds interval)) rows)
     | Inr (Some window_start) \<Rightarrow>
         if window_end \<le> window_start then rows
         else snd (sample_window fs window_start window_end events d rows))"

definition counter_fetch_range ::
  "(RepoError \<Rightarrow> string) \<Rightarrow> RepoError option \<Rightarrow> instant \<Rightarrow> instant option \<Rightarrow> instant option \<Rightarrow> MempoolCounterSampleRow list \<Rightarrow>
    ApiError + int \<times> MempoolCounterSampleRow list" where
  "counter_fetch_range inner fault now from to rows =
    (let to' = (case to of Some t \<Rightarrow> t | None \<Rightarrow> now);
         from' = (case from of Some f \<Rightarrow> f | None \<Rightarrow> to' - DEFAULT_RANGE)
     in if from' \<ge> to' then Inl (BadRequest ''`from` must be earlier than `to`'')
        else let res = pick_resolution (to' - from') in
          (case counter_range fault from' to' res rows of
             Inl e \<Rightarrow> Inl (api_error_of inner e) | Inr rs \<Rightarrow> Inr (res, rs)))"

record CounterPoint =
  cp_sampled_at :: instant
  cp_added_txs :: "int option"
  cp_confirmed_txs :: "int option"
  cp_evicted_txs :: "int option"

record CounterSeries =
  cse_resolution_secs :: int
  cse_points :: "CounterPoint list"

definition counter_series ::
  "(RepoError \<Rightarrow> string) \<Rightarrow> RepoError option \<Rightarrow> instant \<Rightarrow> instant option \<Rightarrow> instant option \<Rightarrow> MempoolCounterSampleRow list \<Rightarrow>
    ApiError + CounterSeries" where
  "counter_series inner fault now from to rows =
    map_sum id (\<lambda>(res, rs). \<lparr>cse_resolution_secs = res, cse_points = map (\<lambda>row.
        \<lparr>cp_sampled_at = cn_sampled_at row, cp_added_txs = cn_added_txs row,
         cp_confirmed_txs = cn_confirmed_txs row, cp_evicted_txs = cn_evicted_txs row\<rparr>) rs\<rparr>)
      (counter_fetch_range inner fault now from to rows)"

section \<open>Gauges\<close>

record MempoolGaugeSampleRow =
  ga_sampled_at :: instant
  ga_cluster_count :: int
  ga_clustered_tx_count :: int
  ga_mempool_tx_count :: int
  ga_total_weight :: int
  ga_total_fee :: int

definition build_row ::
  "(cluster_id set \<Rightarrow> cluster_id list) \<Rightarrow> ClusterSnapshot \<Rightarrow> nat \<Rightarrow> instant \<Rightarrow> MempoolGaugeSampleRow" where
  "build_row it snapshot mempool_tx_count sampled_at =
    (let stats = snapshot_stats it snapshot in
     \<lparr>ga_sampled_at = sampled_at, ga_cluster_count = i32_of (int (st_cluster_count stats)),
      ga_clustered_tx_count = i32_of (int (st_tx_count stats)), ga_mempool_tx_count = i32_of (int mempool_tx_count),
      ga_total_weight = st_total_weight stats, ga_total_fee = st_total_fee stats\<rparr>)"

definition gauge_insert ::
  "RepoError option \<Rightarrow> MempoolGaugeSampleRow \<Rightarrow> MempoolGaugeSampleRow list \<Rightarrow> (RepoError + nat) \<times> MempoolGaugeSampleRow list" where
  "gauge_insert fault row rows =
    (case fault of
       Some e \<Rightarrow> (Inl e, rows)
     | None \<Rightarrow> if ga_sampled_at row \<in> ga_sampled_at ` set rows then (Inr 0, rows) else (Inr 1, rows @ [row]))"

text \<open>The size of the live set and the stale-member metric are read under one lock; the metric is the
  first component of the result.\<close>

definition sample_gauges ::
  "(cluster_id set \<Rightarrow> cluster_id list) \<Rightarrow> RepoError option \<Rightarrow> instant \<Rightarrow> ClusterSnapshot \<Rightarrow> Inner \<Rightarrow>
    MempoolGaugeSampleRow list \<Rightarrow> nat \<times> MempoolGaugeSampleRow list" where
  "sample_gauges it fault now snapshot ledger rows =
    (missing_member_count it (lg_live ledger) snapshot,
     snd (gauge_insert fault (build_row it snapshot (card (lg_live ledger)) now) rows))"

text \<open>\<open>DISTINCT ON (bucket)\<close> in the order of descending time keeps the first row of each bucket.\<close>

definition gauge_range_bucketed ::
  "instant \<Rightarrow> instant \<Rightarrow> int \<Rightarrow> MempoolGaugeSampleRow list \<Rightarrow> MempoolGaugeSampleRow list" where
  "gauge_range_bucketed from to res rows =
    (let bucketed = in_range ga_sampled_at from to rows in
     sort_key ga_sampled_at (map (\<lambda>b. hd (sort_key (\<lambda>r. - ga_sampled_at r) (of_bucket ga_sampled_at res b bucketed)))
       (buckets ga_sampled_at res bucketed)))"

definition gauge_range ::
  "RepoError option \<Rightarrow> instant \<Rightarrow> instant \<Rightarrow> int \<Rightarrow> MempoolGaugeSampleRow list \<Rightarrow> RepoError + MempoolGaugeSampleRow list" where
  "gauge_range fault from to res rows =
    (case fault of
       Some e \<Rightarrow> Inl e
     | None \<Rightarrow> Inr (if res = NATIVE_RESOLUTION_SECS then range_native ga_sampled_at from to rows
         else gauge_range_bucketed from to res rows))"

definition gauge_fetch_range ::
  "(RepoError \<Rightarrow> string) \<Rightarrow> RepoError option \<Rightarrow> instant \<Rightarrow> instant option \<Rightarrow> instant option \<Rightarrow> MempoolGaugeSampleRow list \<Rightarrow>
    ApiError + int \<times> MempoolGaugeSampleRow list" where
  "gauge_fetch_range inner fault now from to rows =
    (let to' = (case to of Some t \<Rightarrow> t | None \<Rightarrow> now);
         from' = (case from of Some f \<Rightarrow> f | None \<Rightarrow> to' - DEFAULT_RANGE)
     in if from' \<ge> to' then Inl (BadRequest ''`from` must be earlier than `to`'')
        else let res = pick_resolution (to' - from') in
          (case gauge_range fault from' to' res rows of
             Inl e \<Rightarrow> Inl (api_error_of inner e) | Inr rs \<Rightarrow> Inr (res, rs)))"

datatype GaugeMetric = ClusterCount | ClusteredTxCount | MempoolTxCount | TotalVsize | TotalFee

fun metric_value :: "(int \<Rightarrow> int) \<Rightarrow> GaugeMetric \<Rightarrow> MempoolGaugeSampleRow \<Rightarrow> int" where
  "metric_value vb ClusterCount row = ga_cluster_count row"
| "metric_value vb ClusteredTxCount row = ga_clustered_tx_count row"
| "metric_value vb MempoolTxCount row = ga_mempool_tx_count row"
| "metric_value vb TotalVsize row = vsize_from_weight vb (ga_total_weight row)"
| "metric_value vb TotalFee row = ga_total_fee row"

record GaugeSeries =
  gse_metric :: GaugeMetric
  gse_resolution_secs :: int
  gse_points :: "(instant \<times> int) list"

definition metric_series ::
  "(RepoError \<Rightarrow> string) \<Rightarrow> (int \<Rightarrow> int) \<Rightarrow> RepoError option \<Rightarrow> instant \<Rightarrow> GaugeMetric \<Rightarrow> instant option \<Rightarrow> instant option \<Rightarrow>
    MempoolGaugeSampleRow list \<Rightarrow> ApiError + GaugeSeries" where
  "metric_series inner vb fault now metric from to rows =
    map_sum id (\<lambda>(res, rs). \<lparr>gse_metric = metric, gse_resolution_secs = res,
        gse_points = map (\<lambda>row. (ga_sampled_at row, metric_value vb metric row)) rs\<rparr>)
      (gauge_fetch_range inner fault now from to rows)"

section \<open>The sampler against the journal table\<close>

text \<open>The sampler beside the writers: time passes while rows and events are written, each less than
  the margin after the time it carries; a sample uses a clock reading \<open>now\<close> from before its queries.\<close>

record sampling =
  sy_now :: instant
  sy_db :: db
  sy_events :: "SystemEventRow list"
  sy_rows :: "MempoolCounterSampleRow list"

inductive sampler_step :: "sampling \<Rightarrow> sampling \<Rightarrow> bool" where
  passing_time: "sy_now s \<le> now' \<Longrightarrow> db_deltas d' = db_deltas (sy_db s) @ ds \<Longrightarrow>
    \<forall>r\<in>set ds. now' - SAFETY_MARGIN < dl_created_at r \<Longrightarrow>
    \<forall>e\<in>set evs. now' - SAFETY_MARGIN < se_created_at e \<Longrightarrow>
    sampler_step s (s\<lparr>sy_now := now', sy_db := d', sy_events := sy_events s @ evs\<rparr>)"
| sampling: "now \<le> sy_now s \<Longrightarrow>
    sampler_step s (s\<lparr>sy_rows := sample_counters fs interval now (sy_events s) (sy_db s) (sy_rows s)\<rparr>)"

definition restarted_in :: "SystemEventRow list \<Rightarrow> instant \<Rightarrow> instant \<Rightarrow> bool" where
  "restarted_in events from to \<longleftrightarrow>
    (\<exists>e\<in>set events. se_kind e = ServerStarted \<and> from < se_created_at e \<and> se_created_at e \<le> to)"

fun column :: "DeltaReason \<Rightarrow> MempoolCounterSampleRow \<Rightarrow> int option" where
  "column AddMempool r = cn_added_txs r"
| "column RemoveConfirmed r = cn_confirmed_txs r"
| "column RemoveEvicted r = cn_evicted_txs r"

lemma all_reasons: "(\<forall>reason. P reason) \<longleftrightarrow> P AddMempool \<and> P RemoveConfirmed \<and> P RemoveEvicted"
  by (metis DeltaReason.exhaust)

text \<open>The row of the window that starts at \<open>prev\<close> says what the table says of that window.\<close>

definition window_row :: "db \<Rightarrow> SystemEventRow list \<Rightarrow> instant \<Rightarrow> MempoolCounterSampleRow \<Rightarrow> bool" where
  "window_row d events prev r \<longleftrightarrow> cn_period_secs r = (cn_sampled_at r - prev) div 1000000000 \<and>
    (\<forall>reason. column reason r = (if restarted_in events prev (cn_sampled_at r) then None
       else Some (int (count_reason reason prev (cn_sampled_at r) d))))"

fun windows_ok :: "db \<Rightarrow> SystemEventRow list \<Rightarrow> instant \<Rightarrow> MempoolCounterSampleRow list \<Rightarrow> bool" where
  "windows_ok d events prev [] \<longleftrightarrow> True"
| "windows_ok d events prev (r # rs) \<longleftrightarrow>
    prev < cn_sampled_at r \<and> window_row d events prev r \<and> windows_ok d events (cn_sampled_at r) rs"

fun series_ok :: "db \<Rightarrow> SystemEventRow list \<Rightarrow> MempoolCounterSampleRow list \<Rightarrow> bool" where
  "series_ok d events [] \<longleftrightarrow> True"
| "series_ok d events (r # rs) \<longleftrightarrow> cn_added_txs r = None \<and> cn_confirmed_txs r = None \<and> cn_evicted_txs r = None \<and>
    windows_ok d events (cn_sampled_at r) rs"

definition sampling_inv :: "sampling \<Rightarrow> bool" where
  "sampling_inv s \<longleftrightarrow> series_ok (sy_db s) (sy_events s) (sy_rows s) \<and>
    (\<forall>r\<in>set (sy_rows s). cn_sampled_at r \<le> sy_now s - SAFETY_MARGIN)"

lemma count_reason_later:
  assumes "db_deltas d' = db_deltas d @ ds" "\<forall>r\<in>set ds. to < dl_created_at r"
  shows "count_reason reason from to d' = count_reason reason from to d"
  using assms by (auto simp: count_reason_def filter_empty_conv)

lemma restarted_in_later:
  assumes "\<forall>e\<in>set evs. to < se_created_at e"
  shows "restarted_in (events @ evs) from to = restarted_in events from to"
  using assms by (auto simp: restarted_in_def)

lemma windows_ok_later:
  assumes "db_deltas d' = db_deltas d @ ds" "\<forall>r\<in>set ds. L < dl_created_at r" "\<forall>e\<in>set evs. L < se_created_at e"
    "\<forall>r\<in>set rs. cn_sampled_at r \<le> L"
  shows "windows_ok d' (events @ evs) prev rs = windows_ok d events prev rs"
  using assms(4)
proof (induction rs arbitrary: prev)
  case (Cons r rs)
  have "\<forall>x\<in>set ds. cn_sampled_at r < dl_created_at x" "\<forall>e\<in>set evs. cn_sampled_at r < se_created_at e"
    using assms Cons.prems by fastforce+
  with Cons assms(1) show ?case by (simp add: window_row_def Let_def count_reason_later restarted_in_later)
qed simp

lemma series_ok_later:
  assumes "db_deltas d' = db_deltas d @ ds" "\<forall>r\<in>set ds. L < dl_created_at r" "\<forall>e\<in>set evs. L < se_created_at e"
    "\<forall>r\<in>set rs. cn_sampled_at r \<le> L"
  shows "series_ok d' (events @ evs) rs = series_ok d events rs"
  using assms by (cases rs) (simp_all add: windows_ok_later [OF assms(1-3)])

lemma windows_ok_snoc:
  "windows_ok d events prev (rs @ [r]) \<longleftrightarrow> windows_ok d events prev rs \<and>
    (let from = (if rs = [] then prev else cn_sampled_at (last rs)) in from < cn_sampled_at r \<and> window_row d events from r)"
  by (induction rs arbitrary: prev) auto

lemma windows_ok_bounds:
  assumes "windows_ok d events prev rs"
  shows "\<forall>r\<in>set rs. prev < cn_sampled_at r \<and> cn_sampled_at r \<le> cn_sampled_at (last rs)"
  using assms
proof (induction d events prev rs rule: windows_ok.induct)
  case (2 d events prev r rs)
  then show ?case by (cases "rs = []") (auto simp: less_imp_le intro: less_trans)
qed simp

lemma hd_sort_key:
  assumes "xs \<noteq> []"
  shows "hd (sort_key f xs) \<in> set xs" "x \<in> set xs \<Longrightarrow> f (hd (sort_key f xs)) \<le> f x"
proof -
  have ne: "sort_key f xs \<noteq> []" using assms by (metis set_empty set_sort)
  then show "hd (sort_key f xs) \<in> set xs" using hd_in_set by fastforce
  have "sorted (map f (sort_key f xs))" by simp
  with ne show "x \<in> set xs \<Longrightarrow> f (hd (sort_key f xs)) \<le> f x"
    by (cases "sort_key f xs") (auto, metis order_refl set_ConsD set_sort)
qed

lemma series_ok_last:
  assumes "series_ok d events rows" "r \<in> set rows"
  shows "cn_sampled_at r \<le> cn_sampled_at (last rows)"
proof -
  obtain a as where "rows = a # as" using assms(2) by (cases rows) auto
  then show ?thesis
    using assms windows_ok_bounds [of d events "cn_sampled_at a" as] by (cases "as = []") (auto simp: less_imp_le)
qed

lemma latest_of_series:
  assumes "series_ok d events rows" "rows \<noteq> []"
  shows "latest_sampled_at None rows = Inr (Some (cn_sampled_at (last rows)))"
proof -
  let ?h = "hd (sort_key (\<lambda>r. - cn_sampled_at r) rows)"
  have le: "\<forall>r\<in>set rows. cn_sampled_at r \<le> cn_sampled_at (last rows)"
    using series_ok_last [OF assms(1)] by blast
  have "cn_sampled_at (last rows) \<le> cn_sampled_at ?h"
    using hd_sort_key(2) [OF assms(2), of "last rows" "\<lambda>r. - cn_sampled_at r"] assms(2) by simp
  then have "cn_sampled_at ?h = cn_sampled_at (last rows)"
    using le hd_sort_key(1) [OF assms(2), of "\<lambda>r. - cn_sampled_at r"] by force
  moreover have "sort_key (\<lambda>r. - cn_sampled_at r) rows \<noteq> []" using assms(2) by (metis set_empty set_sort)
  ultimately show ?thesis by (auto simp: latest_sampled_at_def split: list.split)
qed

lemma sample_window_rows:
  assumes "from < to" "\<forall>r\<in>set rows. cn_sampled_at r < to"
  shows "snd (sample_window fs from to events d rows) = rows \<or>
    (\<exists>r. snd (sample_window fs from to events d rows) = rows @ [r] \<and> cn_sampled_at r = to \<and> window_row d events from r)"
proof -
  have new: "to \<notin> cn_sampled_at ` set rows" using assms(2) by force
  have period: "whole_seconds (to - from) = (to - from) div 1000000000" using assms(1) by (simp add: whole_seconds_def)
  have events: "exists_of_kind_in None ServerStarted from to events = Inr (restarted_in events from to)"
    by (simp add: exists_of_kind_in_def restarted_in_def)
  show ?thesis
  proof (cases "fa_events fs = None \<and> fa_insert fs = None \<and> (restarted_in events from to \<or> fa_counts fs = None)")
    case True
    then show ?thesis using new
      by (auto simp: sample_window_def Let_def events period counter_insert_def unmeasured_row_def window_row_def all_reasons
          count_deltas_in_def query_def)
  next
    case False
    then show ?thesis
      by (auto simp: sample_window_def Let_def events counter_insert_def count_deltas_in_def query_def exists_of_kind_in_def
          restarted_in_def split: option.split sum.split)
  qed
qed

lemma sample_counters_rows:
  assumes "series_ok d events rows" "\<forall>r\<in>set rows. cn_sampled_at r \<le> L" "now - SAFETY_MARGIN \<le> L"
  shows "series_ok d events (sample_counters fs interval now events d rows) \<and>
    (\<forall>r\<in>set (sample_counters fs interval now events d rows). cn_sampled_at r \<le> L)"
proof (cases "fa_cursor fs")
  case (Some e)
  then show ?thesis using assms by (simp add: sample_counters_def Let_def latest_sampled_at_def)
next
  case None
  show ?thesis
  proof (cases rows rule: rev_cases)
    case Nil
    with None show ?thesis using assms(3)
      by (auto simp: sample_counters_def Let_def latest_sampled_at_def counter_insert_def unmeasured_row_def split: option.split)
  next
    case (snoc rs r)
    let ?to = "now - SAFETY_MARGIN"
    have latest: "latest_sampled_at None rows = Inr (Some (cn_sampled_at (last rows)))"
      using latest_of_series [OF assms(1)] snoc by simp
    show ?thesis
    proof (cases "?to \<le> cn_sampled_at (last rows)")
      case True
      with assms show ?thesis by (simp add: sample_counters_def Let_def None latest)
    next
      case False
      have "\<forall>x\<in>set rows. cn_sampled_at x \<le> cn_sampled_at (last rows)"
        using series_ok_last [OF assms(1)] by blast
      then have "\<forall>x\<in>set rows. cn_sampled_at x < ?to" using False by fastforce
      from sample_window_rows [OF _ this, of "cn_sampled_at (last rows)" fs events d] False
      have "sample_counters fs interval now events d rows = rows \<or>
          (\<exists>r. sample_counters fs interval now events d rows = rows @ [r] \<and> cn_sampled_at r = ?to \<and>
            window_row d events (cn_sampled_at (last rows)) r)"
        by (simp add: sample_counters_def Let_def None latest)
      then show ?thesis
      proof (elim disjE exE conjE)
        fix x assume x: "sample_counters fs interval now events d rows = rows @ [x]" "cn_sampled_at x = ?to"
          "window_row d events (cn_sampled_at (last rows)) x"
        obtain a as where "rows = a # as" using snoc by (meson append_is_Nil_conv list.discI neq_Nil_conv)
        then show ?thesis using x False assms by (auto simp: windows_ok_snoc)
      qed (use assms in simp)
    qed
  qed
qed

lemma sampler_step_inv:
  assumes "sampler_step s s'" "sampling_inv s"
  shows "sampling_inv s'"
  using assms
proof (induction rule: sampler_step.induct)
  case (passing_time s now' d' ds evs)
  have le: "\<forall>r\<in>set (sy_rows s). cn_sampled_at r \<le> now' - SAFETY_MARGIN"
    using passing_time.hyps(1) passing_time.prems by (fastforce simp: sampling_inv_def)
  with series_ok_later [OF passing_time.hyps(2-4) this] passing_time.prems show ?case by (simp add: sampling_inv_def)
next
  case (sampling now s fs interval)
  have "now - SAFETY_MARGIN \<le> sy_now s - SAFETY_MARGIN" using sampling.hyps by simp
  from sample_counters_rows [OF _ _ this, of "sy_db s" "sy_events s" "sy_rows s" fs interval] sampling.prems
  show ?case by (simp add: sampling_inv_def)
qed

interpretation sampler: machine "\<lambda>s. sy_rows s = []" sampler_step sampling_inv
  by (unfold_locales, simp add: sampling_inv_def, rule sampler_step_inv)

text \<open>Adjacent windows add up.\<close>

definition measured :: "MempoolCounterSampleRow \<Rightarrow> bool" where
  "measured r \<longleftrightarrow> cn_added_txs r \<noteq> None \<and> cn_confirmed_txs r \<noteq> None \<and> cn_evicted_txs r \<noteq> None"

lemma measured_window:
  assumes "window_row d events prev r" "measured r"
  shows "column reason r = Some (int (count_reason reason prev (cn_sampled_at r) d))"
proof -
  have "column AddMempool r \<noteq> None" using assms(2) by (simp add: measured_def)
  with assms(1) show ?thesis by (auto simp: window_row_def split: if_splits)
qed

lemma windows_total:
  assumes "windows_ok d events prev rs" "list_all measured rs"
  shows "(\<Sum>r\<leftarrow>rs. the (column reason r)) =
    int (count_reason reason prev (if rs = [] then prev else cn_sampled_at (last rs)) d)"
  using assms
proof (induction d events prev rs rule: windows_ok.induct)
  case (1 d events prev)
  have "count_reason reason prev prev d = 0" by (simp add: count_reason_def filter_empty_conv)
  then show ?case by simp
next
  case (2 d events prev r rs)
  have "cn_sampled_at r \<le> (if rs = [] then cn_sampled_at r else cn_sampled_at (last rs))"
    using windows_ok_bounds [of d events "cn_sampled_at r" rs] 2 by (auto simp: less_imp_le)
  then show ?case
    using 2 measured_window [of d events prev r reason]
      count_reason_split [of prev "cn_sampled_at r" "if rs = [] then cn_sampled_at r else cn_sampled_at (last rs)" reason d]
    by (auto split: if_splits)
qed

text \<open>C36: The counter series counts every delta row once. As long as each row of \<open>mempool_deltas\<close> and
  each start event is written less than the safety margin after the time it carries, then whichever
  calls fail and whenever samples run: after the first, unmeasured row, each counter row covers the
  window from the row before it, is unmeasured exactly when the server started in that window, and
  otherwise holds the three counts of that window in the table as it is now, also after later
  writes. Over a stretch of measured rows the counts add up to those of the whole stretch.\<close>

theorem counter_series_exact:
  assumes "sampler_step\<^sup>*\<^sup>* s0 s" "sy_rows s0 = []"
  shows "series_ok (sy_db s) (sy_events s) (sy_rows s) \<and>
    (\<forall>first rest reason. sy_rows s = first # rest \<and> rest \<noteq> [] \<and> list_all measured rest \<longrightarrow>
      (\<Sum>r\<leftarrow>rest. the (column reason r)) =
        int (count_reason reason (cn_sampled_at first) (cn_sampled_at (last rest)) (sy_db s)))"
proof -
  have ok: "series_ok (sy_db s) (sy_events s) (sy_rows s)"
    using sampler.reached_inv [OF assms(2,1)] by (simp add: sampling_inv_def)
  moreover have "windows_ok (sy_db s) (sy_events s) (cn_sampled_at first) rest" if "sy_rows s = first # rest" for first rest
    using ok that by simp
  ultimately show ?thesis using windows_total by fastforce
qed

definition no_sample_faults :: sample_faults where
  "no_sample_faults = \<lparr>fa_cursor = None, fa_events = None, fa_counts = None, fa_insert = None\<rparr>"

definition sample_run :: "nat \<Rightarrow> sampling" where
  "sample_run n =
    (let s0 = \<lparr>sy_now = SAFETY_MARGIN, sy_db = sample_tx_table, sy_events = [], sy_rows = []\<rparr>;
         s1 = s0\<lparr>sy_rows := sample_counters no_sample_faults 60000000000 SAFETY_MARGIN [] sample_tx_table []\<rparr>;
         d = sample_tx_table\<lparr>db_deltas := [\<lparr>dl_txid = ''t'', dl_reason = AddMempool, dl_created_at = 150\<rparr>]\<rparr>;
         s2 = s1\<lparr>sy_now := SAFETY_MARGIN + 100, sy_db := d\<rparr>;
         s3 = s2\<lparr>sy_now := SAFETY_MARGIN + 200\<rparr>;
         s4 = s3\<lparr>sy_rows := sample_counters no_sample_faults 60000000000 (SAFETY_MARGIN + 200) [] d (sy_rows s3)\<rparr>
     in [s0, s1, s2, s3, s4] ! n)"

theorem counter_series_exact_witness:
  "sampler_step\<^sup>*\<^sup>* (sample_run 0) (sample_run 4) \<and>
   series_ok (sy_db (sample_run 4)) (sy_events (sample_run 4)) (sy_rows (sample_run 4)) \<and>
   map cn_added_txs (sy_rows (sample_run 4)) = [None, Some 1]"
proof -
  have "sampler_step (sample_run 0) (sample_run 1)"
    using sampler_step.sampling [of SAFETY_MARGIN "sample_run 0" no_sample_faults 60000000000] by (simp add: sample_run_def Let_def)
  moreover have "sampler_step (sample_run 1) (sample_run 2)"
    using sampler_step.passing_time [of "sample_run 1" "SAFETY_MARGIN + 100" "sy_db (sample_run 2)"
        "db_deltas (sy_db (sample_run 2))" "[]"]
    by (simp add: sample_run_def Let_def sample_tx_table_def)
  moreover have "sampler_step (sample_run 2) (sample_run 3)"
    using sampler_step.passing_time [of "sample_run 2" "SAFETY_MARGIN + 200" "sy_db (sample_run 2)" "[]" "[]"]
    by (simp add: sample_run_def Let_def)
  moreover have "sampler_step (sample_run 3) (sample_run 4)"
    using sampler_step.sampling [of "SAFETY_MARGIN + 200" "sample_run 3" no_sample_faults 60000000000]
    by (simp add: sample_run_def Let_def)
  ultimately have run: "sampler_step\<^sup>*\<^sup>* (sample_run 0) (sample_run 4)" by (meson converse_rtranclp_into_rtranclp rtranclp.rtrancl_refl)
  have rows: "map cn_added_txs (sy_rows (sample_run 4)) = [None, Some 1]"
    by (simp add: sample_run_def Let_def sample_counters_def sample_window_def latest_sampled_at_def counter_insert_def
        exists_of_kind_in_def count_deltas_in_def count_reason_def query_def unmeasured_row_def no_sample_faults_def)
  have "sy_rows (sample_run 0) = []" by (simp add: sample_run_def Let_def)
  from counter_series_exact [OF run this] run rows show ?thesis by simp
qed

section \<open>Reading the series\<close>

lemma sum_by_group:
  fixes f :: "'r \<Rightarrow> int"
  assumes "finite B" "\<forall>r\<in>set rows. g r \<in> B"
  shows "(\<Sum>b\<in>B. \<Sum>r\<leftarrow>filter (\<lambda>r. g r = b) rows. f r) = (\<Sum>r\<leftarrow>rows. f r)"
  using assms(2)
proof (induction rows)
  case (Cons r rows)
  have "(\<Sum>b\<in>B. \<Sum>x\<leftarrow>filter (\<lambda>x. g x = b) (r # rows). f x) =
      (\<Sum>b\<in>B. (if b = g r then f r else 0) + (\<Sum>x\<leftarrow>filter (\<lambda>x. g x = b) rows. f x))"
    by (rule sum.cong) auto
  also have "\<dots> = f r + (\<Sum>x\<leftarrow>rows. f x)"
    using Cons assms(1) by (simp add: sum.distrib)
  finally show ?case by simp
qed simp

lemma buckets_facts:
  "set (buckets at res rows) = (\<lambda>r. bucket res (at r)) ` set rows"
  "distinct (buckets at res rows)" "sorted (buckets at res rows)"
  by (simp_all add: buckets_def)

lemma buckets_sum:
  fixes f :: "'r \<Rightarrow> int"
  shows "(\<Sum>b\<leftarrow>buckets at res rows. \<Sum>r\<leftarrow>of_bucket at res b rows. f r) = (\<Sum>r\<leftarrow>rows. f r)"
proof -
  have "(\<Sum>b\<leftarrow>buckets at res rows. \<Sum>r\<leftarrow>of_bucket at res b rows. f r) =
      (\<Sum>b\<in>set (buckets at res rows). \<Sum>r\<leftarrow>filter (\<lambda>r. bucket res (at r) = b) rows. f r)"
    by (simp add: sum_list_distinct_conv_sum_set [OF buckets_facts(2)] of_bucket_def)
  also have "\<dots> = (\<Sum>r\<leftarrow>rows. f r)" by (rule sum_by_group) (simp_all add: buckets_facts(1))
  finally show ?thesis .
qed

lemma buckets_length:
  assumes "0 < res" "\<forall>r\<in>set rows. from \<le> at r \<and> at r \<le> to" "from \<le> to"
  shows "int (length (buckets at res rows)) \<le> to div (res * 1000000000) - from div (res * 1000000000) + 1"
proof -
  let ?R = "res * 1000000000"
  have "set (buckets at res rows) \<subseteq> {from div ?R..to div ?R}"
    using assms by (auto simp: buckets_facts(1) bucket_def zdiv_mono1)
  then have "length (buckets at res rows) \<le> card {from div ?R..to div ?R}"
    using card_mono [OF finite_atLeastAtMost_int] distinct_card [OF buckets_facts(2)] by metis
  moreover have "from div ?R \<le> to div ?R" using assms by (simp add: zdiv_mono1)
  ultimately show ?thesis by simp
qed

lemma div_less_int:
  fixes R :: int
  assumes "0 < R"
  shows "x div R < k \<longleftrightarrow> x < k * R"
proof
  assume "x div R < k"
  then have "(x div R + 1) * R \<le> k * R" using assms by (intro mult_right_mono) auto
  then have "x div R * R + R \<le> k * R" by (simp add: distrib_right)
  then show "x < k * R" using pos_mod_bound [OF assms, of x] div_mult_mod_eq [of x R] by linarith
next
  assume less: "x < k * R"
  show "x div R < k"
  proof (rule ccontr)
    assume "\<not> x div R < k"
    then have "k * R \<le> (x div R) * R" using assms by (intro mult_right_mono) auto
    then show False using less pos_mod_sign [OF assms, of x] div_mult_mod_eq [of x R] by linarith
  qed
qed

lemma div_spread:
  fixes R :: int
  assumes "0 < R" "to - from < n * R"
  shows "to div R - from div R \<le> n"
proof -
  have "from < (from div R + 1) * R" using div_less_int [OF assms(1), of "from" "from div R + 1"] by simp
  then have "to < (from div R + 1 + n) * R" using assms(2) by (simp add: distrib_right)
  then have "to div R < from div R + 1 + n" by (simp add: div_less_int [OF assms(1)])
  then show ?thesis by simp
qed

lemma find_least:
  "sorted xs \<Longrightarrow> find P xs = Some x \<Longrightarrow> x \<in> set xs \<and> P x \<and> (\<forall>r\<in>set xs. r < x \<longrightarrow> \<not> P r)"
  by (induction xs) (auto split: if_splits)

lemma pick_resolution_facts:
  assumes "0 \<le> span"
  shows "pick_resolution span \<in> set RESOLUTION_LADDER_SECS"
    and "r \<in> set RESOLUTION_LADDER_SECS \<Longrightarrow> r < pick_resolution span \<Longrightarrow> MAX_POINTS < whole_seconds span div r"
proof -
  let ?P = "\<lambda>res. whole_seconds span div res \<le> MAX_POINTS"
  have pick: "pick_resolution span =
      (case find ?P RESOLUTION_LADDER_SECS of Some res \<Rightarrow> res | None \<Rightarrow> last RESOLUTION_LADDER_SECS)"
  proof -
    have "\<not> whole_seconds span < 0" using assms by (simp add: whole_seconds_def pos_imp_zdiv_nonneg_iff not_less)
    then show ?thesis by (simp add: pick_resolution_def)
  qed
  have "sorted RESOLUTION_LADDER_SECS" by (simp add: RESOLUTION_LADDER_SECS_def NATIVE_RESOLUTION_SECS_def)
  note least = find_least [OF this]
  have "last RESOLUTION_LADDER_SECS \<in> set RESOLUTION_LADDER_SECS" by (simp add: RESOLUTION_LADDER_SECS_def)
  then show "pick_resolution span \<in> set RESOLUTION_LADDER_SECS"
  proof (cases "find ?P RESOLUTION_LADDER_SECS")
    case (Some res)
    then show ?thesis using least [OF Some] by (simp add: pick)
  qed (simp add: pick)
  show "MAX_POINTS < whole_seconds span div r"
    if "r \<in> set RESOLUTION_LADDER_SECS" "r < pick_resolution span"
  proof (cases "find ?P RESOLUTION_LADDER_SECS")
    case None
    then have "\<not> ?P r" using that(1) unfolding find_None_iff by blast
    then show ?thesis by simp
  next
    case (Some res)
    then have "pick_resolution span = res" by (simp add: pick)
    with least [OF Some] that have "\<not> ?P r" by blast
    then show ?thesis by simp
  qed
qed

lemma ladder_pos: "r \<in> set RESOLUTION_LADDER_SECS \<Longrightarrow> 0 < r"
  by (auto simp: RESOLUTION_LADDER_SECS_def NATIVE_RESOLUTION_SECS_def)

lemma buckets_cap:
  assumes "0 < res" "from < to" "whole_seconds (to - from) div res \<le> MAX_POINTS"
    "\<forall>r\<in>set rows. from \<le> at r \<and> at r \<le> to"
  shows "int (length (buckets at res rows)) \<le> MAX_POINTS + 2"
proof -
  have "(to - from) div (res * 1000000000) = whole_seconds (to - from) div res"
    using assms(1,2) zdiv_zmult2_eq [of res "to - from" 1000000000] by (simp add: whole_seconds_def mult.commute)
  then have "to - from < (MAX_POINTS + 1) * (res * 1000000000)"
    using assms(1,3) div_less_int [of "res * 1000000000" "to - from" "MAX_POINTS + 1"] by simp
  from div_spread [OF _ this] buckets_length [OF assms(1,4)] assms(1,2) show ?thesis by simp
qed

lemma bucketed_points:
  "length (counter_range_bucketed from to res rows) = length (buckets cn_sampled_at res (in_range cn_sampled_at from to rows))"
  by (simp add: counter_range_bucketed_def Let_def)

text \<open>Counts summed into buckets keep their total, and stay measured.\<close>

lemma bucketed_sum:
  assumes "list_all measured (in_range cn_sampled_at from to rows)"
  shows "list_all measured (counter_range_bucketed from to res rows)"
    and "(\<Sum>r\<leftarrow>counter_range_bucketed from to res rows. the (column reason r)) =
      (\<Sum>r\<leftarrow>in_range cn_sampled_at from to rows. the (column reason r))"
proof -
  let ?rows = "in_range cn_sampled_at from to rows"
  have total: "bucket_total col (of_bucket cn_sampled_at res b ?rows) =
      Some (\<Sum>r\<leftarrow>of_bucket cn_sampled_at res b ?rows. the (col r))" for b col
    using assms by (auto simp: bucket_total_def any_null_def of_bucket_def list_all_iff measured_def)
  then show "list_all measured (counter_range_bucketed from to res rows)"
    by (simp add: counter_range_bucketed_def Let_def list_all_iff measured_def)
  have "(\<Sum>r\<leftarrow>counter_range_bucketed from to res rows. the (column reason r)) =
      (\<Sum>b\<leftarrow>buckets cn_sampled_at res ?rows. \<Sum>r\<leftarrow>of_bucket cn_sampled_at res b ?rows. the (column reason r))"
    using total by (cases reason) (simp_all add: counter_range_bucketed_def Let_def comp_def)
  then show "(\<Sum>r\<leftarrow>counter_range_bucketed from to res rows. the (column reason r)) = (\<Sum>r\<leftarrow>?rows. the (column reason r))"
    by (simp add: buckets_sum)
qed

lemma native_sum:
  "(\<Sum>r\<leftarrow>range_native at from to rows. f r :: int) = (\<Sum>r\<leftarrow>in_range at from to rows. f r)"
  unfolding range_native_def by (metis mset_map mset_sort sum_mset_sum_list)

text \<open>The resolution of a counter read bounds its size and loses no count. A read of a range that is
  not empty is at the smallest rung of the ladder that fits the range, or at the widest; bucketed at a
  rung that fits it has at most two points more than \<open>MAX_POINTS\<close>; and where every stored row in the
  range is measured, so is every point, and the counts of the points add up to those of the rows.\<close>

theorem counter_read_faithful:
  assumes "counter_fetch_range inner fault now (Some from) (Some to) rows = Inr (res, points)"
  shows "from < to \<and> res \<in> set RESOLUTION_LADDER_SECS \<and>
    (\<forall>r\<in>set RESOLUTION_LADDER_SECS. r < res \<longrightarrow> MAX_POINTS < whole_seconds (to - from) div r) \<and>
    (res \<noteq> NATIVE_RESOLUTION_SECS \<and> whole_seconds (to - from) div res \<le> MAX_POINTS \<longrightarrow>
      int (length points) \<le> MAX_POINTS + 2) \<and>
    (list_all measured (in_range cn_sampled_at from to rows) \<longrightarrow> list_all measured points \<and>
      (\<forall>reason. (\<Sum>r\<leftarrow>points. the (column reason r)) =
        (\<Sum>r\<leftarrow>in_range cn_sampled_at from to rows. the (column reason r))))"
proof -
  have lt: "from < to" and res: "res = pick_resolution (to - from)" and ok: "fault = None"
    and points: "points = (if res = NATIVE_RESOLUTION_SECS then range_native cn_sampled_at from to rows
      else counter_range_bucketed from to res rows)"
    using assms by (auto simp: counter_fetch_range_def counter_range_def Let_def split: if_splits option.splits sum.splits)
  have rung: "res \<in> set RESOLUTION_LADDER_SECS" unfolding res using lt by (intro pick_resolution_facts(1)) simp
  have within: "\<forall>r\<in>set (in_range cn_sampled_at from to rows). from \<le> cn_sampled_at r \<and> cn_sampled_at r \<le> to"
    by (simp add: in_range_def)
  have cap: "int (length points) \<le> MAX_POINTS + 2"
    if "res \<noteq> NATIVE_RESOLUTION_SECS" "whole_seconds (to - from) div res \<le> MAX_POINTS"
    using buckets_cap [OF ladder_pos [OF rung] lt that(2) within] that(1) by (simp add: points bucketed_points)
  have native: "list_all measured (in_range cn_sampled_at from to rows) \<Longrightarrow>
      list_all measured (range_native cn_sampled_at from to rows)"
    by (simp add: range_native_def list_all_iff)
  have sums: "list_all measured points \<and> (\<forall>reason. (\<Sum>r\<leftarrow>points. the (column reason r)) =
        (\<Sum>r\<leftarrow>in_range cn_sampled_at from to rows. the (column reason r)))"
    if "list_all measured (in_range cn_sampled_at from to rows)"
    unfolding points using that native bucketed_sum [OF that] by (simp add: native_sum)
  have small: "\<forall>r\<in>set RESOLUTION_LADDER_SECS. r < res \<longrightarrow> MAX_POINTS < whole_seconds (to - from) div r"
    using pick_resolution_facts(2) [of "to - from"] lt unfolding res by simp
  show ?thesis using lt rung small cap sums by blast
qed

definition two_samples :: "MempoolCounterSampleRow list" where
  "two_samples = map (\<lambda>(t, n). \<lparr>cn_sampled_at = t, cn_period_secs = 60, cn_added_txs = Some n,
     cn_confirmed_txs = Some 0, cn_evicted_txs = Some 0\<rparr>) [(60000000000, 3), (120000000000, 4)]"

theorem counter_read_faithful_witness:
  "\<exists>points. counter_fetch_range (\<lambda>_. []) None 0 (Some 0) (Some 259200000000000) two_samples = Inr (300, points) \<and>
     int (length points) \<le> MAX_POINTS + 2 \<and> (\<Sum>r\<leftarrow>points. the (column AddMempool r)) = 7"
proof -
  have "pick_resolution 259200000000000 = 300"
    by (simp add: pick_resolution_def whole_seconds_def RESOLUTION_LADDER_SECS_def NATIVE_RESOLUTION_SECS_def MAX_POINTS_def)
  then obtain points where
    points: "counter_fetch_range (\<lambda>_. []) None 0 (Some 0) (Some 259200000000000) two_samples = Inr (300, points)"
    by (simp add: counter_fetch_range_def counter_range_def Let_def)
  have rows: "in_range cn_sampled_at 0 259200000000000 two_samples = two_samples" by (simp add: in_range_def two_samples_def)
  have "list_all measured two_samples" "(\<Sum>r\<leftarrow>two_samples. the (column AddMempool r)) = 7"
    by (simp_all add: two_samples_def measured_def)
  with counter_read_faithful [OF points] rows
  have "int (length points) \<le> MAX_POINTS + 2" "(\<Sum>r\<leftarrow>points. the (column AddMempool r)) = 7"
    by (simp_all add: NATIVE_RESOLUTION_SECS_def whole_seconds_def MAX_POINTS_def del: column.simps)
  with points show ?thesis by blast
qed

text \<open>The cap of \<open>MAX_POINTS\<close> is not met: a range can touch two buckets more.\<close>

theorem counter_read_over_cap:
  "\<exists>rows points. counter_fetch_range inner None now (Some 299999999999) (Some 600599999999998) rows = Inr (300, points) \<and>
     int (length points) = MAX_POINTS + 2"
proof -
  define rows where "rows = map (\<lambda>t. unmeasured_row t 60) (299999999999 # map (\<lambda>i. i * 300000000000) [1..2001])"
  have "pick_resolution (600599999999998 - 299999999999) = 300"
    by (simp add: pick_resolution_def whole_seconds_def RESOLUTION_LADDER_SECS_def NATIVE_RESOLUTION_SECS_def MAX_POINTS_def)
  then have read: "counter_fetch_range inner None now (Some 299999999999) (Some 600599999999998) rows =
      Inr (300, counter_range_bucketed 299999999999 600599999999998 300 rows)"
    by (simp add: counter_fetch_range_def counter_range_def NATIVE_RESOLUTION_SECS_def)
  have all: "in_range cn_sampled_at 299999999999 600599999999998 rows = rows"
    by (auto simp: in_range_def rows_def unmeasured_row_def filter_id_conv)
  have "set (buckets cn_sampled_at 300 rows) = insert 0 ((\<lambda>i. i) ` {1..2001})"
    by (simp add: buckets_facts rows_def unmeasured_row_def bucket_def image_image)
  also have "\<dots> = {0..2001}" by auto
  finally have "length (buckets cn_sampled_at 300 rows) = card {0..2001::int}"
    using distinct_card [OF buckets_facts(2)] by metis
  then have "int (length (counter_range_bucketed 299999999999 600599999999998 300 rows)) = MAX_POINTS + 2"
    by (simp add: bucketed_points all MAX_POINTS_def)
  with read show ?thesis by blast
qed

text \<open>Every point of a bucketed gauge read is a stored row of the range, the latest of its bucket, and
  every stored row of the range has its bucket's point.\<close>

theorem gauge_points_are_rows:
  shows "p \<in> set (gauge_range_bucketed from to res rows) \<Longrightarrow>
      p \<in> set (in_range ga_sampled_at from to rows) \<and>
      (\<forall>r\<in>set (in_range ga_sampled_at from to rows).
        bucket res (ga_sampled_at r) = bucket res (ga_sampled_at p) \<longrightarrow> ga_sampled_at r \<le> ga_sampled_at p)"
    and "r \<in> set (in_range ga_sampled_at from to rows) \<Longrightarrow>
      \<exists>p\<in>set (gauge_range_bucketed from to res rows). bucket res (ga_sampled_at p) = bucket res (ga_sampled_at r)"
    and "sorted (map ga_sampled_at (gauge_range_bucketed from to res rows))"
proof -
  let ?rows = "in_range ga_sampled_at from to rows"
  let ?top = "\<lambda>b. hd (sort_key (\<lambda>r. - ga_sampled_at r) (of_bucket ga_sampled_at res b ?rows))"
  have points: "set (gauge_range_bucketed from to res rows) = ?top ` (\<lambda>r. bucket res (ga_sampled_at r)) ` set ?rows"
    by (simp add: gauge_range_bucketed_def Let_def buckets_facts)
  have top: "?top b \<in> set ?rows \<and> bucket res (ga_sampled_at (?top b)) = b \<and>
      (\<forall>r\<in>set ?rows. bucket res (ga_sampled_at r) = b \<longrightarrow> ga_sampled_at r \<le> ga_sampled_at (?top b))"
    if "b \<in> (\<lambda>r. bucket res (ga_sampled_at r)) ` set ?rows" for b
  proof -
    have ne: "of_bucket ga_sampled_at res b ?rows \<noteq> []" using that by (auto simp: of_bucket_def filter_empty_conv)
    from hd_sort_key(1) [OF this, of "\<lambda>r. - ga_sampled_at r"] hd_sort_key(2) [OF this, of _ "\<lambda>r. - ga_sampled_at r"]
    show ?thesis by (auto simp: of_bucket_def)
  qed
  show "p \<in> set (gauge_range_bucketed from to res rows) \<Longrightarrow> p \<in> set ?rows \<and>
      (\<forall>r\<in>set ?rows. bucket res (ga_sampled_at r) = bucket res (ga_sampled_at p) \<longrightarrow> ga_sampled_at r \<le> ga_sampled_at p)"
    using top unfolding points by (elim imageE) (metis (no_types, lifting) imageI)
  show "r \<in> set ?rows \<Longrightarrow> \<exists>p\<in>set (gauge_range_bucketed from to res rows). bucket res (ga_sampled_at p) = bucket res (ga_sampled_at r)"
    using top unfolding points by blast
  show "sorted (map ga_sampled_at (gauge_range_bucketed from to res rows))"
    by (simp add: gauge_range_bucketed_def Let_def)
qed

end
