(* ===== verification/Watchers.thy ===== *)
theory Watchers
  imports Events Ledger
begin

text \<open>
  The observer: its watchers (\<open>observer/src/watchers\<close>) and the retrievers the services ask
  (\<open>observer/src/retrievers\<close>, \<open>observer/src/clients/rpc_client.rs\<close>). A watcher's run is the list of its
  polls' answers; sleeping, logging and metrics are left out, and an event that is published is an
  element of the result (none of these events fails to serialise).
\<close>

section \<open>Watchers that poll\<close>

text \<open>\<open>poll_once\<close> of an RPC watcher with its \<open>watch\<close> and \<open>to_event\<close>: what it publishes, and its next
  state.\<close>

definition poll_once ::
  "('s \<Rightarrow> 'a \<Rightarrow> (ObserverError + 'r option) \<times> 's) \<Rightarrow> ('s \<Rightarrow> 'r \<Rightarrow> 'e) \<Rightarrow> 's \<Rightarrow> 'a \<Rightarrow> 'e list \<times> 's" where
  "poll_once watch to_event s answer =
    (case watch s answer of
       (Inr (Some response), s') \<Rightarrow> ([to_event s' response], s')
     | (Inr None, s') \<Rightarrow> ([], s')
     | (Inl e, s') \<Rightarrow> ([], s'))"

fun poll_run ::
  "('s \<Rightarrow> 'a \<Rightarrow> (ObserverError + 'r option) \<times> 's) \<Rightarrow> ('s \<Rightarrow> 'r \<Rightarrow> 'e) \<Rightarrow> 's \<Rightarrow> 'a list \<Rightarrow> 'e list \<times> 's" where
  "poll_run watch to_event s [] = ([], s)"
| "poll_run watch to_event s (a # as) =
    (case poll_once watch to_event s a of (es, s1) \<Rightarrow>
      (case poll_run watch to_event s1 as of (es', s2) \<Rightarrow> (es @ es', s2)))"

text \<open>The status watcher.\<close>

definition node_status_unreachable :: "ObserverError \<Rightarrow> NodeStatusEvent" where
  "node_status_unreachable e = Unreachable (observer_error_display e)"

definition watch_status ::
  "bool option \<Rightarrow> (ObserverError + GetBlockchainInfoModel) \<Rightarrow> (ObserverError + NodeStatusEvent option) \<times> bool option" where
  "watch_status last_reachable answer =
    (case (case answer of Inr info \<Rightarrow> (True, node_status_reachable info) | Inl e \<Rightarrow> (False, node_status_unreachable e)) of
       (reachable, event) \<Rightarrow>
         if last_reachable = Some reachable then (Inr None, last_reachable)
         else (Inr (Some event), Some reachable))"

text \<open>The feerate diagram watcher: the tracker's points and the shared snapshot.\<close>

record MempoolFeerateDiagram =
  fd_sampled_at :: "instant option"
  fd_points :: "FeerateDiagramPoint list"

record diagram_watcher =
  fw_last_points :: "FeerateDiagramPoint list"
  fw_snapshot :: MempoolFeerateDiagram

text \<open>The shared snapshot behind its lock: the last diagram stored, at first an unsampled empty one.\<close>

definition diagram_default :: MempoolFeerateDiagram where
  "diagram_default = \<lparr>fd_sampled_at = None, fd_points = []\<rparr>"

definition diagram_store :: "MempoolFeerateDiagram \<Rightarrow> MempoolFeerateDiagram \<Rightarrow> MempoolFeerateDiagram" where
  "diagram_store diagram snapshot = diagram"

definition diagram_get :: "MempoolFeerateDiagram \<Rightarrow> MempoolFeerateDiagram" where
  "diagram_get snapshot = snapshot"

definition diagram_len :: "MempoolFeerateDiagram \<Rightarrow> nat" where
  "diagram_len snapshot = length (fd_points snapshot)"

definition diagram_is_empty :: "MempoolFeerateDiagram \<Rightarrow> bool" where
  "diagram_is_empty snapshot \<longleftrightarrow> diagram_len snapshot = 0"

definition tracker_update :: "FeerateDiagramPoint list \<Rightarrow> FeerateDiagramPoint list \<Rightarrow> bool \<times> FeerateDiagramPoint list" where
  "tracker_update last_points points = (if last_points = points then (False, last_points) else (True, points))"

definition diagram_record :: "instant \<Rightarrow> FeerateDiagramPoint list \<Rightarrow> diagram_watcher \<Rightarrow> bool \<times> diagram_watcher" where
  "diagram_record now points w =
    (case tracker_update (fw_last_points w) points of
       (changed, last_points) \<Rightarrow>
         (changed, \<lparr>fw_last_points = last_points,
            fw_snapshot = diagram_store \<lparr>fd_sampled_at = Some now, fd_points = points\<rparr> (fw_snapshot w)\<rparr>))"

text \<open>An answer is the poll's points, or what made it fail, with the time at which it is stored.\<close>

definition watch_diagram ::
  "diagram_watcher \<Rightarrow> (ObserverError + FeerateDiagramPoint list) \<times> instant \<Rightarrow> (ObserverError + unit option) \<times> diagram_watcher" where
  "watch_diagram w answer =
    (case answer of
       (Inl e, now) \<Rightarrow> (Inl e, w)
     | (Inr points, now) \<Rightarrow>
         (case diagram_record now points w of (changed, w') \<Rightarrow> (Inr (if changed then Some () else None), w')))"

definition diagram_to_event :: "diagram_watcher \<Rightarrow> unit \<Rightarrow> MempoolFeerateDiagram" where
  "diagram_to_event w response = fw_snapshot w"

definition diagram_watcher_new :: diagram_watcher where
  "diagram_watcher_new = \<lparr>fw_last_points = [], fw_snapshot = diagram_default\<rparr>"

text \<open>The mempool watcher hands the ledger what the node answers.\<close>

definition mempool_poll ::
  "(txid set \<Rightarrow> txid list) \<Rightarrow> clock \<Rightarrow> (ObserverError + txid list) \<Rightarrow> Inner \<Rightarrow> Inner" where
  "mempool_poll it clk answer ledger =
    (case answer of Inr response \<Rightarrow> submit_authoritative it clk (set response) ledger | Inl e \<Rightarrow> ledger)"

section \<open>The block watcher\<close>

datatype zmq_message = HashBlock string | OtherMessage string
datatype socket_item = SocketMessage zmq_message | SocketEvent | DecodeError

record BlockConnectedEvent =
  bc_hash :: string

definition handle_message :: "zmq_message \<Rightarrow> ObserverError + BlockConnectedEvent" where
  "handle_message msg =
    (case msg of
       HashBlock hash \<Rightarrow> Inr \<lparr>bc_hash = hash\<rparr>
     | OtherMessage shown \<Rightarrow> Inl (InvalidZmqMessage (''unexpected ZMQ message type: '' @ shown)))"

definition handle_one :: "zmq_message \<Rightarrow> BlockConnectedEvent list" where
  "handle_one msg = (case handle_message msg of Inr event \<Rightarrow> [event] | Inl e \<Rightarrow> [])"

text \<open>One subscription: a failed one is retried, a stream is read until it ends.\<close>

fun read_stream :: "socket_item list \<Rightarrow> BlockConnectedEvent list" where
  "read_stream [] = []"
| "read_stream (SocketMessage msg # rest) = handle_one msg @ read_stream rest"
| "read_stream (SocketEvent # rest) = read_stream rest"
| "read_stream (DecodeError # rest) = read_stream rest"

fun zmq_run :: "(ObserverError + socket_item list) list \<Rightarrow> BlockConnectedEvent list" where
  "zmq_run [] = []"
| "zmq_run (Inl e # rest) = zmq_run rest"
| "zmq_run (Inr stream # rest) = read_stream stream @ zmq_run rest"

section \<open>Retrievers\<close>

text \<open>The call of a client runs on a blocking task: the task may die (\<open>Inl\<close>) or the call may fail.\<close>

definition rpc_call :: "(string + (string + 'a)) \<Rightarrow> ObserverError + 'a" where
  "rpc_call joined =
    (case joined of
       Inr (Inr response) \<Rightarrow> Inr response
     | Inr (Inl e) \<Rightarrow> Inl (FailedToFetch e)
     | Inl e \<Rightarrow> Inl (FailedToFetch e))"

fun contains :: "string \<Rightarrow> string \<Rightarrow> bool" where
  "contains pat [] \<longleftrightarrow> pat = []"
| "contains pat (c # cs) \<longleftrightarrow> take (length pat) (c # cs) = pat \<or> contains pat cs"

definition not_found_as_missing :: "ObserverError \<Rightarrow> string \<Rightarrow> ObserverError" where
  "not_found_as_missing e message =
    (if contains message (observer_error_display e) then TxNotFoundInMempool (observer_error_display e) else e)"

text \<open>Parsing a txid and turning an answer into the library's model are the library's.\<close>

definition parse_txid :: "(string \<Rightarrow> string + 't) \<Rightarrow> string \<Rightarrow> ObserverError + 't" where
  "parse_txid parse txid = map_sum InvalidParams id (parse txid)"

definition get_raw_transaction ::
  "(string \<Rightarrow> string + 't) \<Rightarrow> (int \<Rightarrow> instant option) \<Rightarrow> ('t \<Rightarrow> string + (string + LibRawTransaction)) \<Rightarrow> string \<Rightarrow>
    ObserverError + GetRawTransactionModel" where
  "get_raw_transaction parse from_unix node txid =
    (case parse_txid parse txid of
       Inl e \<Rightarrow> Inl e
     | Inr t \<Rightarrow> map_sum (\<lambda>e. not_found_as_missing e ''No such mempool transaction'') (raw_transaction_from from_unix)
         (rpc_call (node t)))"

definition get_mempool_entry ::
  "(string \<Rightarrow> string + 't) \<Rightarrow> ('t \<Rightarrow> txid) \<Rightarrow> ('r \<Rightarrow> string + LibMempoolEntry) \<Rightarrow> ('t \<Rightarrow> string + (string + 'r)) \<Rightarrow> string \<Rightarrow>
    ObserverError + MempoolEntrySummary" where
  "get_mempool_entry parse print into_model node txid =
    (case parse_txid parse txid of
       Inl e \<Rightarrow> Inl e
     | Inr t \<Rightarrow>
         (case map_sum (\<lambda>e. not_found_as_missing e ''Transaction not in mempool'') id (rpc_call (node t)) of
            Inl e \<Rightarrow> Inl e
          | Inr response \<Rightarrow> map_sum FailedToFetch (entry_summary_new (print t)) (into_model response)))"

definition get_mempool_cluster ::
  "(string \<Rightarrow> string + 't) \<Rightarrow> ('r \<Rightarrow> string + MempoolCluster) \<Rightarrow> ('t \<Rightarrow> string + (string + 'r)) \<Rightarrow> string \<Rightarrow>
    ObserverError + GetMempoolClusterModel" where
  "get_mempool_cluster parse into_model node txid =
    (case parse_txid parse txid of
       Inl e \<Rightarrow> Inl e
     | Inr t \<Rightarrow>
         (case rpc_call (node t) of
            Inl e \<Rightarrow> if contains ''Transaction not in mempool'' (observer_error_display e)
              then Inl (TxNotFoundInMempool (observer_error_display e)) else Inl (ObserverOther (observer_error_display e))
          | Inr response \<Rightarrow> map_sum FailedToFetch id (cluster_try_from into_model response)))"

definition get_mempool_txids :: "('r \<Rightarrow> string + txid list) \<Rightarrow> string + (string + 'r) \<Rightarrow> ObserverError + txid set" where
  "get_mempool_txids into_model node =
    (case rpc_call node of Inl e \<Rightarrow> Inl e | Inr response \<Rightarrow> map_sum FailedToFetch set (into_model response))"

definition get_raw_mempool_verbose ::
  "('r \<Rightarrow> string + (txid \<times> LibMempoolEntry) list) \<Rightarrow> string + (string + 'r) \<Rightarrow> ObserverError + MempoolEntrySummary list" where
  "get_raw_mempool_verbose into_model node =
    (case rpc_call node of Inl e \<Rightarrow> Inl e
     | Inr response \<Rightarrow> map_sum FailedToFetch raw_mempool_from (into_model response))"

definition get_block ::
  "(string \<Rightarrow> string + 'h) \<Rightarrow> (f64 \<Rightarrow> int option) \<Rightarrow> (int \<Rightarrow> instant option) \<Rightarrow> instant \<Rightarrow> ('h \<Rightarrow> string + (string + LibBlock)) \<Rightarrow>
    string \<Rightarrow> ObserverError + GetBlockModel" where
  "get_block parse from_btc from_unix now node hash =
    (case parse hash of
       Inl e \<Rightarrow> Inl (InvalidParams e)
     | Inr h \<Rightarrow> map_sum id (block_from from_btc from_unix now) (rpc_call (node h)))"

definition get_tip_height :: "string + (string + int) \<Rightarrow> ObserverError + int" where
  "get_tip_height node = map_sum id i64_of (rpc_call node)"

definition get_block_hash :: "(int \<Rightarrow> string + (string + string)) \<Rightarrow> int \<Rightarrow> ObserverError + string" where
  "get_block_hash node height = rpc_call (node height)"

definition get_mempool_info :: "string + (string + bool) \<Rightarrow> ObserverError + GetMempoolInfoModel" where
  "get_mempool_info node = map_sum id (\<lambda>loaded. \<lparr>mi_loaded = loaded\<rparr>) (rpc_call node)"

definition get_blockchain_info ::
  "string + (string + int \<times> int \<times> f64 \<times> bool) \<Rightarrow> ObserverError + GetBlockchainInfoModel" where
  "get_blockchain_info node =
    map_sum id (\<lambda>(blocks, headers, progress, ibd). \<lparr>bi_blocks = blocks, bi_headers = headers,
      bi_verification_progress = progress, bi_initial_block_download = ibd\<rparr>) (rpc_call node)"

definition get_network_info ::
  "('r \<Rightarrow> string + int \<times> string) \<Rightarrow> string + (string + 'r) \<Rightarrow> ObserverError + GetNetworkInfoModel" where
  "get_network_info into_model node =
    (case rpc_call node of Inl e \<Rightarrow> Inl e
     | Inr info \<Rightarrow> map_sum ObserverOther (\<lambda>(version, subversion). \<lparr>ni_version = version, ni_subversion = subversion\<rparr>)
         (into_model info))"

section \<open>What a watcher that reports changes publishes\<close>

fun changes_from :: "'k option \<Rightarrow> 'k list \<Rightarrow> 'k list" where
  "changes_from prev [] = []"
| "changes_from prev (k # ks) = (if prev = Some k then changes_from prev ks else k # changes_from (Some k) ks)"

lemma changes_from_adj:
  "changes_from None ks = remdups_adj ks"
  "k # changes_from (Some k) ks = remdups_adj (k # ks)"
  by (induction ks arbitrary: k) auto

locale change_watcher =
  fixes watch :: "'s \<Rightarrow> 'a \<Rightarrow> (ObserverError + 'r option) \<times> 's" and to_event :: "'s \<Rightarrow> 'r \<Rightarrow> 'e"
    and key :: "'a \<Rightarrow> 'k option" and seen :: "'s \<Rightarrow> 'k option" and event_key :: "'e \<Rightarrow> 'k"
  assumes failed: "key a = None \<Longrightarrow> (\<exists>e. fst (watch s a) = Inl e) \<and> seen (snd (watch s a)) = seen s"
    and unchanged: "key a = Some k \<Longrightarrow> seen s = Some k \<Longrightarrow> fst (watch s a) = Inr None \<and> seen (snd (watch s a)) = Some k"
    and changed: "key a = Some k \<Longrightarrow> seen s \<noteq> Some k \<Longrightarrow>
      (\<exists>r. fst (watch s a) = Inr (Some r) \<and> event_key (to_event (snd (watch s a)) r) = k) \<and> seen (snd (watch s a)) = Some k"
begin

lemma publishes_changes:
  "map event_key (fst (poll_run watch to_event s as)) = changes_from (seen s) (List.map_filter key as)"
proof (induction as arbitrary: s)
  case (Cons a as)
  obtain x s' where w: "watch s a = (x, s')" by (rule prod.exhaust)
  show ?case
  proof (cases "key a")
    case None
    with failed [OF None, of s] Cons [of s'] w show ?thesis
      by (auto simp: poll_once_def List.map_filter_def split: prod.split)
  next
    case (Some k)
    with unchanged [OF Some, of s] changed [OF Some, of s] Cons [of s'] w show ?thesis
      by (cases "seen s = Some k") (auto simp: poll_once_def List.map_filter_def split: prod.split)
  qed
qed (simp add: List.map_filter_def)

end

definition status_key :: "(ObserverError + GetBlockchainInfoModel) \<Rightarrow> Reachability" where
  "status_key answer = (case answer of Inr info \<Rightarrow> IsReachable | Inl e \<Rightarrow> IsUnreachable)"

definition status_seen :: "bool option \<Rightarrow> Reachability option" where
  "status_seen s = map_option (\<lambda>reachable. if reachable then IsReachable else IsUnreachable) s"

interpretation status: change_watcher watch_status "\<lambda>_ r. r" "\<lambda>a. Some (status_key a)" status_seen observed
  by unfold_locales (auto simp: watch_status_def status_key_def status_seen_def node_status_reachable_def
      node_status_unreachable_def split: sum.splits if_splits)

interpretation diagram: change_watcher watch_diagram diagram_to_event
    "\<lambda>a. case fst a of Inr points \<Rightarrow> Some points | Inl e \<Rightarrow> None" "\<lambda>w. Some (fw_last_points w)" fd_points
  by unfold_locales (auto simp: watch_diagram_def diagram_record_def diagram_store_def tracker_update_def diagram_to_event_def
      split: sum.splits prod.splits if_splits)

text \<open>The lifecycle log tells the node's history. Over any sequence of polls, the status watcher
  publishes the first report of each run of equally reachable polls, and the log the service writes
  from those reports, when no insert fails, has exactly one connected or disconnected row for each
  run, in order.\<close>

theorem node_history_logged:
  assumes "no_event_faults env"
  shows "map observed (fst (poll_run watch_status (\<lambda>_ r. r) None answers)) = remdups_adj (map status_key answers) \<and>
    conn_log (fold (consume_status env) (fst (poll_run watch_status (\<lambda>_ r. r) None answers)) fresh_health) =
      remdups_adj (map status_key answers)"
proof -
  have keys: "List.map_filter (\<lambda>a. Some (status_key a)) answers = map status_key answers"
    by (simp add: List.map_filter_def comp_def)
  have published: "map observed (fst (poll_run watch_status (\<lambda>_ r. r) None answers)) = remdups_adj (map status_key answers)"
    using status.publishes_changes [of None answers] by (simp add: keys status_seen_def changes_from_adj)
  have "hs_last fresh_health = Unknown" "conn_log fresh_health = []"
    by (simp_all add: fresh_health_def conn_log_def List.map_filter_def)
  moreover have "remdups_adj (remdups_adj xs) = remdups_adj xs" for xs :: "Reachability list"
    using distinct_adj_altdef distinct_adj_remdups_adj by blast
  ultimately show ?thesis using connection_log_is_history [OF assms] published by simp
qed

theorem node_history_logged_witness:
  "conn_log (fold (consume_status sample_health_env)
     (fst (poll_run watch_status (\<lambda>_ r. r) None [Inl (FailedToConnect ''a''), Inl (FailedToConnect ''b''),
        Inr sample_chain_info, Inr sample_chain_info, Inl (FailedToConnect ''c'')])) fresh_health) =
   [IsUnreachable, IsReachable, IsUnreachable]"
proof -
  have "no_event_faults sample_health_env" by (simp add: no_event_faults_def sample_health_env_def)
  from node_history_logged [OF this, of "[Inl (FailedToConnect ''a''), Inl (FailedToConnect ''b''),
      Inr sample_chain_info, Inr sample_chain_info, Inl (FailedToConnect ''c'')]"]
  show ?thesis by (simp add: status_key_def)
qed

text \<open>The diagram is published when it differs from the last good one, starting from the empty one;
  the stored snapshot is the last good poll's.\<close>

theorem diagram_published_on_change:
  "map fd_points (fst (poll_run watch_diagram diagram_to_event diagram_watcher_new answers)) =
    changes_from (Some []) (List.map_filter (\<lambda>a. case fst a of Inr points \<Rightarrow> Some points | Inl e \<Rightarrow> None) answers)"
  using diagram.publishes_changes [of diagram_watcher_new answers] by (simp add: diagram_watcher_new_def)

text \<open>What is served is the diagram of the latest poll that succeeded, or the unsampled empty one before there was one; it has
  no points exactly when that poll found none.\<close>

lemma diagram_serves_latest:
  "diagram_get (fw_snapshot (foldl (\<lambda>w a. snd (watch_diagram w a)) diagram_watcher_new answers)) =
    (case filter (\<lambda>a. \<not> isl (fst a)) answers of
       [] \<Rightarrow> diagram_default
     | polled \<Rightarrow> \<lparr>fd_sampled_at = Some (snd (last polled)), fd_points = projr (fst (last polled))\<rparr>)"
proof (induction answers rule: rev_induct)
  case (snoc a answers)
  then show ?case
    by (cases a; cases "fst a") (auto simp: watch_diagram_def diagram_record_def diagram_store_def diagram_get_def split: list.splits prod.splits)
qed (simp add: diagram_get_def diagram_watcher_new_def)

lemma diagram_empty_unsampled: "diagram_is_empty diagram_default" "diagram_is_empty s \<longleftrightarrow> fd_points s = []"
  by (simp_all add: diagram_is_empty_def diagram_len_def diagram_default_def)

text \<open>Every block hash the node announces on a stream is published once, in order, whatever else the
  streams carry and however often they end.\<close>

definition announced :: "(ObserverError + socket_item list) list \<Rightarrow> string list" where
  "announced sessions = concat (map (\<lambda>session. case session of Inl e \<Rightarrow> []
     | Inr items \<Rightarrow> List.map_filter (\<lambda>i. case i of SocketMessage (HashBlock hash) \<Rightarrow> Some hash | _ \<Rightarrow> None) items) sessions)"

lemma read_stream_hashes:
  "map bc_hash (read_stream items) =
    List.map_filter (\<lambda>i. case i of SocketMessage (HashBlock hash) \<Rightarrow> Some hash | _ \<Rightarrow> None) items"
  by (induction items rule: read_stream.induct)
    (auto simp: handle_one_def handle_message_def List.map_filter_def split: zmq_message.split)

theorem announced_blocks_published: "map bc_hash (zmq_run sessions) = announced sessions"
  by (induction sessions rule: zmq_run.induct) (simp_all add: announced_def read_stream_hashes)

section \<open>What the mempool watcher leaves in the ledger\<close>

theorem mempool_polls_follow_node:
  "lg_live (fold (mempool_poll it clk) (answers @ [Inr txids] @ replicate n (Inl e)) ledger) = set txids"
proof -
  have "fold (mempool_poll it clk) (replicate n (Inl e)) s = s" for s
    by (induction n) (simp_all add: mempool_poll_def)
  then show ?thesis by (simp add: mempool_poll_def submit_authoritative_def Let_def)
qed

section \<open>Which answers mean that a transaction is gone\<close>

lemma contains_fresh_prefix: "pat \<noteq> [] \<Longrightarrow> hd pat \<notin> set pre \<Longrightarrow> contains pat (pre @ s) = contains pat s"
  by (induction pre) (auto simp: neq_Nil_conv)

lemma contains_fetch:
  "contains ''No such mempool transaction'' (observer_error_display (FailedToFetch m)) = contains ''No such mempool transaction'' m"
  "contains ''Transaction not in mempool'' (observer_error_display (FailedToFetch m)) = contains ''Transaction not in mempool'' m"
  by (simp_all only: observer_error_display_def ObserverError.case) (rule contains_fresh_prefix; simp)+

text \<open>What the node's client said when the call failed.\<close>

fun said :: "string + (string + 'a) \<Rightarrow> string option" where
  "said (Inl m) = Some m"
| "said (Inr (Inl m)) = Some m"
| "said (Inr (Inr r)) = None"

fun is_missing :: "ObserverError + 'a \<Rightarrow> bool" where
  "is_missing (Inl (TxNotFoundInMempool m)) \<longleftrightarrow> True"
| "is_missing _ \<longleftrightarrow> False"

lemma missing_raw:
  "is_missing (map_sum (\<lambda>e. not_found_as_missing e ''No such mempool transaction'') f (rpc_call ans)) \<longleftrightarrow>
    (\<exists>m. said ans = Some m \<and> contains ''No such mempool transaction'' m)"
  "is_missing (map_sum (\<lambda>e. not_found_as_missing e ''Transaction not in mempool'') f (rpc_call ans)) \<longleftrightarrow>
    (\<exists>m. said ans = Some m \<and> contains ''Transaction not in mempool'' m)"
  by (cases ans rule: said.cases; simp only: rpc_call_def sum.case map_sum.simps not_found_as_missing_def contains_fetch;
      simp)+

lemma is_missing_Inl: "is_missing (Inl e) \<longleftrightarrow> (\<exists>m. e = TxNotFoundInMempool m)"
  by (cases e) simp_all

lemma missing_simps [simp]:
  "\<not> is_missing (map_sum FailedToFetch f x)"
  "\<not> is_missing (Inl (InvalidParams m))" "\<not> is_missing (Inl (ObserverOther m))" "\<not> is_missing (Inr y)"
  by (cases x; simp)+

definition says_missing :: "(string \<Rightarrow> string + 't) \<Rightarrow> ('t \<Rightarrow> string + (string + 'r)) \<Rightarrow> string \<Rightarrow> string \<Rightarrow> bool" where
  "says_missing parse node phrase txid \<longleftrightarrow>
    (\<exists>t m. parse txid = Inr t \<and> said (node t) = Some m \<and> contains phrase m)"

lemma raw_missing:
  "is_missing (get_raw_transaction parse from_unix node txid) \<longleftrightarrow> says_missing parse node ''No such mempool transaction'' txid"
  by (cases "parse txid") (simp_all only: get_raw_transaction_def parse_txid_def says_missing_def map_sum.simps sum.case id_apply
      missing_raw missing_simps sum.distinct sum.inject simp_thms ex_simps HOL.simp_thms)

lemma entry_missing:
  "is_missing (get_mempool_entry parse print into_entry node txid) \<longleftrightarrow> says_missing parse node ''Transaction not in mempool'' txid"
proof (cases "parse txid")
  case (Inr t)
  let ?call = "map_sum (\<lambda>e. not_found_as_missing e ''Transaction not in mempool'') id (rpc_call (node t))"
  have "is_missing ?call \<longleftrightarrow> says_missing parse node ''Transaction not in mempool'' txid"
    unfolding missing_raw(2) says_missing_def using Inr by simp
  moreover have "is_missing (get_mempool_entry parse print into_entry node txid) \<longleftrightarrow> is_missing ?call"
    unfolding get_mempool_entry_def parse_txid_def Inr by (cases ?call) (simp_all add: is_missing_Inl)
  ultimately show ?thesis by simp
qed (simp add: get_mempool_entry_def parse_txid_def says_missing_def)

lemma cluster_missing:
  "is_missing (get_mempool_cluster parse into_cluster node txid) \<longleftrightarrow> says_missing parse node ''Transaction not in mempool'' txid"
proof (cases "parse txid")
  case (Inr t)
  show ?thesis
    unfolding get_mempool_cluster_def parse_txid_def Inr says_missing_def
    by (cases "node t" rule: said.cases)
      (simp_all only: rpc_call_def map_sum.simps sum.case id_apply contains_fetch said.simps option.inject option.distinct
        sum.inject, simp_all)
qed (simp add: get_mempool_cluster_def parse_txid_def says_missing_def)

text \<open>The observer takes a transaction for gone exactly when the node says so. For a well-formed
  txid, each of the three lookups reports the not-in-mempool error exactly when its call failed with
  a message that holds the phrase that call uses for a missing transaction; any other failure, an
  unparseable answer and a malformed txid are reported as other errors.\<close>

theorem missing_exactly_when_said:
  "(is_missing (get_raw_transaction parse from_unix node txid) \<longleftrightarrow>
      says_missing parse node ''No such mempool transaction'' txid) \<and>
   (is_missing (get_mempool_entry parse print into_entry node_entry txid) \<longleftrightarrow>
      says_missing parse node_entry ''Transaction not in mempool'' txid) \<and>
   (is_missing (get_mempool_cluster parse into_cluster node_cluster txid) \<longleftrightarrow>
      says_missing parse node_cluster ''Transaction not in mempool'' txid)"
  using raw_missing entry_missing cluster_missing by blast

end
