(* ===== verification/Bus.thy ===== *)
theory Bus
  imports Prelude "HOL-Library.Sublist"
begin

text \<open>
  The in-process bus (\<open>shared/src/pubsub.rs\<close>, \<open>shared/src/subjects.rs\<close>) and the typed service over it
  (\<open>api/src/services/pubsub.rs\<close>). A subject's channel is the list of all messages ever sent on it; a
  subscriber is a position in that list. The broadcast channel belongs to the async runtime: what a
  receiver at a position gets is the parameter \<open>rx\<close>, and \<open>broadcast_channel\<close> states the runtime's
  documentation. Encoding and decoding of events are parameters too.
\<close>

section \<open>The bus\<close>

datatype Subject =
    SubjMempoolDelta | SubjBlockConnected | SubjClusterDelta | SubjNewBlockInfo | SubjFeerateDiagram | SubjNodeStatus

fun subject_str :: "Subject \<Rightarrow> string" where
  "subject_str SubjMempoolDelta = ''rpc.mempooldelta''"
| "subject_str SubjBlockConnected = ''zmq.blockconnected''"
| "subject_str SubjClusterDelta = ''api.clusterdelta''"
| "subject_str SubjNewBlockInfo = ''api.newblockinfo''"
| "subject_str SubjFeerateDiagram = ''rpc.mempoolfeeratediagram''"
| "subject_str SubjNodeStatus = ''rpc.nodestatus''"

definition CHANNEL_CAPACITY :: nat where
  "CHANNEL_CAPACITY = 1024"

record Message =
  msg_subject :: string
  msg_payload :: string

type_synonym bus = "Subject \<Rightarrow> Message list"

definition bus_new :: bus where
  "bus_new = (\<lambda>_. [])"

definition bus_publish :: "Subject \<Rightarrow> string \<Rightarrow> bus \<Rightarrow> bus" where
  "bus_publish subject payload b =
    b(subject := b subject @ [\<lparr>msg_subject = subject_str subject, msg_payload = payload\<rparr>])"

text \<open>A live subscription: where the receiver stands, what its stream has yielded, and how many
  messages it was told it missed.\<close>

datatype received = Got Message | Lagged nat

record subscription =
  sb_pos :: nat
  sb_yielded :: "Message list"
  sb_lagged :: nat

definition bus_subscribe :: "Subject \<Rightarrow> bus \<Rightarrow> subscription" where
  "bus_subscribe subject b = \<lparr>sb_pos = length (b subject), sb_yielded = [], sb_lagged = 0\<rparr>"

definition bus_next :: "(Message list \<Rightarrow> nat \<Rightarrow> received \<times> nat) \<Rightarrow> Message list \<Rightarrow> subscription \<Rightarrow> subscription" where
  "bus_next rx chan s =
    (case rx chan (sb_pos s) of
       (Got message, pos) \<Rightarrow> s\<lparr>sb_pos := pos, sb_yielded := sb_yielded s @ [message]\<rparr>
     | (Lagged skipped, pos) \<Rightarrow> s\<lparr>sb_pos := pos, sb_lagged := sb_lagged s + skipped\<rparr>)"

text \<open>A receiver gets the next message unless more than the capacity are ahead of it: then it is told
  how many it missed and stands at the oldest one kept.\<close>

definition broadcast_channel :: "(Message list \<Rightarrow> nat \<Rightarrow> received \<times> nat) \<Rightarrow> bool" where
  "broadcast_channel rx \<longleftrightarrow> (\<forall>chan pos. pos < length chan \<longrightarrow>
     rx chan pos = (if length chan - pos \<le> CHANNEL_CAPACITY then (Got (chan ! pos), Suc pos)
       else (Lagged (length chan - CHANNEL_CAPACITY - pos), length chan - CHANNEL_CAPACITY)))"

section \<open>The typed service\<close>

definition publish_event :: "('e \<Rightarrow> string + string) \<Rightarrow> Subject \<Rightarrow> 'e \<Rightarrow> bus \<Rightarrow> bus" where
  "publish_event to_vec subject event b =
    (case to_vec event of Inr payload \<Rightarrow> bus_publish subject payload b | Inl e \<Rightarrow> b)"

definition events_of :: "(string \<Rightarrow> string + 'e) \<Rightarrow> Message list \<Rightarrow> 'e list" where
  "events_of from_slice messages =
    List.map_filter (\<lambda>msg. case from_slice (msg_payload msg) of Inr event \<Rightarrow> Some event | Inl e \<Rightarrow> None) messages"

definition json_codec :: "('e \<Rightarrow> string + string) \<Rightarrow> (string \<Rightarrow> string + 'e) \<Rightarrow> bool" where
  "json_codec to_vec from_slice \<longleftrightarrow> (\<forall>e. \<exists>payload. to_vec e = Inr payload \<and> from_slice payload = Inr e)"

section \<open>What a subscriber receives\<close>

text \<open>A subscriber beside the publishers of its subject: \<open>sc_sent\<close> lists the events published since it
  subscribed.\<close>

record 'e channel_run =
  sc_bus :: bus
  sc_sub :: subscription
  sc_sent :: "'e list"

inductive channel_step for to_vec :: "'e \<Rightarrow> string + string" and rx and subject where
  publishes: "channel_step to_vec rx subject c
    (c\<lparr>sc_bus := publish_event to_vec subject e (sc_bus c), sc_sent := sc_sent c @ [e]\<rparr>)"
| publishes_elsewhere: "other \<noteq> subject \<Longrightarrow> channel_step to_vec rx subject c
    (c\<lparr>sc_bus := bus_publish other payload (sc_bus c)\<rparr>)"
| receives: "sb_pos (sc_sub c) < length (sc_bus c subject) \<Longrightarrow> channel_step to_vec rx subject c
    (c\<lparr>sc_sub := bus_next rx (sc_bus c subject) (sc_sub c)\<rparr>)"

definition channel_starts :: "Subject \<Rightarrow> 'e channel_run \<Rightarrow> bool" where
  "channel_starts subject c \<longleftrightarrow> sc_sub c = bus_subscribe subject (sc_bus c) \<and> sc_sent c = []"

definition unread :: "Subject \<Rightarrow> 'e channel_run \<Rightarrow> nat" where
  "unread subject c = length (sc_bus c subject) - sb_pos (sc_sub c)"

text \<open>\<open>ms\<close> is what the channel got since the subscription, \<open>pre\<close> what it had before.\<close>

definition channel_inv :: "('e \<Rightarrow> string + string) \<Rightarrow> (string \<Rightarrow> string + 'e) \<Rightarrow> Subject \<Rightarrow> 'e channel_run \<Rightarrow> bool" where
  "channel_inv to_vec from_slice subject c \<longleftrightarrow> (\<exists>pre ms.
     sc_bus c subject = pre @ ms \<and> map (\<lambda>m. from_slice (msg_payload m)) ms = map Inr (sc_sent c) \<and>
     length pre \<le> sb_pos (sc_sub c) \<and> sb_pos (sc_sub c) \<le> length pre + length ms \<and>
     length (sb_yielded (sc_sub c)) + sb_lagged (sc_sub c) = sb_pos (sc_sub c) - length pre \<and>
     subseq (sb_yielded (sc_sub c)) (take (sb_pos (sc_sub c) - length pre) ms))"

lemma channel_starts_inv: "channel_starts subject c \<Longrightarrow> channel_inv to_vec from_slice subject c"
  by (auto simp: channel_starts_def channel_inv_def bus_subscribe_def)

lemma subseq_take_Suc: "subseq ys (take n ms) \<Longrightarrow> n < length ms \<Longrightarrow> subseq (ys @ [ms ! n]) (take (Suc n) ms)"
  by (simp add: take_Suc_conv_app_nth list_emb_append_mono)

lemma subseq_take_mono: "subseq ys (take n ms) \<Longrightarrow> n \<le> k \<Longrightarrow> subseq ys (take k ms)"
  by (metis min.absorb1 subseq_order.order_trans take_is_prefix take_take prefix_imp_subseq)

lemma channel_step_inv:
  assumes "json_codec to_vec from_slice" "broadcast_channel rx" "channel_step to_vec rx subject c c'"
    "channel_inv to_vec from_slice subject c"
  shows "channel_inv to_vec from_slice subject c'"
proof -
  from assms(4) obtain pre ms where inv: "sc_bus c subject = pre @ ms"
      "map (\<lambda>m. from_slice (msg_payload m)) ms = map Inr (sc_sent c)"
      "length pre \<le> sb_pos (sc_sub c)" "sb_pos (sc_sub c) \<le> length pre + length ms"
      "length (sb_yielded (sc_sub c)) + sb_lagged (sc_sub c) = sb_pos (sc_sub c) - length pre"
      "subseq (sb_yielded (sc_sub c)) (take (sb_pos (sc_sub c) - length pre) ms)"
    unfolding channel_inv_def by blast
  from assms(3) show ?thesis
  proof cases
    case (publishes e)
    obtain payload where e: "to_vec e = Inr payload" "from_slice payload = Inr e"
      using assms(1) unfolding json_codec_def by blast
    show ?thesis
      unfolding channel_inv_def
      by (rule exI [of _ pre], rule exI [of _ "ms @ [\<lparr>msg_subject = subject_str subject, msg_payload = payload\<rparr>]"])
        (use inv e in \<open>simp add: publishes publish_event_def bus_publish_def\<close>)
  next
    case (publishes_elsewhere other payload)
    then show ?thesis using assms(4) by (simp add: channel_inv_def bus_publish_def)
  next
    case receives
    let ?s = "sc_sub c" and ?chan = "sc_bus c subject"
    have rx: "rx ?chan (sb_pos ?s) = (if length ?chan - sb_pos ?s \<le> CHANNEL_CAPACITY then (Got (?chan ! sb_pos ?s), Suc (sb_pos ?s))
        else (Lagged (length ?chan - CHANNEL_CAPACITY - sb_pos ?s), length ?chan - CHANNEL_CAPACITY))"
      using assms(2) receives(2) unfolding broadcast_channel_def by blast
    have n: "sb_pos ?s - length pre < length ms" using receives(2) inv by simp
    show ?thesis
    proof (cases "length ?chan - sb_pos ?s \<le> CHANNEL_CAPACITY")
      case True
      have nth: "?chan ! sb_pos ?s = ms ! (sb_pos ?s - length pre)" using inv(1,3) by (simp add: nth_append)
      have "subseq (sb_yielded ?s @ [?chan ! sb_pos ?s]) (take (Suc (sb_pos ?s) - length pre) ms)"
        using subseq_take_Suc [OF inv(6) n] inv(3) by (simp add: nth Suc_diff_le)
      with True rx inv n show ?thesis
        unfolding channel_inv_def receives(1)
        by - (rule exI [of _ pre], rule exI [of _ ms], simp add: bus_next_def Suc_diff_le)
    next
      case False
      have "subseq (sb_yielded ?s) (take (length ?chan - CHANNEL_CAPACITY - length pre) ms)"
        by (rule subseq_take_mono [OF inv(6)]) (use False in simp)
      with False rx inv n show ?thesis
        unfolding channel_inv_def receives(1)
        by - (rule exI [of _ pre], rule exI [of _ ms], simp add: bus_next_def, linarith)
    qed
  qed
qed

lemma events_of_sent:
  assumes "map (\<lambda>m. from_slice (msg_payload m)) ms = map Inr es"
  shows "events_of from_slice ms = es"
  using assms by (induction ms arbitrary: es) (auto simp: events_of_def List.map_filter_simps map_eq_Cons_conv)

lemma subseq_events_of: "subseq xs ys \<Longrightarrow> subseq (events_of from_slice xs) (events_of from_slice ys)"
  unfolding events_of_def List.map_filter_def by (intro subseq_map subseq_filter)

lemma events_of_length:
  "\<forall>m\<in>set xs. \<exists>e. from_slice (msg_payload m) = Inr e \<Longrightarrow> length (events_of from_slice xs) = length xs"
  by (induction xs) (auto simp: events_of_def List.map_filter_simps)

lemma events_of_take:
  assumes "map (\<lambda>m. from_slice (msg_payload m)) ms = map Inr es"
  shows "events_of from_slice (take n ms) = take n es"
  using assms by (intro events_of_sent) (metis take_map)

text \<open>A read leaves at most the channel's capacity unread.\<close>

lemma receive_catches_up:
  assumes "broadcast_channel rx" "sb_pos (sc_sub c) < length (sc_bus c subject)"
  shows "unread subject (c\<lparr>sc_sub := bus_next rx (sc_bus c subject) (sc_sub c)\<rparr>) < unread subject c \<and>
    unread subject (c\<lparr>sc_sub := bus_next rx (sc_bus c subject) (sc_sub c)\<rparr>) \<le> CHANNEL_CAPACITY"
proof -
  have "rx (sc_bus c subject) (sb_pos (sc_sub c)) =
      (if length (sc_bus c subject) - sb_pos (sc_sub c) \<le> CHANNEL_CAPACITY
       then (Got (sc_bus c subject ! sb_pos (sc_sub c)), Suc (sb_pos (sc_sub c)))
       else (Lagged (length (sc_bus c subject) - CHANNEL_CAPACITY - sb_pos (sc_sub c)), length (sc_bus c subject) - CHANNEL_CAPACITY))"
    using assms unfolding broadcast_channel_def by blast
  with assms(2) show ?thesis by (auto simp: unread_def bus_next_def)
qed

text \<open>C24: The bus loses nothing silently. While events are published and a subscriber reads, in any
  interleaving, every event published since the subscription is accounted for once: yielded by the
  stream, counted as missed, or still ahead of the receiver. What is yielded keeps the order of
  publication; if nothing was counted as missed it is exactly the published events up to where the
  receiver stands; and a read leaves at most the channel's capacity unread.\<close>

theorem bus_accounts_for_events:
  assumes "json_codec to_vec from_slice" "broadcast_channel rx" "channel_starts subject c0"
    "(channel_step to_vec rx subject)\<^sup>*\<^sup>* c0 c"
  shows "length (sb_yielded (sc_sub c)) + sb_lagged (sc_sub c) + unread subject c = length (sc_sent c) \<and>
    length (events_of from_slice (sb_yielded (sc_sub c))) = length (sb_yielded (sc_sub c)) \<and>
    subseq (events_of from_slice (sb_yielded (sc_sub c))) (sc_sent c) \<and>
    (sb_lagged (sc_sub c) = 0 \<longrightarrow>
      events_of from_slice (sb_yielded (sc_sub c)) = take (length (sc_sent c) - unread subject c) (sc_sent c))"
proof -
  have "channel_inv to_vec from_slice subject c"
    using assms(4) channel_starts_inv [OF assms(3)]
    by (induction rule: rtranclp_induct) (blast intro: channel_step_inv [OF assms(1,2)])+
  then obtain pre ms where inv: "sc_bus c subject = pre @ ms"
      "map (\<lambda>m. from_slice (msg_payload m)) ms = map Inr (sc_sent c)"
      "length pre \<le> sb_pos (sc_sub c)" "sb_pos (sc_sub c) \<le> length pre + length ms"
      "length (sb_yielded (sc_sub c)) + sb_lagged (sc_sub c) = sb_pos (sc_sub c) - length pre"
      "subseq (sb_yielded (sc_sub c)) (take (sb_pos (sc_sub c) - length pre) ms)"
    unfolding channel_inv_def by blast
  let ?n = "sb_pos (sc_sub c) - length pre"
  have len: "length ms = length (sc_sent c)" using inv(2) by (metis length_map)
  have n: "?n = length (sc_sent c) - unread subject c" "?n + unread subject c = length (sc_sent c)"
    using inv(1,3,4) len by (simp_all add: unread_def)
  have taken: "events_of from_slice (take ?n ms) = take ?n (sc_sent c)" by (rule events_of_take [OF inv(2)])
  have "subseq (events_of from_slice (sb_yielded (sc_sub c))) (take ?n (sc_sent c))"
    using subseq_events_of [OF inv(6), of from_slice] taken by simp
  then have sub: "subseq (events_of from_slice (sb_yielded (sc_sub c))) (sc_sent c)"
    by (metis prefix_imp_subseq subseq_order.order_trans take_is_prefix)
  have "\<forall>m\<in>set ms. \<exists>e. from_slice (msg_payload m) = Inr e" 
  proof
    fix m assume "m \<in> set ms"
    then have "from_slice (msg_payload m) \<in> set (map (\<lambda>m. from_slice (msg_payload m)) ms)" by simp
    then show "\<exists>e. from_slice (msg_payload m) = Inr e" unfolding inv(2) by auto
  qed
  moreover have "set (sb_yielded (sc_sub c)) \<subseteq> set ms" using list_emb_set [OF inv(6)] by (auto dest: in_set_takeD)
  ultimately have decoded: "length (events_of from_slice (sb_yielded (sc_sub c))) = length (sb_yielded (sc_sub c))"
    by (intro events_of_length) blast
  have "sb_yielded (sc_sub c) = take ?n ms" if "sb_lagged (sc_sub c) = 0"
    using inv(4-6) that by (intro subseq_same_length) (auto simp: min_def)
  then show ?thesis using inv(5) n taken sub decoded by auto
qed

text \<open>The receiver as documented, and the identity as codec.\<close>

definition sample_rx :: "Message list \<Rightarrow> nat \<Rightarrow> received \<times> nat" where
  "sample_rx chan pos = (if length chan - pos \<le> CHANNEL_CAPACITY then (Got (chan ! pos), Suc pos)
     else (Lagged (length chan - CHANNEL_CAPACITY - pos), length chan - CHANNEL_CAPACITY))"

theorem bus_accounts_for_events_witness:
  "\<exists>c :: string channel_run. (channel_step Inr sample_rx SubjNodeStatus)\<^sup>*\<^sup>*
     \<lparr>sc_bus = bus_new, sc_sub = bus_subscribe SubjNodeStatus bus_new, sc_sent = []\<rparr> c \<and>
     unread SubjNodeStatus c = 1 \<and> events_of Inr (sb_yielded (sc_sub c)) = [''a'']"
proof -
  let ?c0 = "\<lparr>sc_bus = bus_new, sc_sub = bus_subscribe SubjNodeStatus bus_new, sc_sent = []\<rparr> :: string channel_run"
  define b where "b = publish_event Inr SubjNodeStatus ''b'' (publish_event Inr SubjNodeStatus ''a'' bus_new)"
  let ?c2 = "?c0\<lparr>sc_bus := b, sc_sent := [''a'', ''b'']\<rparr>"
  let ?c3 = "?c2\<lparr>sc_sub := bus_next sample_rx (b SubjNodeStatus) (sc_sub ?c2)\<rparr>"
  have "channel_step Inr sample_rx SubjNodeStatus ?c0 (?c0\<lparr>sc_bus := publish_event Inr SubjNodeStatus ''a'' bus_new, sc_sent := [''a'']\<rparr>)"
    using channel_step.publishes [of Inr sample_rx SubjNodeStatus ?c0 "''a''"] by simp
  moreover have "channel_step Inr sample_rx SubjNodeStatus
      (?c0\<lparr>sc_bus := publish_event Inr SubjNodeStatus ''a'' bus_new, sc_sent := [''a'']\<rparr>) ?c2"
    using channel_step.publishes [of Inr sample_rx SubjNodeStatus
        "?c0\<lparr>sc_bus := publish_event Inr SubjNodeStatus ''a'' bus_new, sc_sent := [''a'']\<rparr>" "''b''"] by (simp add: b_def)
  moreover have log: "b SubjNodeStatus = [\<lparr>msg_subject = ''rpc.nodestatus'', msg_payload = ''a''\<rparr>, \<lparr>msg_subject = ''rpc.nodestatus'', msg_payload = ''b''\<rparr>]"
    by (simp add: b_def publish_event_def bus_publish_def bus_new_def)
  moreover have "channel_step Inr sample_rx SubjNodeStatus ?c2 ?c3"
    using channel_step.receives [of ?c2 SubjNodeStatus Inr sample_rx] log by (simp add: bus_subscribe_def bus_new_def)
  ultimately have run: "(channel_step Inr sample_rx SubjNodeStatus)\<^sup>*\<^sup>* ?c0 ?c3"
    by (meson converse_rtranclp_into_rtranclp rtranclp.rtrancl_refl)
  have facts: "sb_lagged (sc_sub ?c3) = 0" "unread SubjNodeStatus ?c3 = 1"
    by (simp_all add: log bus_next_def sample_rx_def bus_subscribe_def bus_new_def CHANNEL_CAPACITY_def unread_def)
  have "json_codec Inr Inr" "broadcast_channel sample_rx" "channel_starts SubjNodeStatus ?c0"
    by (simp_all add: json_codec_def broadcast_channel_def sample_rx_def channel_starts_def)
  from bus_accounts_for_events [OF this run] facts
  have "events_of Inr (sb_yielded (sc_sub ?c3)) = [''a'']" by simp
  with run facts show ?thesis by blast
qed

end
