(* ===== verification/Websocket.thy ===== *)
theory Websocket
  imports Ledger Snapshot Tx_Repo Machine "HOL-Library.Sublist"
begin

text \<open>
  The websocket: the streams a client may subscribe to (\<open>api/src/controllers/websocket/streams.rs\<close>,
  \<open>api/src/services/home.rs\<close>) and the connection that multiplexes them
  (\<open>api/src/controllers/websocket/mod.rs\<close>, \<open>shared/src/ws.rs\<close>). The connection's loop, the subscription
  tasks it spawns and the client act in any order; a bounded queue joins them. Parsing and
  serialising of frames are parameters.
\<close>

section \<open>Subjects, frames and streams\<close>

datatype WsSubject = WsMempoolDelta | WsMempoolStats | WsChainTip | WsClusterDelta

fun ws_subject_str :: "WsSubject \<Rightarrow> string" where
  "ws_subject_str WsMempoolDelta = ''mempool.delta''"
| "ws_subject_str WsMempoolStats = ''mempool.stats''"
| "ws_subject_str WsChainTip = ''chain.tip''"
| "ws_subject_str WsClusterDelta = ''cluster.delta''"

datatype ClientFrame = Subscribe WsSubject | Unsubscribe WsSubject

record MempoolStatsEvent =
  ms_mempool_size :: int
  ms_cluster_count :: int
  ms_tx_per_min :: int

record WsError =
  we_message :: string

datatype ServerEvent =
    SMempoolDelta MempoolDeltaEvent
  | SMempoolStats MempoolStatsEvent
  | SChainTip NewBlockInfoEvent
  | SClusterDelta ClusterDeltaEvent
  | SError WsError

text \<open>The home page's counters and chain tip: a failed read shows as zero, or as no tip.\<close>

definition RATE_WINDOW :: int where
  "RATE_WINDOW = 60 * 1000000000"

definition current_stats :: "fault \<Rightarrow> instant \<Rightarrow> db \<Rightarrow> Inner \<Rightarrow> ClusterSnapshot \<Rightarrow> MempoolStatsEvent" where
  "current_stats fault now d ledger snapshot =
    \<lparr>ms_mempool_size = i64_of (int (card (lg_live ledger))), ms_cluster_count = i64_of (int (snapshot_len snapshot)),
     ms_tx_per_min = (case count_adds_since fault (now - RATE_WINDOW) d of Inr n \<Rightarrow> int n | Inl e \<Rightarrow> 0)\<rparr>"

definition get_current_chain_tip :: "fault \<Rightarrow> db \<Rightarrow> NewBlockInfoEvent option" where
  "get_current_chain_tip fault d =
    (case latest_block fault d of
       Inr (Some (height, mined_at)) \<Rightarrow> Some \<lparr>nb_height = height, nb_mined_at = mined_at\<rparr>
     | Inr None \<Rightarrow> None
     | Inl e \<Rightarrow> None)"

text \<open>What a subscription reads when it is built, and what its source yields afterwards.\<close>

record sources =
  so_clusters :: "ClusterDeltaEvent list"
  so_cluster_deltas :: "ClusterDeltaEvent list"
  so_live :: "txid list"
  so_mempool_deltas :: "MempoolDeltaEvent list"
  so_stats :: "MempoolStatsEvent list"
  so_tip :: "NewBlockInfoEvent option"
  so_new_blocks :: "NewBlockInfoEvent list"

definition build_stream :: "WsSubject \<Rightarrow> sources \<Rightarrow> ServerEvent list" where
  "build_stream subject so =
    (case subject of
       WsClusterDelta \<Rightarrow> map SClusterDelta (so_clusters so @ so_cluster_deltas so)
     | WsMempoolDelta \<Rightarrow> map SMempoolDelta (\<lparr>md_added = so_live so, md_removed = []\<rparr> # so_mempool_deltas so)
     | WsMempoolStats \<Rightarrow> map SMempoolStats (so_stats so)
     | WsChainTip \<Rightarrow> map SChainTip ((case so_tip so of None \<Rightarrow> [] | Some tip \<Rightarrow> [tip]) @ so_new_blocks so))"

section \<open>The connection\<close>

definition OUTBOUND_CHANNEL_CAPACITY :: nat where
  "OUTBOUND_CHANNEL_CAPACITY = 256"

text \<open>A task that is told to abort may go on for a while: it stops at its next pause.\<close>

datatype task_state = Running | Aborting | Ended

record task =
  tk_subject :: WsSubject
  tk_todo :: "ServerEvent list"
  tk_state :: task_state

text \<open>Tasks are numbered in the order of their creation; a queued or sent frame carries the number of the
  task it came from, or none if the loop itself queued it.\<close>

record connection =
  wc_open :: bool
  wc_subscriptions :: "WsSubject \<rightharpoonup> nat"
  wc_tasks :: "task list"
  wc_outbound :: "(nat option \<times> string) list"
  wc_sent :: "(nat option \<times> string) list"

definition connection_new :: connection where
  "connection_new = \<lparr>wc_open = True, wc_subscriptions = Map.empty, wc_tasks = [], wc_outbound = [], wc_sent = []\<rparr>"

definition abort :: "task \<Rightarrow> task" where
  "abort t = (if tk_state t = Running then t\<lparr>tk_state := Aborting\<rparr> else t)"

definition send_event :: "(ServerEvent \<Rightarrow> string + string) \<Rightarrow> ServerEvent \<Rightarrow> connection \<Rightarrow> connection" where
  "send_event to_string event c =
    (case to_string event of
       Inr text \<Rightarrow> if length (wc_outbound c) < OUTBOUND_CHANNEL_CAPACITY
         then c\<lparr>wc_outbound := wc_outbound c @ [(None, text)]\<rparr> else c
     | Inl e \<Rightarrow> c)"

definition handle_client_frame ::
  "(string \<Rightarrow> string + ClientFrame) \<Rightarrow> (ServerEvent \<Rightarrow> string + string) \<Rightarrow> (nat \<Rightarrow> sources) \<Rightarrow> string \<Rightarrow> connection \<Rightarrow> connection" where
  "handle_client_frame parse to_string so text c =
    (case parse text of
       Inl e \<Rightarrow> send_event to_string (SError \<lparr>we_message = ''invalid frame: '' @ e\<rparr>) c
     | Inr (Subscribe subject) \<Rightarrow>
         if wc_subscriptions c subject \<noteq> None then c
         else let i = length (wc_tasks c) in
           c\<lparr>wc_tasks := wc_tasks c @ [\<lparr>tk_subject = subject, tk_todo = build_stream subject (so i), tk_state = Running\<rparr>],
             wc_subscriptions := (wc_subscriptions c)(subject \<mapsto> i)\<rparr>
     | Inr (Unsubscribe subject) \<Rightarrow>
         (case wc_subscriptions c subject of
            Some i \<Rightarrow> c\<lparr>wc_subscriptions := (wc_subscriptions c)(subject := None),
              wc_tasks := (wc_tasks c)[i := abort (wc_tasks c ! i)]\<rparr>
          | None \<Rightarrow> c))"

definition close_connection :: "connection \<Rightarrow> connection" where
  "close_connection c = c\<lparr>wc_open := False, wc_outbound := [], wc_subscriptions := Map.empty,
     wc_tasks := map (\<lambda>(i, t). if Some i \<in> range (wc_subscriptions c) then abort t else t) (enumerate 0 (wc_tasks c))\<rparr>"

inductive ws_step for parse to_string so where
  inbound: "wc_open c \<Longrightarrow> ws_step parse to_string so c (handle_client_frame parse to_string so text c)"
| sends: "wc_open c \<Longrightarrow> wc_outbound c = frame # rest \<Longrightarrow>
    ws_step parse to_string so c (c\<lparr>wc_outbound := rest, wc_sent := wc_sent c @ [frame]\<rparr>)"
| closes: "wc_open c \<Longrightarrow> ws_step parse to_string so c (close_connection c)"
| pushes: "wc_open c \<Longrightarrow> i < length (wc_tasks c) \<Longrightarrow> tk_state (wc_tasks c ! i) \<noteq> Ended \<Longrightarrow>
    tk_todo (wc_tasks c ! i) = event # rest \<Longrightarrow> to_string event = Inr text \<Longrightarrow>
    length (wc_outbound c) < OUTBOUND_CHANNEL_CAPACITY \<Longrightarrow>
    ws_step parse to_string so c (c\<lparr>wc_outbound := wc_outbound c @ [(Some i, text)],
      wc_tasks := (wc_tasks c)[i := (wc_tasks c ! i)\<lparr>tk_todo := rest\<rparr>]\<rparr>)"
| skips: "i < length (wc_tasks c) \<Longrightarrow> tk_state (wc_tasks c ! i) \<noteq> Ended \<Longrightarrow>
    tk_todo (wc_tasks c ! i) = event # rest \<Longrightarrow> to_string event = Inl e \<Longrightarrow>
    ws_step parse to_string so c (c\<lparr>wc_tasks := (wc_tasks c)[i := (wc_tasks c ! i)\<lparr>tk_todo := rest\<rparr>]\<rparr>)"
| ends: "i < length (wc_tasks c) \<Longrightarrow> tk_todo (wc_tasks c ! i) = [] \<or> tk_state (wc_tasks c ! i) = Aborting \<or> \<not> wc_open c \<Longrightarrow>
    ws_step parse to_string so c (c\<lparr>wc_tasks := (wc_tasks c)[i := (wc_tasks c ! i)\<lparr>tk_state := Ended\<rparr>]\<rparr>)"

section \<open>What every run of a connection keeps\<close>

definition frames_of :: "nat \<Rightarrow> (nat option \<times> string) list \<Rightarrow> string list" where
  "frames_of i frames = map snd (filter (\<lambda>f. fst f = Some i) frames)"

definition texts :: "(ServerEvent \<Rightarrow> string + string) \<Rightarrow> ServerEvent list \<Rightarrow> string list" where
  "texts to_string events = List.map_filter (\<lambda>e. case to_string e of Inr text \<Rightarrow> Some text | Inl err \<Rightarrow> None) events"

lemma frames_of_simps [simp]:
  "frames_of i [] = []" "frames_of i (xs @ ys) = frames_of i xs @ frames_of i ys"
  "frames_of i (f # fs) = (if fst f = Some i then snd f # frames_of i fs else frames_of i fs)"
  by (simp_all add: frames_of_def)

lemma texts_simps [simp]:
  "texts to_string [] = []" "texts to_string (xs @ ys) = texts to_string xs @ texts to_string ys"
  "texts to_string (e # es) = (case to_string e of Inr text \<Rightarrow> text # texts to_string es | Inl err \<Rightarrow> texts to_string es)"
  by (simp_all add: texts_def List.map_filter_def split: sum.split)

text \<open>The frames of a task are those of the part of its stream it has been through.\<close>

definition task_ok :: "(ServerEvent \<Rightarrow> string + string) \<Rightarrow> sources \<Rightarrow> bool \<Rightarrow> string list \<Rightarrow> task \<Rightarrow> bool" where
  "task_ok to_string so opened frames t \<longleftrightarrow>
    (\<exists>done. build_stream (tk_subject t) so = done @ tk_todo t \<and> prefix frames (texts to_string done) \<and>
       (opened \<longrightarrow> frames = texts to_string done))"

definition sub_task :: "task list \<Rightarrow> WsSubject \<Rightarrow> nat \<Rightarrow> bool" where
  "sub_task tasks subject i \<longleftrightarrow> i < length tasks \<and> tk_subject (tasks ! i) = subject \<and> tk_state (tasks ! i) \<noteq> Aborting"

definition subs_ok :: "connection \<Rightarrow> bool" where
  "subs_ok c \<longleftrightarrow>
    (\<forall>subject i. wc_subscriptions c subject = Some i \<longrightarrow> sub_task (wc_tasks c) subject i) \<and>
    (\<forall>i < length (wc_tasks c). tk_state (wc_tasks c ! i) = Running \<longrightarrow>
       wc_subscriptions c (tk_subject (wc_tasks c ! i)) = Some i) \<and>
    (\<not> wc_open c \<longrightarrow> wc_subscriptions c = Map.empty)"

definition frames_ok :: "(ServerEvent \<Rightarrow> string + string) \<Rightarrow> (nat \<Rightarrow> sources) \<Rightarrow> connection \<Rightarrow> bool" where
  "frames_ok to_string so c \<longleftrightarrow> length (wc_outbound c) \<le> OUTBOUND_CHANNEL_CAPACITY \<and>
    (\<forall>i. length (wc_tasks c) \<le> i \<longrightarrow> frames_of i (wc_sent c @ wc_outbound c) = []) \<and>
    (\<forall>i < length (wc_tasks c). task_ok to_string (so i) (wc_open c) (frames_of i (wc_sent c @ wc_outbound c)) (wc_tasks c ! i))"

lemma abort_simps [simp]:
  "tk_subject (abort t) = tk_subject t" "tk_todo (abort t) = tk_todo t" "tk_state (abort t) \<noteq> Running"
  by (simp_all add: abort_def)

lemma task_ok_closed:
  assumes "task_ok to_string so opened (xs @ ys) t"
  shows "task_ok to_string so False xs t" "task_ok to_string so False xs (abort t)"
  using assms by (auto simp: task_ok_def dest: append_prefixD)

lemma send_event_frames:
  assumes "frames_ok to_string so c"
  shows "frames_ok to_string so (send_event to_string event c)"
  using assms by (auto simp: frames_ok_def send_event_def split: sum.split)

lemma spawn_frames:
  assumes "frames_ok to_string so c"
  shows "frames_ok to_string so (c\<lparr>wc_tasks := wc_tasks c @ [\<lparr>tk_subject = subject,
    tk_todo = build_stream subject (so (length (wc_tasks c))), tk_state = Running\<rparr>], wc_subscriptions := m\<rparr>)"
  using assms by (auto simp: frames_ok_def nth_append task_ok_def less_Suc_eq)

lemma update_frames:
  assumes "frames_ok to_string so c" "tk_subject t = tk_subject (wc_tasks c ! i)" "tk_todo t = tk_todo (wc_tasks c ! i)"
  shows "frames_ok to_string so (c\<lparr>wc_tasks := (wc_tasks c)[i := t]\<rparr>)"
proof (cases "i < length (wc_tasks c)")
  case True
  then show ?thesis
    using assms by (auto simp: frames_ok_def nth_list_update task_ok_def)
qed (use assms(1) in \<open>simp add: list_update_beyond\<close>)

lemma frames_ok_subs [simp]:
  "frames_ok to_string so (c\<lparr>wc_subscriptions := m\<rparr>) = frames_ok to_string so c"
  "frames_ok to_string so (c\<lparr>wc_subscriptions := m, wc_tasks := ts\<rparr>) = frames_ok to_string so (c\<lparr>wc_tasks := ts\<rparr>)"
  by (simp_all add: frames_ok_def)

lemma frame_frames:
  assumes "frames_ok to_string so c"
  shows "frames_ok to_string so (handle_client_frame parse to_string so text c)"
  using assms send_event_frames [OF assms] spawn_frames [OF assms] update_frames [OF assms]
  by (auto simp: handle_client_frame_def Let_def split: sum.split ClientFrame.split option.split)

lemma close_frames:
  assumes "frames_ok to_string so c"
  shows "frames_ok to_string so (close_connection c)"
  using assms
  by (simp add: frames_ok_def close_connection_def nth_enumerate_eq) (blast intro: task_ok_closed)

lemma ws_step_frames:
  assumes "ws_step parse to_string so c c'" "frames_ok to_string so c"
  shows "frames_ok to_string so c'"
  using assms
proof (induction rule: ws_step.induct)
  case (inbound c frame)
  then show ?case by (blast intro: frame_frames)
next
  case (sends c frame rest)
  then show ?case by (auto simp: frames_ok_def)
next
  case (closes c)
  then show ?case by (blast intro: close_frames)
next
  case (pushes c i event rest shown)
  then show ?case by (auto simp: frames_ok_def nth_list_update task_ok_def)
next
  case (skips i c event rest e)
  then show ?case by (auto simp: frames_ok_def nth_list_update task_ok_def)
next
  case (ends i c)
  then show ?case by (intro update_frames) simp_all
qed

text \<open>Subscriptions and running tasks.\<close>

lemma subs_okI:
  assumes "\<And>subject i. wc_subscriptions c subject = Some i \<Longrightarrow> sub_task (wc_tasks c) subject i"
    "\<And>i. i < length (wc_tasks c) \<Longrightarrow> tk_state (wc_tasks c ! i) = Running \<Longrightarrow> wc_subscriptions c (tk_subject (wc_tasks c ! i)) = Some i"
    "\<not> wc_open c \<Longrightarrow> wc_subscriptions c = Map.empty"
  shows "subs_ok c"
  using assms unfolding subs_ok_def by blast

lemma subs_okD:
  assumes "subs_ok c"
  shows "wc_subscriptions c subject = Some i \<Longrightarrow> i < length (wc_tasks c)"
    "wc_subscriptions c subject = Some i \<Longrightarrow> tk_subject (wc_tasks c ! i) = subject"
    "wc_subscriptions c subject = Some i \<Longrightarrow> tk_state (wc_tasks c ! i) \<noteq> Aborting"
    "i < length (wc_tasks c) \<Longrightarrow> tk_state (wc_tasks c ! i) = Running \<Longrightarrow> wc_subscriptions c (tk_subject (wc_tasks c ! i)) = Some i"
    "\<not> wc_open c \<Longrightarrow> wc_subscriptions c = Map.empty"
  using assms unfolding subs_ok_def sub_task_def by blast+

lemma update_subs:
  assumes "subs_ok c" "i < length (wc_tasks c)" "tk_subject t = tk_subject (wc_tasks c ! i)"
    "tk_state t = tk_state (wc_tasks c ! i) \<or> tk_state t = Ended"
  shows "subs_ok (c\<lparr>wc_tasks := (wc_tasks c)[i := t]\<rparr>)"
proof (rule subs_okI)
  fix subject j assume "wc_subscriptions (c\<lparr>wc_tasks := (wc_tasks c)[i := t]\<rparr>) subject = Some j"
  then have "wc_subscriptions c subject = Some j" by simp
  from subs_okD(1-3) [OF assms(1) this] assms(2-4) show "sub_task (wc_tasks (c\<lparr>wc_tasks := (wc_tasks c)[i := t]\<rparr>)) subject j"
    by (auto simp: sub_task_def nth_list_update)
next
  fix j assume "j < length (wc_tasks (c\<lparr>wc_tasks := (wc_tasks c)[i := t]\<rparr>))"
    "tk_state (wc_tasks (c\<lparr>wc_tasks := (wc_tasks c)[i := t]\<rparr>) ! j) = Running"
  with assms show "wc_subscriptions (c\<lparr>wc_tasks := (wc_tasks c)[i := t]\<rparr>)
      (tk_subject (wc_tasks (c\<lparr>wc_tasks := (wc_tasks c)[i := t]\<rparr>) ! j)) = Some j"
    by (cases "j = i") (auto dest: subs_okD(4))
qed (use subs_okD(5) [OF assms(1)] in simp)

lemma subs_ok_frames [simp]:
  "subs_ok (c\<lparr>wc_outbound := q\<rparr>) = subs_ok c" "subs_ok (c\<lparr>wc_sent := q\<rparr>) = subs_ok c"
  "subs_ok (c\<lparr>wc_outbound := q, wc_tasks := ts\<rparr>) = subs_ok (c\<lparr>wc_tasks := ts\<rparr>)"
  "subs_ok (c\<lparr>wc_outbound := q, wc_sent := q'\<rparr>) = subs_ok c"
  by (simp_all add: subs_ok_def)

lemma spawn_subs:
  assumes "subs_ok c" "wc_open c" "wc_subscriptions c subject = None"
  shows "subs_ok (c\<lparr>wc_tasks := wc_tasks c @ [\<lparr>tk_subject = subject, tk_todo = todo, tk_state = Running\<rparr>],
    wc_subscriptions := (wc_subscriptions c)(subject \<mapsto> length (wc_tasks c))\<rparr>)"
proof (rule subs_okI)
  let ?c = "c\<lparr>wc_tasks := wc_tasks c @ [\<lparr>tk_subject = subject, tk_todo = todo, tk_state = Running\<rparr>],
    wc_subscriptions := (wc_subscriptions c)(subject \<mapsto> length (wc_tasks c))\<rparr>"
  show "sub_task (wc_tasks ?c) other i" if "wc_subscriptions ?c other = Some i" for other i
    using that subs_okD(1-3) [OF assms(1), of other i] by (cases "other = subject") (auto simp: sub_task_def nth_append)
  show "wc_subscriptions ?c (tk_subject (wc_tasks ?c ! i)) = Some i"
    if "i < length (wc_tasks ?c)" "tk_state (wc_tasks ?c ! i) = Running" for i
    using that subs_okD(4) [OF assms(1), of i] assms(3) by (cases "i < length (wc_tasks c)") (auto simp: nth_append less_Suc_eq)
qed (use assms(2) in simp)

lemma unsubscribe_subs:
  assumes "subs_ok c" "wc_subscriptions c subject = Some i"
  shows "subs_ok (c\<lparr>wc_subscriptions := (wc_subscriptions c)(subject := None), wc_tasks := (wc_tasks c)[i := abort (wc_tasks c ! i)]\<rparr>)"
proof (rule subs_okI)
  let ?c = "c\<lparr>wc_subscriptions := (wc_subscriptions c)(subject := None), wc_tasks := (wc_tasks c)[i := abort (wc_tasks c ! i)]\<rparr>"
  note known = subs_okD [OF assms(1)]
  show "sub_task (wc_tasks ?c) other j" if "wc_subscriptions ?c other = Some j" for other j
    using that known(1-3) [of other j] known(2) [OF assms(2)]
    by (cases "other = subject"; cases "j = i") (auto simp: sub_task_def)
  show "wc_subscriptions ?c (tk_subject (wc_tasks ?c ! j)) = Some j"
    if "j < length (wc_tasks ?c)" "tk_state (wc_tasks ?c ! j) = Running" for j
    using that known(4) [of j] assms(2) by (cases "j = i") auto
  show "wc_subscriptions ?c = Map.empty" if "\<not> wc_open ?c"
    using that known(5) assms(2) by auto
qed

lemma frame_subs:
  assumes "subs_ok c" "wc_open c"
  shows "subs_ok (handle_client_frame parse to_string so frame c)"
  using assms spawn_subs [OF assms] unsubscribe_subs [OF assms(1)]
  by (auto simp: handle_client_frame_def send_event_def Let_def split: sum.split ClientFrame.split option.split)

lemma close_subs:
  assumes "subs_ok c"
  shows "subs_ok (close_connection c)"
proof (rule subs_okI)
  show "wc_subscriptions (close_connection c) (tk_subject (wc_tasks (close_connection c) ! i)) = Some i"
    if "i < length (wc_tasks (close_connection c))" "tk_state (wc_tasks (close_connection c) ! i) = Running" for i
  proof -
    have "i < length (wc_tasks c)" using that(1) by (simp add: close_connection_def)
    moreover from this have "Some i \<notin> range (wc_subscriptions c)" "tk_state (wc_tasks c ! i) = Running"
      using that(2) by (auto simp: close_connection_def nth_enumerate_eq split: if_splits)
    ultimately show ?thesis using subs_okD(4) [OF assms] by (metis rangeI)
  qed
qed (simp_all add: close_connection_def)

lemma ws_step_subs:
  assumes "ws_step parse to_string so c c'" "subs_ok c"
  shows "subs_ok c'"
  using assms
proof (induction rule: ws_step.induct)
  case (pushes c i event rest shown)
  then show ?case by (simp add: update_subs)
next
  case (skips i c event rest e)
  then show ?case by (simp add: update_subs)
next
  case (ends i c)
  then show ?case by (simp add: update_subs)
qed (simp_all add: frame_subs close_subs)

interpretation ws: machine "\<lambda>c. c = connection_new" "ws_step parse to_string so" "\<lambda>c. frames_ok to_string so c \<and> subs_ok c"
proof unfold_locales
  show "c = connection_new \<Longrightarrow> frames_ok to_string so c \<and> subs_ok c" for c
    by (simp add: connection_new_def frames_ok_def subs_ok_def)
  show "ws_step parse to_string so c c' \<Longrightarrow> frames_ok to_string so c \<and> subs_ok c \<Longrightarrow> frames_ok to_string so c' \<and> subs_ok c'" for c c'
    using ws_step_frames ws_step_subs by blast
qed

text \<open>C23: A websocket connection delivers what its client asked for, in order and within bounds. However
  the client's frames, the loop and the subscription tasks interleave: at most 256 frames wait to be sent; the
  frames sent for a subscription are the texts of a first part of its stream, in order, each once, and
  while the connection lives the frames sent or waiting are exactly those of the part of the stream the
  task has been through; a running task is the one recorded for its subject, so a subject has at most
  one; and a closed connection has none.\<close>

theorem websocket_delivers_in_order:
  assumes "(ws_step parse to_string so)\<^sup>*\<^sup>* connection_new c"
  shows "length (wc_outbound c) \<le> OUTBOUND_CHANNEL_CAPACITY \<and>
    (\<forall>i < length (wc_tasks c). \<exists>passed. build_stream (tk_subject (wc_tasks c ! i)) (so i) = passed @ tk_todo (wc_tasks c ! i) \<and>
       prefix (frames_of i (wc_sent c)) (texts to_string passed) \<and>
       (wc_open c \<longrightarrow> frames_of i (wc_sent c @ wc_outbound c) = texts to_string passed)) \<and>
    (\<forall>i < length (wc_tasks c). tk_state (wc_tasks c ! i) = Running \<longrightarrow>
       wc_open c \<and> wc_subscriptions c (tk_subject (wc_tasks c ! i)) = Some i)"
proof -
  have ok: "frames_ok to_string so c" "subs_ok c"
    using ws.reached_inv [OF refl assms] by blast+
  have "wc_open c \<and> wc_subscriptions c (tk_subject (wc_tasks c ! i)) = Some i"
    if "i < length (wc_tasks c)" "tk_state (wc_tasks c ! i) = Running" for i
    using subs_okD(4,5) [OF ok(2)] that by fastforce
  moreover have "\<exists>passed. build_stream (tk_subject (wc_tasks c ! i)) (so i) = passed @ tk_todo (wc_tasks c ! i) \<and>
       prefix (frames_of i (wc_sent c)) (texts to_string passed) \<and>
       (wc_open c \<longrightarrow> frames_of i (wc_sent c @ wc_outbound c) = texts to_string passed)"
    if "i < length (wc_tasks c)" for i
  proof -
    have "task_ok to_string (so i) (wc_open c) (frames_of i (wc_sent c @ wc_outbound c)) (wc_tasks c ! i)"
      using ok(1) that unfolding frames_ok_def by blast
    then show ?thesis
      unfolding task_ok_def frames_of_simps by (elim exE conjE) (blast dest: append_prefixD)
  qed
  ultimately show ?thesis using ok(1) unfolding frames_ok_def by blast
qed

text \<open>A client that subscribes to the chain tip and sends a frame that does not parse.\<close>

definition sample_parse :: "string \<Rightarrow> string + ClientFrame" where
  "sample_parse frame = (if frame = ''tip'' then Inr (Subscribe WsChainTip) else Inl ''?'')"

definition sample_to_string :: "ServerEvent \<Rightarrow> string + string" where
  "sample_to_string event = (case event of SError error \<Rightarrow> Inr (we_message error) | SChainTip e \<Rightarrow> Inr ''block'' | _ \<Rightarrow> Inl ''unused'')"

definition sample_sources :: sources where
  "sample_sources = \<lparr>so_clusters = [], so_cluster_deltas = [], so_live = [], so_mempool_deltas = [], so_stats = [],
     so_tip = Some \<lparr>nb_height = 7, nb_mined_at = 0\<rparr>, so_new_blocks = []\<rparr>"

theorem websocket_delivers_in_order_witness:
  "\<exists>c. (ws_step sample_parse sample_to_string (\<lambda>_. sample_sources))\<^sup>*\<^sup>* connection_new c \<and>
     wc_sent c = [(None, ''invalid frame: ?''), (Some 0, ''block'')] \<and> length (wc_outbound c) \<le> OUTBOUND_CHANNEL_CAPACITY"
proof -
  let ?step = "ws_step sample_parse sample_to_string (\<lambda>_. sample_sources)"
  let ?run = "\<lambda>frame. handle_client_frame sample_parse sample_to_string (\<lambda>_. sample_sources) frame"
  let ?c1 = "?run ''x'' connection_new"
  let ?c2 = "?run ''tip'' ?c1"
  let ?c3 = "?c2\<lparr>wc_outbound := wc_outbound ?c2 @ [(Some 0, ''block'')], wc_tasks := (wc_tasks ?c2)[0 := (wc_tasks ?c2 ! 0)\<lparr>tk_todo := []\<rparr>]\<rparr>"
  let ?c4 = "?c3\<lparr>wc_outbound := [(Some 0, ''block'')], wc_sent := [(None, ''invalid frame: ?'')]\<rparr>"
  let ?c5 = "?c4\<lparr>wc_outbound := [], wc_sent := [(None, ''invalid frame: ?''), (Some 0, ''block'')]\<rparr>"
  note defs = handle_client_frame_def send_event_def connection_new_def sample_parse_def sample_to_string_def
    build_stream_def sample_sources_def OUTBOUND_CHANNEL_CAPACITY_def
  have "?step connection_new ?c1" "?step ?c1 ?c2"
    by (rule ws_step.inbound; simp add: defs)+
  moreover have "?step ?c2 ?c3"
    by (rule ws_step.pushes [where event = "SChainTip \<lparr>nb_height = 7, nb_mined_at = 0\<rparr>"]) (simp_all add: defs)
  moreover have "?step ?c3 ?c4"
    using ws_step.sends [of ?c3 "(None, ''invalid frame: ?'')" "[(Some 0, ''block'')]"] by (simp add: defs)
  moreover have "?step ?c4 ?c5"
    using ws_step.sends [of ?c4 "(Some 0, ''block'')" "[]"] by (simp add: defs)
  ultimately have run: "?step\<^sup>*\<^sup>* connection_new ?c5"
    by (meson converse_rtranclp_into_rtranclp rtranclp.rtrancl_refl)
  from websocket_delivers_in_order [OF run] run show ?thesis by (intro exI [of _ ?c5]) simp
qed

end
