(* ===== verification/Config.thy ===== *)
theory Config
  imports Api Samples
begin

text \<open>
  The configuration: the \<open>.env\<close> file and the environment (\<open>shared/src/env.rs\<close>), and the settings read
  from it (\<open>api/src/infra/config.rs\<close>, \<open>observer/src/infra/config.rs\<close>, \<open>shared/src/logging.rs\<close>,
  \<open>shared/src/metrics.rs\<close>). The environment is a map, passed along; the file's text is an argument, its
  characters ASCII. Setting a variable panics on a NUL byte: then there is no environment.
\<close>

section \<open>Reading variables\<close>

type_synonym variables = "string \<rightharpoonup> string"

datatype ConfigError = Missing string | Invalid string string string

definition env_opt :: "string \<Rightarrow> variables \<Rightarrow> string option" where
  "env_opt key env = (case env key of Some s \<Rightarrow> if s = [] then None else Some s | None \<Rightarrow> None)"

definition env_req :: "string \<Rightarrow> variables \<Rightarrow> ConfigError + string" where
  "env_req key env = (case env_opt key env of Some v \<Rightarrow> Inr v | None \<Rightarrow> Inl (Missing key))"

definition env_or :: "string \<Rightarrow> string \<Rightarrow> variables \<Rightarrow> string" where
  "env_or key def env = (case env_opt key env of Some v \<Rightarrow> v | None \<Rightarrow> def)"

definition env_parse :: "(string \<Rightarrow> string + 'a) \<Rightarrow> string \<Rightarrow> 'a \<Rightarrow> variables \<Rightarrow> ConfigError + 'a" where
  "env_parse parse key def env =
    (case env_opt key env of
       Some v \<Rightarrow> (case parse v of Inr x \<Rightarrow> Inr x | Inl e \<Rightarrow> Inl (Invalid key v e))
     | None \<Rightarrow> Inr def)"

text \<open>Rust's parsers of \<open>bool\<close> and of an unsigned integer below a limit, with the texts of their errors.\<close>

definition parse_bool :: "string \<Rightarrow> string + bool" where
  "parse_bool s = (if s = ''true'' then Inr True else if s = ''false'' then Inr False
     else Inl ''provided string was not `true` or `false`'')"

fun parse_digits :: "int \<Rightarrow> int \<Rightarrow> string \<Rightarrow> string + int" where
  "parse_digits limit acc [] = Inr acc"
| "parse_digits limit acc (c # cs) =
    (if c < CHR ''0'' \<or> CHR ''9'' < c then Inl ''invalid digit found in string''
     else let v = acc * 10 + (int (of_char c) - 48) in
       if limit \<le> v then Inl ''number too large to fit in target type'' else parse_digits limit v cs)"

definition parse_unsigned :: "int \<Rightarrow> string \<Rightarrow> string + int" where
  "parse_unsigned limit s =
    (if s = [] then Inl ''cannot parse integer from empty string''
     else if s = ''+'' then Inl ''invalid digit found in string''
     else parse_digits limit 0 (if hd s = CHR ''+'' then tl s else s))"

definition parse_u64 :: "string \<Rightarrow> string + int" where
  "parse_u64 = parse_unsigned (2 ^ 64)"

section \<open>The .env file\<close>

fun whitespace :: "char \<Rightarrow> bool" where
  "whitespace c \<longleftrightarrow> c = CHR '' '' \<or> (CHR 0x09 \<le> c \<and> c \<le> CHR 0x0D)"

definition trim_start_by :: "(char \<Rightarrow> bool) \<Rightarrow> string \<Rightarrow> string" where
  "trim_start_by p s = dropWhile p s"

definition trim_end_by :: "(char \<Rightarrow> bool) \<Rightarrow> string \<Rightarrow> string" where
  "trim_end_by p s = rev (dropWhile p (rev s))"

definition trim_by :: "(char \<Rightarrow> bool) \<Rightarrow> string \<Rightarrow> string" where
  "trim_by p s = trim_end_by p (trim_start_by p s)"

abbreviation trim :: "string \<Rightarrow> string" where
  "trim \<equiv> trim_by whitespace"

text \<open>What is before and after the first occurrence of a pattern.\<close>

fun split_once :: "string \<Rightarrow> string \<Rightarrow> (string \<times> string) option" where
  "split_once pat [] = (if pat = [] then Some ([], []) else None)"
| "split_once pat (c # cs) =
    (if take (length pat) (c # cs) = pat then Some ([], drop (length pat) (c # cs))
     else map_option (\<lambda>(before, after). (c # before, after)) (split_once pat cs))"

definition strip_inline_comment :: "string \<Rightarrow> string" where
  "strip_inline_comment value =
    (if take 1 value = [CHR 0x22] \<or> take 1 value = [CHR 0x27] then value
     else case split_once '' #'' value of Some (before, _) \<Rightarrow> trim_end_by whitespace before | None \<Rightarrow> value)"

lemma split_once_parts: "split_once pat s = Some (before, after) \<Longrightarrow> s = before @ pat @ after"
proof (induction s arbitrary: before)
  case (Cons c cs)
  show ?case
  proof (cases "take (length pat) (c # cs) = pat")
    case True
    with Cons.prems have "before = []" "after = drop (length pat) (c # cs)" by auto
    with True show ?thesis by (metis append_Nil append_take_drop_id)
  next
    case False
    with Cons show ?thesis by auto
  qed
qed (simp split: if_splits)

function expand_from :: "variables \<Rightarrow> string \<Rightarrow> string \<Rightarrow> string" where
  "expand_from env out rest =
    (case split_once ''${'' rest of
       None \<Rightarrow> out @ rest
     | Some (before, after) \<Rightarrow>
         (case split_once ''}'' after of
            Some (name, rest') \<Rightarrow>
              expand_from env (out @ before @ (case env name of Some v \<Rightarrow> v | None \<Rightarrow> [])) rest'
          | None \<Rightarrow> out @ before @ ''${'' @ after))"
  by pat_completeness auto
termination
  by (relation "measure (\<lambda>(env, out, rest). length rest)") (auto dest!: split_once_parts)

declare expand_from.simps [simp del]

definition expand :: "variables \<Rightarrow> string \<Rightarrow> string" where
  "expand env value = expand_from env [] value"

definition strip_cr :: "string \<Rightarrow> string" where
  "strip_cr l = (if l \<noteq> [] \<and> last l = CHR 0x0D then butlast l else l)"

text \<open>\<open>str::lines\<close>: a line ends with a newline, or with a carriage return and a newline; the last may end with the text.\<close>

fun str_lines :: "string \<Rightarrow> string \<Rightarrow> string list" where
  "str_lines cur [] = (if cur = [] then [] else [cur])"
| "str_lines cur (c # cs) = (if c = CHR 0x0A then strip_cr cur # str_lines [] cs else str_lines (cur @ [c]) cs)"

definition dotenv_entry :: "string \<Rightarrow> (string \<times> string) option" where
  "dotenv_entry line' =
    (let line = trim line' in
     if line = [] \<or> take 1 line = ''#'' then None
     else case split_once ''='' line of
       None \<Rightarrow> None
     | Some (key', value') \<Rightarrow>
         let key = trim key'; value = strip_inline_comment (trim value');
             value = trim_by (\<lambda>c. c = CHR 0x27) (trim_by (\<lambda>c. c = CHR 0x22) value)
         in if key = [] then None else Some (key, value))"

definition set_var :: "string \<Rightarrow> string \<Rightarrow> variables \<Rightarrow> variables option" where
  "set_var key value env =
    (if key = [] \<or> CHR ''='' \<in> set key \<or> CHR 0x00 \<in> set key \<or> CHR 0x00 \<in> set value then None
     else Some (env(key \<mapsto> value)))"

fun load_lines :: "string list \<Rightarrow> variables \<Rightarrow> variables option" where
  "load_lines [] env = Some env"
| "load_lines (line # lines) env =
    (case dotenv_entry line of
       None \<Rightarrow> load_lines lines env
     | Some (key, value) \<Rightarrow>
         if env key \<noteq> None then load_lines lines env
         else case set_var key (expand env value) env of None \<Rightarrow> None | Some env' \<Rightarrow> load_lines lines env')"

definition load_dotenv_from :: "string option \<Rightarrow> variables \<Rightarrow> variables option" where
  "load_dotenv_from file env = (case file of None \<Rightarrow> Some env | Some contents \<Rightarrow> load_lines (str_lines [] contents) env)"

section \<open>The settings\<close>

record RpcConfig =
  rc_host :: string
  rc_user :: string
  rc_pass :: string

record ZmqConfig =
  zc_blocks_endpoint :: string

record Config =
  oc_rpc :: RpcConfig
  oc_zmq :: ZmqConfig
  oc_poll_interval_secs :: int

definition DEFAULT_POLL_INTERVAL_SECS :: int where
  "DEFAULT_POLL_INTERVAL_SECS = 10"

definition observer_from_env :: "variables \<Rightarrow> ConfigError + Config" where
  "observer_from_env env =
    (case env_req ''RPC_HOST'' env of Inl e \<Rightarrow> Inl e | Inr host \<Rightarrow>
     (case env_req ''RPC_USER'' env of Inl e \<Rightarrow> Inl e | Inr user \<Rightarrow>
     (case env_req ''RPC_PASS'' env of Inl e \<Rightarrow> Inl e | Inr pass \<Rightarrow>
     (case env_req ''ZMQ_BLOCKS_ENDPOINT'' env of Inl e \<Rightarrow> Inl e | Inr blocks_endpoint \<Rightarrow>
     (case env_parse parse_u64 ''POLL_INTERVAL_SECS'' DEFAULT_POLL_INTERVAL_SECS env of Inl e \<Rightarrow> Inl e | Inr poll \<Rightarrow>
       Inr \<lparr>oc_rpc = \<lparr>rc_host = host, rc_user = user, rc_pass = pass\<rparr>,
         oc_zmq = \<lparr>zc_blocks_endpoint = blocks_endpoint\<rparr>, oc_poll_interval_secs = poll\<rparr>)))))"

record LoggingConfig =
  lc_level :: string
  lc_to_file :: bool
  lc_dir :: string
  lc_max_files :: int

definition DEFAULT_LOG_MAX_FILES :: int where
  "DEFAULT_LOG_MAX_FILES = 30"

definition logging_from_env :: "variables \<Rightarrow> ConfigError + LoggingConfig" where
  "logging_from_env env =
    (case env_parse parse_bool ''LOG_TO_FILE'' True env of Inl e \<Rightarrow> Inl e | Inr to_file \<Rightarrow>
     (case env_parse parse_u64 ''LOG_MAX_FILES'' DEFAULT_LOG_MAX_FILES env of Inl e \<Rightarrow> Inl e | Inr max_files \<Rightarrow>
       Inr \<lparr>lc_level = env_or ''LOG_LEVEL'' ''debug'' env, lc_to_file = to_file,
         lc_dir = env_or ''LOG_DIR'' ''logs'' env, lc_max_files = max_files\<rparr>))"

record MetricsConfig =
  mc_enabled :: bool
  mc_bind :: string

definition metrics_from_env :: "variables \<Rightarrow> ConfigError + MetricsConfig" where
  "metrics_from_env env =
    (case env_parse parse_bool ''METRICS_ENABLED'' True env of Inl e \<Rightarrow> Inl e | Inr enabled \<Rightarrow>
       Inr \<lparr>mc_enabled = enabled, mc_bind = env_or ''METRICS_BIND'' ''127.0.0.1:3334'' env\<rparr>)"

record DatabaseConfig =
  dc_url :: string

record ApiConfig =
  ac_bind :: string
  ac_database :: DatabaseConfig
  ac_logging :: LoggingConfig
  ac_metrics :: MetricsConfig
  ac_observer :: Config
  ac_data_dir :: string
  ac_gauge_interval_secs :: int
  ac_tx_backfill_queue_capacity :: int

definition DEFAULT_GAUGE_INTERVAL_SECS :: int where
  "DEFAULT_GAUGE_INTERVAL_SECS = 60"

definition DEFAULT_TX_BACKFILL_QUEUE_CAPACITY :: int where
  "DEFAULT_TX_BACKFILL_QUEUE_CAPACITY = 100000"

definition read_config :: "variables \<Rightarrow> ConfigError + ApiConfig" where
  "read_config env =
    (case env_parse parse_u64 ''GAUGE_INTERVAL_SECS'' DEFAULT_GAUGE_INTERVAL_SECS env of Inl e \<Rightarrow> Inl e | Inr gauge \<Rightarrow>
     if gauge < u64_of NATIVE_RESOLUTION_SECS
     then Inl (Invalid ''GAUGE_INTERVAL_SECS'' (decimal (nat gauge))
       (''must be >= NATIVE_RESOLUTION_SECS ('' @ decimal (nat NATIVE_RESOLUTION_SECS) @ ''s)''))
     else
     (case env_req ''DATABASE_URL'' env of Inl e \<Rightarrow> Inl e | Inr url \<Rightarrow>
     (case logging_from_env env of Inl e \<Rightarrow> Inl e | Inr logging \<Rightarrow>
     (case metrics_from_env env of Inl e \<Rightarrow> Inl e | Inr metrics \<Rightarrow>
     (case observer_from_env env of Inl e \<Rightarrow> Inl e | Inr observer \<Rightarrow>
     (case env_parse parse_u64 ''TX_BACKFILL_QUEUE_CAPACITY'' DEFAULT_TX_BACKFILL_QUEUE_CAPACITY env of Inl e \<Rightarrow> Inl e | Inr capacity \<Rightarrow>
       Inr \<lparr>ac_bind = env_or ''BIND'' ''127.0.0.1:3333'' env, ac_database = \<lparr>dc_url = url\<rparr>,
         ac_logging = logging, ac_metrics = metrics, ac_observer = observer,
         ac_data_dir = env_or ''DATA_DIR'' ''data'' env, ac_gauge_interval_secs = gauge,
         ac_tx_backfill_queue_capacity = capacity\<rparr>))))))"

definition api_from_env :: "string option \<Rightarrow> variables \<Rightarrow> (variables \<times> (ConfigError + ApiConfig)) option" where
  "api_from_env file env = (case load_dotenv_from file env of None \<Rightarrow> None | Some env' \<Rightarrow> Some (env', read_config env'))"

section \<open>Numbers\<close>

lemma parse_digits_append:
  "parse_digits limit acc (xs @ ys) = (case parse_digits limit acc xs of Inl e \<Rightarrow> Inl e | Inr v \<Rightarrow> parse_digits limit v ys)"
  by (induction limit acc xs rule: parse_digits.induct) (simp_all add: Let_def)

lemma parse_digits_digit:
  assumes "d < 10" "acc * 10 + int d < limit"
  shows "parse_digits limit acc [char_of (48 + d)] = Inr (acc * 10 + int d)"
proof -
  have "of_char (char_of (48 + d) :: char) = (48 + d :: nat)" using assms(1) by simp
  then show ?thesis using assms by (simp add: less_char_def Let_def)
qed

lemma parse_digits_decimal: "int n < limit \<Longrightarrow> parse_digits limit 0 (decimal n) = Inr (int n)"
proof (induction n rule: decimal.induct)
  case (1 n)
  show ?case
  proof (cases "n < 10")
    case True
    then show ?thesis using parse_digits_digit [of n 0 limit] 1(2) by (simp add: decimal.simps)
  next
    case False
    have n: "int (n div 10) * 10 + int (n mod 10) = int n" by presburger
    have "int (n div 10) < limit" using 1(2) by (simp add: zdiv_int)
    with 1(1) False have ih: "parse_digits limit 0 (decimal (n div 10)) = Inr (int (n div 10))" by blast
    have "parse_digits limit (int (n div 10)) [char_of (48 + n mod 10)] = Inr (int n)"
      using parse_digits_digit [of "n mod 10" "int (n div 10)" limit] 1(2) n by simp
    with False ih show ?thesis by (subst decimal.simps) (simp add: parse_digits_append del: parse_digits.simps)
  qed
qed

lemma decimal_starts: "\<exists>(d :: nat) cs. d < 10 \<and> decimal n = char_of (48 + d) # cs"
proof (induction n rule: decimal.induct)
  case (1 n)
  show ?case
  proof (cases "n < 10")
    case True
    then show ?thesis by (subst decimal.simps) auto
  next
    case False
    with 1 obtain d cs where "d < 10" "decimal (n div 10) = char_of (48 + d :: nat) # cs" by blast
    with False show ?thesis by (subst decimal.simps) auto
  qed
qed

lemma parse_u64_decimal: "int n < 2 ^ 64 \<Longrightarrow> parse_u64 (decimal n) = Inr (int n)"
proof -
  assume n: "int n < 2 ^ 64"
  obtain d cs where d: "d < 10" "decimal n = char_of (48 + d :: nat) # cs" using decimal_starts by blast
  have "of_char (char_of (48 + d) :: char) = (48 + d :: nat)" using d(1) by simp
  moreover have "of_char (CHR ''+'') = (43 :: nat)" by simp
  ultimately have "hd (decimal n) \<noteq> CHR ''+''" using d(2) by (auto dest: arg_cong [where f = "of_char :: char \<Rightarrow> nat"])
  then show ?thesis
    using parse_digits_decimal [OF n] d(2) by (auto simp: parse_u64_def parse_unsigned_def)
qed

lemma parse_digits_bounds:
  assumes "parse_digits limit acc cs = Inr v" "0 \<le> acc" "acc < limit"
  shows "0 \<le> v \<and> v < limit"
  using assms by (induction limit acc cs rule: parse_digits.induct) (auto simp: Let_def less_char_def split: if_splits)

lemma parse_u64_bounds: "parse_u64 s = Inr v \<Longrightarrow> is_u64 v"
  by (auto simp: parse_u64_def parse_unsigned_def is_u64_def split: if_splits dest!: parse_digits_bounds)

section \<open>Expansion\<close>

text \<open>A value as text and references to variables.\<close>

datatype piece = Literal string | Ref string

fun piece_text :: "piece \<Rightarrow> string" where
  "piece_text (Literal s) = s"
| "piece_text (Ref name) = ''${'' @ name @ ''}''"

fun piece_value :: "variables \<Rightarrow> piece \<Rightarrow> string" where
  "piece_value env (Literal s) = s"
| "piece_value env (Ref name) = (case env name of Some v \<Rightarrow> v | None \<Rightarrow> [])"

fun piece_ok :: "piece \<Rightarrow> bool" where
  "piece_ok (Literal s) \<longleftrightarrow> CHR ''$'' \<notin> set s"
| "piece_ok (Ref name) \<longleftrightarrow> CHR ''}'' \<notin> set name"

lemma split_once_skip:
  assumes "p \<notin> set s"
  shows "split_once (p # ps) (s @ rest) = map_option (\<lambda>(before, after). (s @ before, after)) (split_once (p # ps) rest)"
  using assms by (induction s) (auto simp: option.map_comp comp_def case_prod_unfold option.map_ident)

lemma split_once_here: "split_once (p # ps) ((p # ps) @ rest) = Some ([], rest)"
  by simp

lemma split_once_none: "p \<notin> set s \<Longrightarrow> split_once (p # ps) s = None"
  using split_once_skip [of p s ps "[]"] by simp

lemma split_once_at: "p \<notin> set s \<Longrightarrow> split_once (p # ps) (s @ (p # ps) @ rest) = Some (s, rest)"
  using split_once_skip [of p s ps "(p # ps) @ rest"] by simp

lemma expand_from_literal:
  "CHR ''$'' \<notin> set s \<Longrightarrow> expand_from env out (s @ rest) = expand_from env (out @ s) rest"
  by (subst (1 2) expand_from.simps)
    (auto simp: split_once_skip split: option.split)

lemma expand_from_pieces:
  "list_all piece_ok ps \<Longrightarrow> expand_from env out (concat (map piece_text ps)) = out @ concat (map (piece_value env) ps)"
proof (induction ps arbitrary: out)
  case Nil
  then show ?case by (simp add: expand_from.simps)
next
  case (Cons p ps)
  show ?case
  proof (cases p)
    case (Literal s)
    with Cons show ?thesis by (simp add: expand_from_literal)
  next
    case (Ref name)
    let ?rest = "concat (map piece_text ps)"
    have "split_once ''}'' (name @ ''}'' @ ?rest) = Some (name, ?rest)"
      using Cons.prems Ref by (intro split_once_at) simp
    moreover have "split_once ''${'' (''${'' @ name @ ''}'' @ ?rest) = Some ([], name @ ''}'' @ ?rest)"
      by (rule split_once_here)
    ultimately have "expand_from env out (''${'' @ name @ ''}'' @ ?rest) = expand_from env (out @ piece_value env p) ?rest"
      using Ref by (subst expand_from.simps) simp
    with Cons Ref show ?thesis by simp
  qed
qed

lemma expand_plain: "split_once ''${'' value = None \<Longrightarrow> expand env value = value"
  by (simp add: expand_def expand_from.simps)

section \<open>What the file sets\<close>

definition clean_key :: "string \<Rightarrow> bool" where
  "clean_key k \<longleftrightarrow> k \<noteq> [] \<and> hd k \<noteq> CHR ''#'' \<and> \<not> whitespace (hd k) \<and> \<not> whitespace (last k) \<and>
     list_all (\<lambda>c. c \<noteq> CHR ''='' \<and> c \<noteq> CHR 0x0A \<and> c \<noteq> CHR 0x00) k"

fun edge_ok :: "char \<Rightarrow> bool" where
  "edge_ok c \<longleftrightarrow> \<not> whitespace c \<and> c \<noteq> CHR 0x22 \<and> c \<noteq> CHR 0x27"

definition clean_value :: "string \<Rightarrow> bool" where
  "clean_value v \<longleftrightarrow> (v \<noteq> [] \<longrightarrow> edge_ok (hd v) \<and> edge_ok (last v)) \<and> list_all (\<lambda>c. c \<noteq> CHR 0x0A \<and> c \<noteq> CHR 0x00) v \<and>
     split_once '' #'' v = None \<and> split_once ''${'' v = None"

definition dotenv_text :: "(string \<times> string) list \<Rightarrow> string" where
  "dotenv_text kvs = concat (map (\<lambda>(k, v). k @ ''='' @ v @ [CHR 0x0A]) kvs)"

lemma trim_by_id: "(s \<noteq> [] \<longrightarrow> \<not> p (hd s) \<and> \<not> p (last s)) \<Longrightarrow> trim_by p s = s"
proof -
  assume ends: "s \<noteq> [] \<longrightarrow> \<not> p (hd s) \<and> \<not> p (last s)"
  then have "dropWhile p s = s" "dropWhile p (rev s) = rev s" by (auto simp: dropWhile_eq_self_iff hd_rev)
  then show ?thesis by (simp add: trim_by_def trim_start_by_def trim_end_by_def)
qed

lemma str_lines_line:
  "CHR 0x0A \<notin> set l \<Longrightarrow> str_lines cur (l @ CHR 0x0A # rest) = strip_cr (cur @ l) # str_lines [] rest"
  by (induction l arbitrary: cur) auto

lemma clean_line_entry:
  assumes "clean_key k" "clean_value v"
  shows "dotenv_entry (strip_cr (k @ ''='' @ v)) = Some (k, v)"
proof -
  let ?l = "k @ ''='' @ v"
  have last: "\<not> whitespace (last ?l)" using assms by (cases v rule: rev_cases) (auto simp: clean_value_def)
  then have "strip_cr ?l = ?l" by (auto simp: strip_cr_def)
  moreover have "trim ?l = ?l"
    using last assms(1) by (intro trim_by_id) (auto simp: clean_key_def)
  moreover have "split_once ''='' ?l = Some (k, v)"
    using assms(1) split_once_at [of "CHR ''=''" k "[]" v] by (auto simp: clean_key_def list_all_iff)
  moreover have "take 1 ?l \<noteq> ''#''" "trim k = k"
    using assms(1) trim_by_id [of k whitespace] by (cases k; auto simp: clean_key_def)+
  moreover have "trim v = v" "trim_by (\<lambda>c. c = CHR 0x22) v = v" "trim_by (\<lambda>c. c = CHR 0x27) v = v"
    using assms(2) by (auto intro!: trim_by_id simp: clean_value_def)
  moreover have "strip_inline_comment v = v"
    using assms(2) by (cases v) (auto simp: strip_inline_comment_def clean_value_def)
  ultimately show ?thesis using assms(1) by (simp add: dotenv_entry_def Let_def clean_key_def)
qed

lemma clean_load:
  assumes "\<forall>(k, v) \<in> set kvs. clean_key k \<and> clean_value v"
  shows "load_lines (str_lines [] (dotenv_text kvs)) env = Some (map_of kvs ++ env)"
  using assms
proof (induction kvs arbitrary: env)
  case Nil
  then show ?case by (simp add: dotenv_text_def)
next
  case (Cons kv kvs)
  obtain k v where kv: "kv = (k, v)" by (cases kv)
  with Cons.prems have clean: "clean_key k" "clean_value v" by auto
  have "str_lines [] (dotenv_text (kv # kvs)) = strip_cr (k @ ''='' @ v) # str_lines [] (dotenv_text kvs)"
    using clean str_lines_line [of "k @ ''='' @ v" "[]"]
    by (auto simp: kv dotenv_text_def clean_key_def clean_value_def list_all_iff)
  moreover have "expand env v = v" for env using clean(2) by (simp add: clean_value_def expand_plain)
  moreover have "set_var k v env = Some (env(k \<mapsto> v))"
    using clean by (auto simp: set_var_def clean_key_def clean_value_def list_all_iff)
  ultimately show ?case
    using Cons.IH Cons.prems clean_line_entry [OF clean]
    by (cases "env k") (auto simp: kv map_add_def fun_eq_iff split: option.split)
qed

text \<open>The characters of an entry are those of its line, and of an expanded value those of the value and
  the variables.\<close>

lemma trim_by_set: "set (trim_by p s) \<subseteq> set s"
  by (auto simp: trim_by_def trim_start_by_def trim_end_by_def dest!: set_dropWhileD)

lemma split_once_set: "split_once pat s = Some (before, after) \<Longrightarrow> set before \<subseteq> set s \<and> set after \<subseteq> set s"
  using split_once_parts by fastforce

lemma split_once_before: "split_once [c] s = Some (before, after) \<Longrightarrow> c \<notin> set before"
  by (induction s arbitrary: before) (auto split: if_splits)

lemma strip_inline_comment_set: "set (strip_inline_comment v) \<subseteq> set v"
  by (auto simp: strip_inline_comment_def trim_end_by_def split: option.splits dest!: set_dropWhileD split_once_set)

lemma dotenv_entry_chars:
  assumes "dotenv_entry l = Some (k, v)"
  shows "k \<noteq> []" "CHR ''='' \<notin> set k" "set k \<subseteq> set l" "set v \<subseteq> set l"
proof -
  obtain k' v' where kv: "split_once ''='' (trim l) = Some (k', v')" "k = trim k'" "k \<noteq> []"
      "v = trim_by (\<lambda>c. c = CHR 0x27) (trim_by (\<lambda>c. c = CHR 0x22) (strip_inline_comment (trim v')))"
    using assms by (auto simp: dotenv_entry_def Let_def split: if_splits option.splits)
  have l: "set k' \<subseteq> set l" "set v' \<subseteq> set l" using split_once_set [OF kv(1)] trim_by_set [of whitespace l] by auto
  show "k \<noteq> []" by (rule kv(3))
  show "CHR ''='' \<notin> set k" "set k \<subseteq> set l" using split_once_before [OF kv(1)] trim_by_set [of whitespace k'] l(1) kv(2) by auto
  show "set v \<subseteq> set l"
    unfolding kv(4) using l(2) trim_by_set strip_inline_comment_set by (meson subset_trans)
qed

lemma expand_from_set:
  "set (expand_from env out rest) \<subseteq> set out \<union> set rest \<union> (\<Union>v \<in> ran env. set v)"
proof (induction env out rest rule: expand_from.induct)
  case (1 env out rest)
  show ?case
  proof (cases "split_once ''${'' rest")
    case None
    then show ?thesis by (auto simp: expand_from.simps)
  next
    case (Some parts)
    obtain before after where parts: "parts = (before, after)" by (cases parts)
    then have rest: "rest = before @ ''${'' @ after" using split_once_parts Some by blast
    show ?thesis
    proof (cases "split_once ''}'' after")
      case None
      with Some parts rest show ?thesis by (subst expand_from.simps) auto
    next
      case (Some found)
      obtain name rest' where found: "found = (name, rest')" by (cases found)
      define shown where "shown = (case env name of Some v \<Rightarrow> v | None \<Rightarrow> [])"
      have "after = name @ ''}'' @ rest'" using split_once_parts Some found by blast
      moreover have "set shown \<subseteq> (\<Union>v \<in> ran env. set v)"
        by (cases "env name") (auto simp: shown_def intro: ranI)
      moreover have "expand_from env out rest = expand_from env (out @ before @ shown) rest'"
        using \<open>split_once ''${'' rest = Some parts\<close> parts Some found by (subst expand_from.simps) (simp add: shown_def)
      moreover note 1 [OF \<open>split_once ''${'' rest = Some parts\<close> parts [symmetric] Some found [symmetric], folded shown_def]
      ultimately show ?thesis unfolding rest by auto
    qed
  qed
qed

definition nul_free :: "variables \<Rightarrow> bool" where
  "nul_free env \<longleftrightarrow> (\<forall>v \<in> ran env. CHR 0x00 \<notin> set v)"

lemma str_lines_set: "l \<in> set (str_lines cur s) \<Longrightarrow> set l \<subseteq> set cur \<union> set s"
  by (induction cur s rule: str_lines.induct) (auto simp: strip_cr_def split: if_splits dest: in_set_butlastD)

definition dotenv_entries :: "string list \<Rightarrow> (string \<times> string) list" where
  "dotenv_entries ls = List.map_filter dotenv_entry ls"

lemma load_lines_facts:
  assumes "\<forall>l \<in> set ls. CHR 0x00 \<notin> set l" "nul_free env"
  shows "\<exists>env'. load_lines ls env = Some env' \<and> env \<subseteq>\<^sub>m env' \<and> dom env' = dom env \<union> fst ` set (dotenv_entries ls) \<and> nul_free env'"
  using assms
proof (induction ls arbitrary: env)
  case Nil
  then show ?case by (simp add: dotenv_entries_def List.map_filter_simps)
next
  case (Cons l ls)
  show ?case
  proof (cases "dotenv_entry l")
    case None
    then show ?thesis using Cons by (simp add: dotenv_entries_def List.map_filter_simps)
  next
    case (Some entry)
    obtain k v where kv: "entry = (k, v)" by (cases entry)
    note chars = dotenv_entry_chars [OF Some [unfolded kv]]
    have rest: "\<forall>l \<in> set ls. CHR 0x00 \<notin> set l" using Cons.prems by simp
    show ?thesis
    proof (cases "env k")
      case None
      have "CHR 0x00 \<notin> set (expand env v)"
        using expand_from_set [of env "[]" v] chars(4) Cons.prems by (auto simp: expand_def nul_free_def)
      then have "set_var k (expand env v) env = Some (env(k \<mapsto> expand env v))" "nul_free (env(k \<mapsto> expand env v))"
        using chars Cons.prems by (auto simp: set_var_def nul_free_def ran_def)
      moreover from this obtain env' where "load_lines ls (env(k \<mapsto> expand env v)) = Some env'"
          "env(k \<mapsto> expand env v) \<subseteq>\<^sub>m env'" "dom env' = dom (env(k \<mapsto> expand env v)) \<union> fst ` set (dotenv_entries ls)" "nul_free env'"
        using Cons.IH [OF rest] by blast
      moreover have "env \<subseteq>\<^sub>m env(k \<mapsto> expand env v)" using None by (auto simp: map_le_def)
      ultimately show ?thesis
        using Some kv None map_le_trans by (auto simp: dotenv_entries_def List.map_filter_simps)
    next
      case (Some v')
      then have "k \<in> dom env" by blast
      moreover obtain env' where "load_lines ls env = Some env'" "env \<subseteq>\<^sub>m env'"
          "dom env' = dom env \<union> fst ` set (dotenv_entries ls)" "nul_free env'"
        using Cons.IH [OF rest Cons.prems(2)] by blast
      ultimately show ?thesis
        using \<open>dotenv_entry l = Some entry\<close> kv Some by (auto simp: dotenv_entries_def List.map_filter_simps insert_absorb)
    qed
  qed
qed

text \<open>C38: Loading a \<open>.env\<close> file that has no NUL byte always succeeds. It never changes a variable that is
  set; the variables set afterwards are those and the ones the file's lines name; and a file of plain
  \<open>KEY=VALUE\<close> lines gives exactly its pairs, the first line of a key deciding, under what was set.\<close>

theorem dotenv_loads:
  assumes "CHR 0x00 \<notin> set contents" "nul_free env"
  shows "(\<exists>env'. load_dotenv_from (Some contents) env = Some env' \<and> env \<subseteq>\<^sub>m env' \<and>
      dom env' = dom env \<union> fst ` set (dotenv_entries (str_lines [] contents))) \<and>
    (\<forall>kvs. contents = dotenv_text kvs \<and> list_all (\<lambda>(k, v). clean_key k \<and> clean_value v) kvs \<longrightarrow>
      load_dotenv_from (Some contents) env = Some (map_of kvs ++ env))"
proof -
  have "\<forall>l \<in> set (str_lines [] contents). CHR 0x00 \<notin> set l"
    using str_lines_set [of _ "[]" contents] assms(1) by auto
  from load_lines_facts [OF this assms(2)] show ?thesis
    using clean_load by (auto simp: load_dotenv_from_def list_all_iff)
qed

theorem dotenv_loads_witness:
  "\<exists>env'. load_dotenv_from (Some ''A=1\<newline>A=2\<newline>B=x y'') [''B'' \<mapsto> ''kept''] = Some env' \<and> env' ''B'' = Some ''kept''"
proof -
  have "nul_free [''B'' \<mapsto> ''kept'']" by (auto simp: nul_free_def)
  moreover have "CHR 0x00 \<notin> set ''A=1\<newline>A=2\<newline>B=x y''" by simp
  ultimately obtain env' where
      "load_dotenv_from (Some ''A=1\<newline>A=2\<newline>B=x y'') [''B'' \<mapsto> ''kept''] = Some env'" "[''B'' \<mapsto> ''kept''] \<subseteq>\<^sub>m env'"
    using dotenv_loads [of "''A=1\<newline>A=2\<newline>B=x y''" "[''B'' \<mapsto> ''kept'']"] by blast
  then show ?thesis by (auto simp: map_le_def)
qed

text \<open>A value's references are replaced by the variables' values, its other text is kept.\<close>

theorem expand_substitutes:
  "list_all piece_ok ps \<Longrightarrow> expand env (concat (map piece_text ps)) = concat (map (piece_value env) ps)"
  by (simp add: expand_def expand_from_pieces)

text \<open>The documentation says that one pair of quotes around a value is stripped. The code strips all
  quotes at both ends, also unpaired ones, and those of an inner value.\<close>

theorem quotes_stripped_beyond_pair:
  "dotenv_entry (''K='' @ [CHR 0x22] @ ''say '' @ [CHR 0x22] @ ''hi'' @ [CHR 0x22, CHR 0x22]) = Some (''K'', ''say '' @ [CHR 0x22] @ ''hi'')"
  "dotenv_entry (''K=5'' @ [CHR 0x22]) = Some (''K'', ''5'')"
  by code_simp+

section \<open>Which environments are accepted\<close>

definition parses :: "(string \<Rightarrow> string + 'a) \<Rightarrow> string \<Rightarrow> variables \<Rightarrow> bool" where
  "parses parse key env \<longleftrightarrow> (case env_opt key env of None \<Rightarrow> True | Some v \<Rightarrow> \<not> isl (parse v))"

definition required_keys :: "string list" where
  "required_keys = [''DATABASE_URL'', ''RPC_HOST'', ''RPC_USER'', ''RPC_PASS'', ''ZMQ_BLOCKS_ENDPOINT'']"

definition number_keys :: "string list" where
  "number_keys = [''GAUGE_INTERVAL_SECS'', ''LOG_MAX_FILES'', ''POLL_INTERVAL_SECS'', ''TX_BACKFILL_QUEUE_CAPACITY'']"

definition flag_keys :: "string list" where
  "flag_keys = [''LOG_TO_FILE'', ''METRICS_ENABLED'']"

definition gauge_ok :: "variables \<Rightarrow> bool" where
  "gauge_ok env \<longleftrightarrow> (case env_opt ''GAUGE_INTERVAL_SECS'' env of None \<Rightarrow> True
     | Some v \<Rightarrow> (case parse_u64 v of Inr n \<Rightarrow> NATIVE_RESOLUTION_SECS \<le> n | Inl e \<Rightarrow> True))"

definition config_ok :: "variables \<Rightarrow> bool" where
  "config_ok env \<longleftrightarrow> list_all (\<lambda>k. env_opt k env \<noteq> None) required_keys \<and>
     list_all (\<lambda>k. parses parse_u64 k env) number_keys \<and> list_all (\<lambda>k. parses parse_bool k env) flag_keys \<and> gauge_ok env"

text \<open>What an error says of its variable.\<close>

fun error_true :: "variables \<Rightarrow> ConfigError \<Rightarrow> bool" where
  "error_true env (Missing key) \<longleftrightarrow> key \<in> set required_keys \<and> env_opt key env = None"
| "error_true env (Invalid key v reason) \<longleftrightarrow> key \<in> set number_keys \<and> \<not> parses parse_u64 key env \<and> env key = Some v \<or>
     key \<in> set flag_keys \<and> \<not> parses parse_bool key env \<and> env key = Some v \<or>
     key = ''GAUGE_INTERVAL_SECS'' \<and> \<not> gauge_ok env"

lemma env_req_facts:
  "env_req key env = Inr v \<Longrightarrow> env_opt key env = Some v" "env_req key env = Inl e \<Longrightarrow> e = Missing key \<and> env_opt key env = None"
  by (auto simp: env_req_def split: option.splits)

lemma env_opt_Some: "env_opt key env = Some v \<longleftrightarrow> env key = Some v \<and> v \<noteq> []"
  by (auto simp: env_opt_def split: option.splits if_splits)

lemma env_parse_Inr: "env_parse parse key def env = Inr x \<Longrightarrow> parses parse key env"
  by (auto simp: env_parse_def parses_def split: option.splits sum.splits)

lemma env_parse_Inl:
  "env_parse parse key def env = Inl e \<Longrightarrow> \<exists>v reason. e = Invalid key v reason \<and> env key = Some v \<and> \<not> parses parse key env"
  by (auto simp: env_parse_def parses_def split: option.splits sum.splits dest: env_opt_Some [THEN iffD1])

lemmas env_parse_facts = env_parse_Inr env_parse_Inl

lemma env_parse_u64:
  assumes "env_parse parse_u64 key def env = Inr x" "is_u64 def"
  shows "is_u64 x"
  using assms by (auto simp: env_parse_def parse_u64_bounds split: option.splits sum.splits)

lemma gauge_ok_read:
  assumes "env_parse parse_u64 ''GAUGE_INTERVAL_SECS'' DEFAULT_GAUGE_INTERVAL_SECS env = Inr gauge"
  shows "gauge_ok env \<longleftrightarrow> \<not> gauge < u64_of NATIVE_RESOLUTION_SECS"
  using assms
  by (auto simp: env_parse_def gauge_ok_def DEFAULT_GAUGE_INTERVAL_SECS_def NATIVE_RESOLUTION_SECS_def u64_of_id is_u64_def split: option.splits sum.splits)

lemma observer_from_env_facts:
  "observer_from_env env = Inl e \<Longrightarrow> error_true env e"
  "observer_from_env env = Inr cfg \<Longrightarrow> list_all (\<lambda>k. env_opt k env \<noteq> None) (tl required_keys) \<and>
     parses parse_u64 ''POLL_INTERVAL_SECS'' env \<and> is_u64 (oc_poll_interval_secs cfg)"
  by (auto simp: observer_from_env_def required_keys_def number_keys_def DEFAULT_POLL_INTERVAL_SECS_def
      split: sum.splits dest: env_req_facts env_parse_facts intro: env_parse_u64 simp: is_u64_def [of "numeral _"])

lemma logging_from_env_facts:
  "logging_from_env env = Inl e \<Longrightarrow> error_true env e"
  "logging_from_env env = Inr cfg \<Longrightarrow> parses parse_bool ''LOG_TO_FILE'' env \<and> parses parse_u64 ''LOG_MAX_FILES'' env"
  by (auto simp: logging_from_env_def number_keys_def flag_keys_def split: sum.splits dest: env_parse_facts)

lemma metrics_from_env_facts:
  "metrics_from_env env = Inl e \<Longrightarrow> error_true env e"
  "metrics_from_env env = Inr cfg \<Longrightarrow> parses parse_bool ''METRICS_ENABLED'' env"
  by (auto simp: metrics_from_env_def flag_keys_def split: sum.splits dest: env_parse_facts)

text \<open>A configuration is read exactly from the environments that have every required variable,
  numbers and flags that parse, and a gauge interval no shorter than the native resolution; what is
  read then keeps to that, and every number is a \<open>u64\<close>. Otherwise the error names a variable that is
  in fact missing, unreadable or too small.\<close>

theorem config_accepted_exactly:
  "case read_config env of
     Inr cfg \<Rightarrow> config_ok env \<and> env ''DATABASE_URL'' = Some (dc_url (ac_database cfg)) \<and>
       NATIVE_RESOLUTION_SECS \<le> ac_gauge_interval_secs cfg \<and> is_u64 (ac_gauge_interval_secs cfg) \<and>
       is_u64 (ac_tx_backfill_queue_capacity cfg) \<and> is_u64 (oc_poll_interval_secs (ac_observer cfg))
   | Inl e \<Rightarrow> \<not> config_ok env \<and> error_true env e"
proof -
  have wrong: "\<not> config_ok env" if "error_true env e" for e
    using that by (cases e) (auto simp: config_ok_def list_all_iff)
  have "error_true env e" if "read_config env = Inl e" for e
    using that
    by (auto simp: read_config_def number_keys_def required_keys_def gauge_ok_read split: sum.splits if_splits
        dest: env_parse_facts(2) env_req_facts(2) dest!: logging_from_env_facts(1) metrics_from_env_facts(1) observer_from_env_facts(1))
  moreover have "config_ok env" if "read_config env = Inr cfg" for cfg
    using that
    by (auto simp: read_config_def config_ok_def number_keys_def flag_keys_def required_keys_def gauge_ok_read split: sum.splits if_splits
        dest!: env_parse_facts(1) env_req_facts(1) logging_from_env_facts(2) metrics_from_env_facts(2) observer_from_env_facts(2))
  moreover have "env ''DATABASE_URL'' = Some (dc_url (ac_database cfg)) \<and>
      NATIVE_RESOLUTION_SECS \<le> ac_gauge_interval_secs cfg \<and> is_u64 (ac_gauge_interval_secs cfg) \<and>
      is_u64 (ac_tx_backfill_queue_capacity cfg) \<and> is_u64 (oc_poll_interval_secs (ac_observer cfg))"
    if "read_config env = Inr cfg" for cfg
    using that
    by (auto simp: read_config_def env_opt_Some u64_of_id is_u64_def [of "numeral _"] NATIVE_RESOLUTION_SECS_def
        DEFAULT_GAUGE_INTERVAL_SECS_def DEFAULT_TX_BACKFILL_QUEUE_CAPACITY_def split: sum.splits if_splits
        dest: observer_from_env_facts(2) dest!: env_req_facts(1) env_parse_u64)
  ultimately show ?thesis using wrong by (auto split: sum.split)
qed

section \<open>Where the settings go\<close>

text \<open>The runner gives the watchers the poll interval as a \<open>u32\<close>; the backfill queue is made with the
  configured capacity.\<close>

definition watch_rate :: "Config \<Rightarrow> int" where
  "watch_rate cfg = u32_of (oc_poll_interval_secs cfg)"

text \<open>Settings that are accepted and cannot work: a poll interval that is a multiple of \<open>2^32\<close> becomes
  no interval at all, and a queue capacity of zero, with which the channel's constructor panics.\<close>

theorem accepted_but_unusable:
  "case read_config [''DATABASE_URL'' \<mapsto> ''d'', ''RPC_HOST'' \<mapsto> ''h'', ''RPC_USER'' \<mapsto> ''u'', ''RPC_PASS'' \<mapsto> ''p'',
      ''ZMQ_BLOCKS_ENDPOINT'' \<mapsto> ''z'', ''POLL_INTERVAL_SECS'' \<mapsto> ''4294967296'', ''TX_BACKFILL_QUEUE_CAPACITY'' \<mapsto> ''0''] of
     Inl e \<Rightarrow> False
   | Inr cfg \<Rightarrow> watch_rate (ac_observer cfg) = 0 \<and> ac_tx_backfill_queue_capacity cfg = 0"
  by code_simp

end
