(* ===== verification/Shutdown.thy ===== *)
theory Shutdown
  imports Gate Events Config "HOL-Library.Sublist"
begin

text \<open>
  The server's life (\<open>api/src/infra/lifecycle.rs\<close> and the shutdown of \<open>api/src/main.rs\<close>): what it writes to
  the lifecycle log when it starts and when a signal comes, how it stops applying blocks, and how long the whole
  shutdown takes. The
  shutdown is one more caller \<open>me\<close> of the lock that serialises blocks (theory \<open>Gate\<close>); having it, it never gives
  it back. The commit the binary was built from is a parameter.
\<close>

section \<open>Start, signal and drain\<close>

datatype ShutdownSignal = SigTerm | SigInt

fun signal_name :: "ShutdownSignal \<Rightarrow> string" where
  "signal_name SigTerm = ''SIGTERM''"
| "signal_name SigInt = ''SIGINT''"

definition server_started_details :: "string \<Rightarrow> ApiConfig \<Rightarrow> json" where
  "server_started_details git_sha cfg = JObject [(''git_sha'', JString git_sha), (''bind'', JString (ac_bind cfg))]"

definition server_stopped_details :: "ShutdownSignal \<Rightarrow> int \<Rightarrow> json" where
  "server_stopped_details signal uptime =
    JObject [(''signal'', JString (signal_name signal)), (''uptime_secs'', JInt (uptime div 1000000000))]"

definition record_server_started :: "health_env \<Rightarrow> string \<Rightarrow> ApiConfig \<Rightarrow> health \<Rightarrow> health" where
  "record_server_started env git_sha cfg h = record_event env ServerStarted (server_started_details git_sha cfg) h"

definition record_server_stopped :: "health_env \<Rightarrow> ShutdownSignal \<Rightarrow> int \<Rightarrow> health \<Rightarrow> health" where
  "record_server_stopped env signal elapsed h = record_event env ServerStopped (server_stopped_details signal elapsed) h"

datatype BlockDrain = Idle | Waited | TimedOut

definition BLOCK_APPLY_DRAIN_TIMEOUT :: int where
  "BLOCK_APPLY_DRAIN_TIMEOUT = 280 * 1000000000"

definition try_stop_applying :: "nat \<Rightarrow> gate_state \<Rightarrow> gate_state option" where
  "try_stop_applying me g = (if gs_apply_lock g then None else Some (move me Locked g\<lparr>gs_apply_lock := True\<rparr>))"

text \<open>\<open>stop_applying_blocks\<close> up to its first pause, and what may end the pause: the lock comes free first,
  or it is still taken when the time is up.\<close>

datatype server_phase = Binding | Serving | Stopping | Draining instant | Drained BlockDrain

definition stop_begin :: "nat \<Rightarrow> int \<Rightarrow> gate_state \<Rightarrow> gate_state \<times> server_phase" where
  "stop_begin me timeout g =
    (case try_stop_applying me g of
       Some g' \<Rightarrow> (g', Drained Idle)
     | None \<Rightarrow> (g, Draining (gs_now g + timeout)))"

definition stop_wait :: "nat \<Rightarrow> instant \<Rightarrow> gate_state \<Rightarrow> gate_state \<times> server_phase" where
  "stop_wait me deadline g =
    (case try_stop_applying me g of
       Some g' \<Rightarrow> (g', Drained Waited)
     | None \<Rightarrow> (g, if deadline \<le> gs_now g then Drained TimedOut else Draining deadline))"

section \<open>The server beside its block service\<close>

record server =
  sv_start :: instant
  sv_gate :: gate_state
  sv_health :: health
  sv_phase :: server_phase

definition server_starts :: "nat \<Rightarrow> server \<Rightarrow> bool" where
  "server_starts me s \<longleftrightarrow> gate_starts (sv_gate s) \<and> sv_health s = fresh_health \<and> sv_phase s = Binding"

inductive server_step for env git_sha cfg me where
  started: "sv_phase s = Binding \<Longrightarrow> server_step env git_sha cfg me s
    (s\<lparr>sv_health := record_server_started env git_sha cfg (sv_health s), sv_phase := Serving\<rparr>)"
| signalled: "sv_phase s = Serving \<Longrightarrow> server_step env git_sha cfg me s
    (s\<lparr>sv_health := record_server_stopped env signal (gs_now (sv_gate s) - sv_start s) (sv_health s), sv_phase := Stopping\<rparr>)"
| drain_begins: "sv_phase s = Stopping \<Longrightarrow> stop_begin me BLOCK_APPLY_DRAIN_TIMEOUT (sv_gate s) = (g, p) \<Longrightarrow>
    server_step env git_sha cfg me s (s\<lparr>sv_gate := g, sv_phase := p\<rparr>)"
| drain_waits: "sv_phase s = Draining deadline \<Longrightarrow> stop_wait me deadline (sv_gate s) = (g, p) \<Longrightarrow>
    server_step env git_sha cfg me s (s\<lparr>sv_gate := g, sv_phase := p\<rparr>)"
| works: "gate_step (sv_gate s) g \<Longrightarrow> gs_callers g me = gs_callers (sv_gate s) me \<Longrightarrow>
    server_step env git_sha cfg me s (s\<lparr>sv_gate := g\<rparr>)"
| logs: "kind \<noteq> ServerStarted \<Longrightarrow> kind \<noteq> ServerStopped \<Longrightarrow>
    server_step env git_sha cfg me s (s\<lparr>sv_health := record_event env kind details (sv_health s)\<rparr>)"

definition lifecycle_log :: "health \<Rightarrow> SystemEventKind list" where
  "lifecycle_log h = filter (\<lambda>k. k = ServerStarted \<or> k = ServerStopped) (map se_kind (hs_events h))"

fun logged_in :: "server_phase \<Rightarrow> SystemEventKind list" where
  "logged_in Binding = []"
| "logged_in Serving = [ServerStarted]"
| "logged_in _ = [ServerStarted, ServerStopped]"

fun lock_kept :: "server_phase \<Rightarrow> bool" where
  "lock_kept (Drained d) \<longleftrightarrow> d \<noteq> TimedOut"
| "lock_kept _ \<longleftrightarrow> False"

definition server_inv :: "nat \<Rightarrow> server \<Rightarrow> bool" where
  "server_inv me s \<longleftrightarrow> gate_inv (sv_gate s) \<and> gs_callers (sv_gate s) me = (if lock_kept (sv_phase s) then Locked else Outside) \<and>
     subseq (lifecycle_log (sv_health s)) (logged_in (sv_phase s))"

text \<open>A failed insert is swallowed: its row is missing, and nothing else is.\<close>

lemma lifecycle_log_record:
  "lifecycle_log (record_event env kind details h) =
    lifecycle_log h @ (if (kind = ServerStarted \<or> kind = ServerStopped) \<and> he_fault env (hs_steps h) = None then [kind] else [])"
  by (auto simp: lifecycle_log_def record_event_def hs_step_def event_insert_def split: option.split)

lemma try_stop_inv:
  assumes "try_stop_applying me g = Some g'" "gate_inv g" "gs_callers g me = Outside"
  shows "gate_inv g' \<and> gs_callers g' me = Locked"
proof -
  have "gate_step g g'" using assms gate_step.lock [of g me] by (auto simp: try_stop_applying_def split: if_splits)
  then show ?thesis using gate_step_inv assms by (auto simp: try_stop_applying_def split: if_splits)
qed

lemma server_step_inv:
  assumes "server_step env git_sha cfg me s s'" "server_inv me s"
  shows "server_inv me s'"
  using assms
proof cases
  case drain_begins
  then show ?thesis
    using assms(2) by (auto simp: server_inv_def stop_begin_def split: option.splits dest: try_stop_inv)
next
  case (drain_waits deadline g p)
  have "\<not> lock_kept (sv_phase s)" "logged_in (sv_phase s) = [ServerStarted, ServerStopped]"
    by (simp_all add: drain_waits(2))
  with assms(2) drain_waits(1,3) show ?thesis
    by (auto simp: server_inv_def stop_wait_def split: option.splits if_splits dest: try_stop_inv)
next
  case (works g)
  then show ?thesis using assms(2) gate_step_inv by (auto simp: server_inv_def)
qed (auto simp: server_inv_def record_server_started_def record_server_stopped_def lifecycle_log_record
    intro: list_emb_append_mono [of _ _ _ "[]", simplified] list_emb_append_mono [of _ _ _ "[_]", simplified] subseq_order.trans)

lemma server_starts_inv: "server_starts me s \<Longrightarrow> server_inv me s"
  by (auto simp: server_starts_def server_inv_def gate_starts_def gate_inv_def gate_default_def lifecycle_log_def fresh_health_def)

interpretation server_life: machine "server_starts me" "server_step env git_sha cfg me" "server_inv me" for env git_sha cfg me
  by (unfold_locales, erule server_starts_inv, rule server_step_inv)

lemma server_logs:
  assumes "server_step env git_sha cfg me s s'" "no_event_faults env" "lifecycle_log (sv_health s) = logged_in (sv_phase s)"
  shows "lifecycle_log (sv_health s') = logged_in (sv_phase s')"
  using assms(1)
proof cases
  case (drain_begins g p)
  then show ?thesis using assms(3) by (auto simp: stop_begin_def split: option.splits)
next
  case (drain_waits deadline g p)
  have "logged_in (sv_phase s) = [ServerStarted, ServerStopped]" by (simp add: drain_waits(2))
  with assms(3) drain_waits(1,3) show ?thesis by (auto simp: stop_wait_def split: option.splits if_splits)
qed (use assms(2,3) in \<open>simp_all add: record_server_started_def record_server_stopped_def lifecycle_log_record no_event_faults_def\<close>)

text \<open>C20: Shutdown is final for blocks. Once the drain has ended without running into its timeout, no
  caller of \<open>apply_block\<close> is applying a block or about to, then or at any later time, and the gate is
  open, so the last flushes are not held back, whichever inserts into the log fail. The
  lifecycle log never has more than the server's start once it serves, and then its stop, once each and in this order; it
  has exactly these when no insert into it fails (a failed one is swallowed).\<close>

theorem shutdown_stops_blocks:
  assumes "server_starts me s0" "(server_step env git_sha cfg me)\<^sup>*\<^sup>* s0 s"
  shows "(lock_kept (sv_phase s) \<longrightarrow> (\<forall>i. i \<noteq> me \<longrightarrow> gs_callers (sv_gate s) i = Outside) \<and>
      gs_callers (sv_gate s) me = Locked \<and> \<not> fst (is_held (gs_now (sv_gate s)) (gs_gate (sv_gate s)))) \<and>
    subseq (lifecycle_log (sv_health s)) (logged_in (sv_phase s)) \<and>
    (no_event_faults env \<longrightarrow> lifecycle_log (sv_health s) = logged_in (sv_phase s))"
proof -
  have inv: "server_inv me s"
    by (rule server_life.reached_inv [OF assms])
  have logged: "lifecycle_log (sv_health s) = logged_in (sv_phase s)" if "no_event_faults env"
    using assms(2)
  proof (induction rule: rtranclp_induct)
    case base
    then show ?case using assms(1) by (simp add: server_starts_def lifecycle_log_def fresh_health_def)
  next
    case (step s1 s2)
    then show ?case using server_logs that by blast
  qed
  have "(\<forall>i. i \<noteq> me \<longrightarrow> gs_callers (sv_gate s) i = Outside) \<and> \<not> fst (is_held (gs_now (sv_gate s)) (gs_gate (sv_gate s)))"
    if "gs_callers (sv_gate s) me = Locked"
  proof -
    from inv have gate: "gate_inv (sv_gate s)" by (simp add: server_inv_def)
    then have others: "gs_callers (sv_gate s) i = Outside" if "i \<noteq> me" for i
      using \<open>gs_callers (sv_gate s) me = Locked\<close> that unfolding gate_inv_def by (metis caller.distinct(1))
    then have "gated_since (gs_callers (sv_gate s) i) = None" for i
      using \<open>gs_callers (sv_gate s) me = Locked\<close> by (cases "i = me") simp_all
    then show ?thesis using gate others unfolding gate_inv_def is_held_iff by fastforce
  qed
  then show ?thesis using inv logged by (simp add: server_inv_def)
qed

definition sample_server :: server where
  "sample_server = \<lparr>sv_start = 7, sv_gate = sample_gate_state, sv_health = fresh_health, sv_phase = Binding\<rparr>"

definition sample_config :: ApiConfig where
  "sample_config = \<lparr>ac_bind = ''127.0.0.1:3333'', ac_database = \<lparr>dc_url = ''db''\<rparr>,
     ac_logging = \<lparr>lc_level = ''debug'', lc_to_file = False, lc_dir = ''logs'', lc_max_files = 30\<rparr>,
     ac_metrics = \<lparr>mc_enabled = False, mc_bind = ''127.0.0.1:3334''\<rparr>,
     ac_observer = \<lparr>oc_rpc = \<lparr>rc_host = ''h'', rc_user = ''u'', rc_pass = ''p''\<rparr>, oc_zmq = \<lparr>zc_blocks_endpoint = ''e''\<rparr>,
       oc_poll_interval_secs = 10\<rparr>,
     ac_data_dir = ''data'', ac_gauge_interval_secs = 60, ac_tx_backfill_queue_capacity = 100000\<rparr>"

theorem shutdown_stops_blocks_witness:
  "\<exists>s. (server_step sample_health_env ''abc'' sample_config 0)\<^sup>*\<^sup>* sample_server s \<and> sv_phase s = Drained Idle \<and>
     gs_callers (sv_gate s) 3 = Outside \<and> lifecycle_log (sv_health s) = [ServerStarted, ServerStopped]"
proof -
  let ?step = "server_step sample_health_env ''abc'' sample_config 0"
  let ?s1 = "sample_server\<lparr>sv_health := record_server_started sample_health_env ''abc'' sample_config (sv_health sample_server), sv_phase := Serving\<rparr>"
  let ?s2 = "?s1\<lparr>sv_health := record_server_stopped sample_health_env SigInt (gs_now (sv_gate ?s1) - sv_start ?s1) (sv_health ?s1), sv_phase := Stopping\<rparr>"
  let ?s3 = "?s2\<lparr>sv_gate := move 0 Locked sample_gate_state\<lparr>gs_apply_lock := True\<rparr>, sv_phase := Drained Idle\<rparr>"
  have "?step sample_server ?s1" by (rule server_step.started) (simp add: sample_server_def)
  moreover have "?step ?s1 ?s2" by (rule server_step.signalled) simp
  moreover have "?step ?s2 ?s3"
    by (rule server_step.drain_begins) (simp_all add: sample_server_def stop_begin_def try_stop_applying_def sample_gate_state_def)
  ultimately have run: "?step\<^sup>*\<^sup>* sample_server ?s3"
    by (meson converse_rtranclp_into_rtranclp rtranclp.rtrancl_refl)
  have "no_event_faults sample_health_env" "server_starts 0 sample_server"
    by (simp_all add: no_event_faults_def sample_health_env_def server_starts_def sample_server_def sample_gate_starts)
  with shutdown_stops_blocks [OF this(2) run] run show ?thesis by (intro exI [of _ ?s3]) simp
qed

section \<open>The whole shutdown\<close>

definition DRAIN_OUTCOME_SCRAPE_WAIT :: int where
  "DRAIN_OUTCOME_SCRAPE_WAIT = 6 * 1000000000"

definition TX_INPUT_DRAIN_TIMEOUT :: int where
  "TX_INPUT_DRAIN_TIMEOUT = 10 * 1000000000"

definition MEMPOOL_RECONCILER_DRAIN_TIMEOUT :: int where
  "MEMPOOL_RECONCILER_DRAIN_TIMEOUT = 5 * 1000000000"

fun drain_label :: "BlockDrain \<Rightarrow> string" where
  "drain_label Idle = ''idle''"
| "drain_label Waited = ''waited''"
| "drain_label TimedOut = ''timed_out''"

text \<open>The other tasks are known by when they let go: the block that is in flight gives its lock away, the startup
  task sends a worker's join handle or drops the channel, the worker ends (or panics, which its join
  handle reports as well). \<open>None\<close> is never. What a line between two waits costs is left out.\<close>

datatype handle_fate = Never_sent | Dropped_at instant | Sent_at instant "instant option"

fun drain_ready :: "handle_fate \<Rightarrow> instant option" where
  "drain_ready Never_sent = None"
| "drain_ready (Dropped_at t) = Some t"
| "drain_ready (Sent_at t task) = map_option (max t) task"

text \<open>\<open>tokio::time::timeout\<close>: when it answers, and whether with the future's result.\<close>

definition timeout_after :: "int \<Rightarrow> instant \<Rightarrow> instant option \<Rightarrow> instant \<times> bool" where
  "timeout_after limit now ready =
    (case ready of
       Some t \<Rightarrow> if t \<le> now + limit then (max now t, True) else (now + limit, False)
     | None \<Rightarrow> (now + limit, False))"

datatype shutdown_act =
    Counted_drain string | Notified_consumer instant | Notified_reconciler instant
  | Warned_blocks | Warned_consumer | Warned_reconciler

definition stop_applying_blocks :: "int \<Rightarrow> instant \<Rightarrow> instant option \<Rightarrow> BlockDrain \<times> instant \<times> shutdown_act list" where
  "stop_applying_blocks limit now unlocked =
    (let (drain, end, acts) =
       if \<exists>t. unlocked = Some t \<and> t \<le> now then (Idle, now, [])
       else case timeout_after limit now unlocked of
              (end, True) \<Rightarrow> (Waited, end, [])
            | (end, False) \<Rightarrow> (TimedOut, end, [Warned_blocks])
     in (drain, end, acts @ [Counted_drain (drain_label drain)]))"

definition drain_tx_backfill_consumer :: "int \<Rightarrow> instant \<Rightarrow> handle_fate \<Rightarrow> instant \<times> shutdown_act list" where
  "drain_tx_backfill_consumer limit now handle =
    (case timeout_after limit now (drain_ready handle) of
       (end, finished) \<Rightarrow> (end, Notified_consumer now # (if finished then [] else [Warned_consumer])))"

definition drain_mempool_reconciler :: "int \<Rightarrow> instant \<Rightarrow> handle_fate \<Rightarrow> instant \<times> shutdown_act list" where
  "drain_mempool_reconciler limit now handle =
    (case timeout_after limit now (drain_ready handle) of
       (end, finished) \<Rightarrow> (end, Notified_reconciler now # (if finished then [] else [Warned_reconciler])))"

definition scrape_wait :: "BlockDrain \<Rightarrow> instant \<Rightarrow> instant \<Rightarrow> instant" where
  "scrape_wait drain drained_at now =
    (if drain \<noteq> Idle then now + max 0 (DRAIN_OUTCOME_SCRAPE_WAIT - (now - drained_at)) else now)"

record shutdown_run =
  sr_drain :: BlockDrain
  sr_drained_at :: instant
  sr_exit :: instant
  sr_acts :: "shutdown_act list"

text \<open>The shutdown future of \<open>run\<close>, from the moment the stop is in the lifecycle log.\<close>

definition shutdown_sequence :: "instant \<Rightarrow> instant option \<Rightarrow> handle_fate \<Rightarrow> handle_fate \<Rightarrow> shutdown_run" where
  "shutdown_sequence now unlocked consumer reconciler =
    (let (drain, drained_at, acts1) = stop_applying_blocks BLOCK_APPLY_DRAIN_TIMEOUT now unlocked;
         (t2, acts2) = drain_tx_backfill_consumer TX_INPUT_DRAIN_TIMEOUT drained_at consumer;
         (t3, acts3) = drain_mempool_reconciler MEMPOOL_RECONCILER_DRAIN_TIMEOUT t2 reconciler
     in \<lparr>sr_drain = drain, sr_drained_at = drained_at, sr_exit = scrape_wait drain drained_at t3,
          sr_acts = acts1 @ acts2 @ acts3\<rparr>)"

text \<open>From the signal to the end of \<open>run\<close>. First \<open>record_server_stopped\<close> waits for its insert, over at \<open>recorded\<close>; then comes the
  sequence; then \<open>axum::serve\<close> waits for the connections that are still open, the last of which ends at
  \<open>connections\<close>. Neither of these two waits has a timeout: \<open>None\<close> is never.\<close>

definition process_exit :: "instant option \<Rightarrow> instant option \<Rightarrow> handle_fate \<Rightarrow> handle_fate \<Rightarrow> instant option \<Rightarrow> instant option" where
  "process_exit recorded unlocked consumer reconciler connections =
    (case recorded of
       None \<Rightarrow> None
     | Some now \<Rightarrow> map_option (max (sr_exit (shutdown_sequence now unlocked consumer reconciler))) connections)"

text \<open>Docker's \<open>stop_grace_period\<close> for the service (\<open>compose.yml\<close>): what is not over then is killed.\<close>

definition stop_grace_period :: int where
  "stop_grace_period = 5 * 60 * 1000000000"

lemma timeout_after_within:
  assumes "0 \<le> limit"
  shows "now \<le> fst (timeout_after limit now ready) \<and> fst (timeout_after limit now ready) \<le> now + limit"
  using assms by (auto simp: timeout_after_def split: option.splits)

lemma stop_applying_within:
  assumes "0 \<le> limit" "stop_applying_blocks limit now unlocked = (drain, end, acts)"
  shows "now \<le> end \<and> end \<le> now + limit \<and> (drain = Idle \<longrightarrow> end = now)"
  using assms timeout_after_within [OF assms(1), of now unlocked]
  by (auto simp: stop_applying_blocks_def Let_def split: if_splits prod.splits bool.splits)

lemma drain_consumer_within:
  assumes "0 \<le> limit" "drain_tx_backfill_consumer limit now handle = (end, acts)"
  shows "now \<le> end \<and> end \<le> now + limit"
  using assms timeout_after_within [OF assms(1), of now "drain_ready handle"]
  by (auto simp: drain_tx_backfill_consumer_def split: prod.splits)

lemma drain_reconciler_within:
  assumes "0 \<le> limit" "drain_mempool_reconciler limit now handle = (end, acts)"
  shows "now \<le> end \<and> end \<le> now + limit"
  using assms timeout_after_within [OF assms(1), of now "drain_ready handle"]
  by (auto simp: drain_mempool_reconciler_def split: prod.splits)

lemmas drain_limits = BLOCK_APPLY_DRAIN_TIMEOUT_def TX_INPUT_DRAIN_TIMEOUT_def MEMPOOL_RECONCILER_DRAIN_TIMEOUT_def
  DRAIN_OUTCOME_SCRAPE_WAIT_def

text \<open>How the timed drain and the steps of the lock describe the same wait: the first look decides whether it is
  idle, and every later look up to the deadline finds the lock taken until it is given away.\<close>

lemma stop_begin_timed:
  assumes "gs_apply_lock g \<longleftrightarrow> \<not> (\<exists>t. unlocked = Some t \<and> t \<le> gs_now g)"
  shows "snd (stop_begin me limit g) =
    (if fst (stop_applying_blocks limit (gs_now g) unlocked) = Idle then Drained Idle else Draining (gs_now g + limit))"
  using assms by (auto simp: stop_begin_def try_stop_applying_def stop_applying_blocks_def Let_def split: prod.splits bool.splits)

lemma stop_wait_timed:
  assumes "gs_apply_lock g \<longleftrightarrow> \<not> (\<exists>t. unlocked = Some t \<and> t \<le> gs_now g)" "gs_now g \<le> deadline" "0 \<le> limit"
    "\<not> (\<exists>t. unlocked = Some t \<and> t \<le> deadline - limit)" "snd (stop_wait me deadline g) = Drained d"
  shows "fst (stop_applying_blocks limit (deadline - limit) unlocked) = d"
  using assms
  by (auto simp: stop_wait_def try_stop_applying_def stop_applying_blocks_def timeout_after_def Let_def
      split: if_splits option.splits)



end
