(* ===== verification/Startup.thy ===== *)
theory Startup
  imports Bootstrap Events
begin

text \<open>
  Start-up from the first poll to serving (the task of \<open>api/src/main.rs\<close>, \<open>BootstrapService::run\<close>): the wait for the
  node, the phases a client sees, the lifecycle rows and the bootstrap of theory \<open>Bootstrap\<close>. The
  lengths of time are arguments.
\<close>

section \<open>Operations\<close>

definition bootstrap_completed_details :: "int \<Rightarrow> MempoolReconciliation option \<Rightarrow> json" where
  "bootstrap_completed_details duration reconciliation =
    (case reconciliation of
       Some r \<Rightarrow> JObject [(''duration_ms'', JInt (duration div 1000000)), (''txs_added'', JInt (int (mr_txs_added r))),
         (''txs_removed'', JInt (int (mr_txs_removed r)))]
     | None \<Rightarrow> JObject [(''duration_ms'', JInt (duration div 1000000)), (''reconciled'', JBool False)])"

definition bootstrap_service_run ::
  "health_env \<Rightarrow> env \<Rightarrow> block_node \<Rightarrow> (nat \<Rightarrow> ObserverError + MempoolEntrySummary list) \<Rightarrow> int \<Rightarrow> health \<times> app \<Rightarrow> (health \<times> app) option" where
  "bootstrap_service_run henv env nd raw_mempool elapsed s =
    (case s of (h, ap) \<Rightarrow>
       Option.bind (bootstrap_run env nd raw_mempool ap)
         (\<lambda>(reconciliation, ap'). Some (record_event henv BootstrapCompleted (bootstrap_completed_details elapsed reconciliation)
            (record_event henv BootstrapStarted (JObject []) h), ap')))"

definition startup ::
  "health_env \<Rightarrow> polls \<Rightarrow> env \<Rightarrow> block_node \<Rightarrow> (nat \<Rightarrow> ObserverError + MempoolEntrySummary list) \<Rightarrow> int \<Rightarrow>
    Readiness \<times> health \<times> app \<Rightarrow> (Readiness \<times> health \<times> app) option" where
  "startup henv p env nd raw_mempool elapsed s =
    (case s of (r, h, ap) \<Rightarrow>
       Option.bind (wait_until_ready henv p 0 (r, h))
         (\<lambda>(r1, h1). let r2 = set_phase Bootstrapping r1 in
            Option.bind (bootstrap_service_run henv env nd raw_mempool elapsed (h1, ap))
              (\<lambda>(h2, ap'). Some (set_phase Ready r2, h2, ap'))))"

section \<open>When the service becomes ready\<close>

definition boot_log :: "health \<Rightarrow> SystemEventKind list" where
  "boot_log h = filter (\<lambda>k. k = BootstrapStarted \<or> k = BootstrapCompleted) (map se_kind (hs_events h))"

lemma boot_log_record:
  assumes "no_event_faults env"
  shows "boot_log (record_event env kind details h) =
    boot_log h @ (if kind = BootstrapStarted \<or> kind = BootstrapCompleted then [kind] else [])"
  using assms by (simp add: boot_log_def record_event_def hs_step_def event_insert_def no_event_faults_def)

lemma bootstrap_run_returns: "bootstrap_run env nd raw_mempool ap \<noteq> None \<longleftrightarrow> sync_missing_blocks env nd 0 (ap_world ap) \<noteq> None"
  by (cases "sync_missing_blocks env nd 0 (ap_world ap)") (auto simp: bootstrap_run_def split: prod.split)

lemma upsert_batches_blocks: "upsert_batches fill bs n d = Inr (k, d') \<Longrightarrow> db_blocks d' = db_blocks d"
  by (induction fill bs n d rule: upsert_batches.induct) (auto split: sum.splits prod.splits if_splits)

lemma insert_many_blocks: "db_blocks (snd (insert_many fault rows d)) = db_blocks d"
  by (auto simp: insert_many_def query_def upsert_batches_blocks split: option.split sum.split)

lemma setup_blocks: "db_blocks (w_db (ap_world (snd (setup_mempool_snapshot env raw_mempool ap)))) = db_blocks (w_db (ap_world ap))"
  using insert_many_blocks
  by (auto simp: setup_mempool_snapshot_def db_read_def db_write_def Let_def queue_incomplete_world step_def split_beta split: sum.split)

lemma bootstrap_run_blocks:
  assumes "bootstrap_run env nd raw_mempool ap = Some (rc, ap')"
  shows "\<exists>delays m w1. sync_missing_blocks env nd 0 (ap_world ap) = Some (delays, m, w1) \<and> heights (w_db (ap_world ap')) = heights (w_db w1)"
proof -
  obtain delays m w1 where sync: "sync_missing_blocks env nd 0 (ap_world ap) = Some (delays, m, w1)"
    using assms by (auto simp: bootstrap_run_def Option.bind_eq_Some_conv)
  have "db_blocks (w_db (seed_snapshot env w)) = db_blocks (w_db w)" for w
    by (simp add: seed_snapshot_def db_read_def step_def split: sum.split)
  with assms sync setup_blocks [of env raw_mempool "ap\<lparr>ap_world := w1\<rparr>"] show ?thesis
    by (auto simp: bootstrap_run_def heights_def split: prod.splits)
qed

lemma poll_step_boot_log:
  assumes "no_event_faults henv"
  shows "boot_log (snd (snd (poll_step henv p n s))) = boot_log (snd s)"
  using assms
  by (cases s) (auto simp: poll_step_def observe_reachable_def observe_unreachable_def transition_def check_version_def
      Let_def boot_log_record hs_step_def boot_log_def [of "_\<lparr>hs_steps := _\<rparr>"] boot_log_def [of "_\<lparr>hs_last := _\<rparr>"]
      boot_log_def [symmetric] split: sum.splits option.splits)

lemma wait_boot_log:
  assumes "wait_until_ready henv p n s = Some s'" "no_event_faults henv"
  shows "boot_log (snd s') = boot_log (snd s)"
proof -
  have "no_event_faults henv \<longrightarrow> boot_log (snd s') = boot_log (snd s)"
  proof (rule wait_until_ready.raw_induct [where P = "\<lambda>henv p n s s'. no_event_faults henv \<longrightarrow> boot_log (snd s') = boot_log (snd s)", OF _ assms(1)])
    fix w :: "health_env \<Rightarrow> polls \<Rightarrow> nat \<Rightarrow> Readiness \<times> health \<Rightarrow> (Readiness \<times> health) option" and henv p n s s'
    assume "\<And>henv p n s s'. w henv p n s = Some s' \<Longrightarrow> no_event_faults henv \<longrightarrow> boot_log (snd s') = boot_log (snd s)"
      and "(case poll_step henv p n s of (ready, s') \<Rightarrow> if ready then Some s' else w henv p (Suc n) s') = Some s'"
    then show "no_event_faults henv \<longrightarrow> boot_log (snd s') = boot_log (snd s)"
      using poll_step_boot_log [of henv p n s] by (auto simp: split_beta split: if_splits)
  qed
  with assms(2) show ?thesis by blast
qed

text \<open>C35: When the service serves data. Start-up comes to its end exactly when the node is found up at
  some poll and the sync of missed blocks returns. Then the phase is ready, the health report shows
  the chain state of the first poll that found the node up, the stored chain is the one the sync
  left, and the lifecycle log has gained the start and the completion of the bootstrap, in this order,
  if its writes did not fail.\<close>

theorem startup_ready_exactly:
  "case startup henv p env nd raw_mempool elapsed (r, h, ap) of
     None \<Rightarrow> \<not> ((\<exists>k. node_up p k) \<and> sync_missing_blocks env nd 0 (ap_world ap) \<noteq> None)
   | Some (r', h', ap') \<Rightarrow> node_up p (LEAST k. node_up p k) \<and>
       (\<exists>delays m w1. sync_missing_blocks env nd 0 (ap_world ap) = Some (delays, m, w1) \<and> heights (w_db (ap_world ap')) = heights (w_db w1)) \<and>
       is_ready r' \<and> (\<exists>h1. reports_up p (LEAST k. node_up p k) (r', h1)) \<and>
       boot_log h' = (if no_event_faults henv then boot_log h @ [BootstrapStarted, BootstrapCompleted] else boot_log h')"
proof (cases "wait_until_ready henv p 0 (r, h)")
  case None
  then show ?thesis using wait_until_ready_returns [of henv p "(r, h)"] by (simp add: startup_def)
next
  case (Some waited)
  obtain r1 h1 where waited: "waited = (r1, h1)" by (rule prod.exhaust)
  have up: "\<exists>k. node_up p k" "reports_up p (LEAST k. node_up p k) (r1, h1)"
    using wait_until_ready_returns [of henv p "(r, h)"] Some waited by auto
  show ?thesis
  proof (cases "bootstrap_run env nd raw_mempool ap")
    case None
    then have "sync_missing_blocks env nd 0 (ap_world ap) = None" using bootstrap_run_returns by blast
    with None Some waited show ?thesis by (simp add: startup_def bootstrap_service_run_def Let_def)
  next
    case (Some booted)
    obtain rc ap' where booted: "booted = (rc, ap')" by (rule prod.exhaust)
    have "boot_log h1 = boot_log h" if "no_event_faults henv"
      using wait_boot_log [OF \<open>wait_until_ready henv p 0 (r, h) = Some waited\<close> that] waited by simp
    then show ?thesis
      using \<open>wait_until_ready henv p 0 (r, h) = Some waited\<close> waited Some booted up LeastI_ex [OF up(1)]
        bootstrap_run_blocks [of env nd raw_mempool ap rc ap']
      by (auto simp: startup_def bootstrap_service_run_def Let_def is_ready_def set_phase_def boot_log_record reports_up_def)
  qed
qed

end
