(* ===== verification/Routes.thy ===== *)
theory Routes
  imports Api Events Samples Watchers
begin

text \<open>
  The HTTP surface: the router with its readiness gate (\<open>api/src/infra/router.rs\<close>) and the handlers
  (\<open>api/src/controllers/\<close>), over the services of the other theories. A request is what the web framework has
  matched and extracted; a response is its status, the retry hint and the body before serialisation.
\<close>

section \<open>Requests, responses and what the handlers read\<close>

datatype Request =
    Health
  | SystemEvents "instant option" "instant option"
  | MempoolFeerate
  | MempoolTxids
  | MempoolGauge GaugeMetric "instant option" "instant option"
  | MempoolCounters "instant option" "instant option"
  | Transactions string
  | Ws

record SystemEvent =
  ev_id :: int
  ev_kind :: SystemEventKind
  ev_details :: json
  ev_created_at :: instant

datatype Body =
    HealthBody HealthReport
  | SystemEventsBody "SystemEvent list"
  | FeerateBody MempoolFeerateDiagram
  | TxidsBody "txid set"
  | GaugeBody GaugeSeries
  | CountersBody CounterSeries
  | LookupBody TransactionLookup
  | Upgrade
  | Text string

record Response =
  rs_status :: nat
  rs_retry_after :: "string option"
  rs_body :: Body

text \<open>The state behind the handlers, and how the database answers the one query of a request.\<close>

record app_state =
  as_readiness :: Readiness
  as_ledger :: Inner
  as_feerate_diagram :: MempoolFeerateDiagram
  as_events :: "SystemEventRow list"
  as_gauges :: "MempoolGaugeSampleRow list"
  as_counters :: "MempoolCounterSampleRow list"
  as_db :: db

record request_env =
  re_now :: instant
  re_fault :: fault
  re_row_fault :: "RepoError option"

section \<open>Handlers\<close>

definition ok :: "Body \<Rightarrow> Response" where
  "ok body = \<lparr>rs_status = 200, rs_retry_after = None, rs_body = body\<rparr>"

definition respond :: "('a \<Rightarrow> Body) \<Rightarrow> ApiError + 'a \<Rightarrow> Response" where
  "respond body result =
    (case result of
       Inr x \<Rightarrow> ok (body x)
     | Inl e \<Rightarrow> (case into_response e of (status, msg) \<Rightarrow> \<lparr>rs_status = status, rs_retry_after = None, rs_body = Text msg\<rparr>))"

definition system_event_of :: "SystemEventRow \<Rightarrow> SystemEvent" where
  "system_event_of row = \<lparr>ev_id = se_id row, ev_kind = se_kind row, ev_details = se_details row, ev_created_at = se_created_at row\<rparr>"

definition event_service_list ::
  "(RepoError \<Rightarrow> string) \<Rightarrow> RepoError option \<Rightarrow> instant option \<Rightarrow> instant option \<Rightarrow> SystemEventRow list \<Rightarrow> ApiError + SystemEvent list" where
  "event_service_list inner fault from to rows =
    (case list_events fault from to rows of Inl e \<Rightarrow> Inl (api_error_of inner e) | Inr rs \<Rightarrow> Inr (map system_event_of rs))"

definition health_route :: "app_state \<Rightarrow> Response" where
  "health_route st = ok (HealthBody (health_report (as_readiness st)))"

definition system_events ::
  "(RepoError \<Rightarrow> string) \<Rightarrow> request_env \<Rightarrow> instant option \<Rightarrow> instant option \<Rightarrow> app_state \<Rightarrow> Response" where
  "system_events inner re from to st =
    respond SystemEventsBody (event_service_list inner (re_row_fault re) from to (as_events st))"

definition feerate_current :: "app_state \<Rightarrow> MempoolFeerateDiagram" where
  "feerate_current st = as_feerate_diagram st"

definition feerate_diagram :: "app_state \<Rightarrow> Response" where
  "feerate_diagram st = ok (FeerateBody (feerate_current st))"

definition mempool_txids :: "app_state \<Rightarrow> Response" where
  "mempool_txids st = ok (TxidsBody (lg_live (as_ledger st)))"

definition mempool_gauge_metric ::
  "(RepoError \<Rightarrow> string) \<Rightarrow> (int \<Rightarrow> int) \<Rightarrow> request_env \<Rightarrow> GaugeMetric \<Rightarrow> instant option \<Rightarrow> instant option \<Rightarrow> app_state \<Rightarrow> Response" where
  "mempool_gauge_metric inner vb re metric from to st =
    respond GaugeBody (metric_series inner vb (re_row_fault re) (re_now re) metric from to (as_gauges st))"

definition mempool_counters ::
  "(RepoError \<Rightarrow> string) \<Rightarrow> request_env \<Rightarrow> instant option \<Rightarrow> instant option \<Rightarrow> app_state \<Rightarrow> Response" where
  "mempool_counters inner re from to st =
    respond CountersBody (counter_series inner (re_row_fault re) (re_now re) from to (as_counters st))"

definition transactions_route ::
  "(RepoError \<Rightarrow> string) \<Rightarrow> (int \<Rightarrow> int) \<Rightarrow> request_env \<Rightarrow> string \<Rightarrow> app_state \<Rightarrow> Response" where
  "transactions_route inner vb re raw st = respond LookupBody (transactions inner vb (re_fault re) raw (as_db st))"

text \<open>The websocket's handshake succeeds; what follows is theory \<open>Websocket\<close>.\<close>

definition ws_handler :: Response where
  "ws_handler = \<lparr>rs_status = 101, rs_retry_after = None, rs_body = Upgrade\<rparr>"

section \<open>The router\<close>

definition gate_layer :: "Readiness \<Rightarrow> Response \<Rightarrow> Response" where
  "gate_layer r response =
    (case require_ready r response of
       Served x \<Rightarrow> x
     | Unavailable seconds report \<Rightarrow> \<lparr>rs_status = 503, rs_retry_after = Some seconds, rs_body = HealthBody report\<rparr>)"

definition serve :: "(RepoError \<Rightarrow> string) \<Rightarrow> (int \<Rightarrow> int) \<Rightarrow> request_env \<Rightarrow> Request \<Rightarrow> app_state \<Rightarrow> Response" where
  "serve inner vb re request st =
    (case request of
       Health \<Rightarrow> health_route st
     | SystemEvents from to \<Rightarrow> system_events inner re from to st
     | MempoolFeerate \<Rightarrow> gate_layer (as_readiness st) (feerate_diagram st)
     | MempoolTxids \<Rightarrow> gate_layer (as_readiness st) (mempool_txids st)
     | MempoolGauge metric from to \<Rightarrow> gate_layer (as_readiness st) (mempool_gauge_metric inner vb re metric from to st)
     | MempoolCounters from to \<Rightarrow> gate_layer (as_readiness st) (mempool_counters inner re from to st)
     | Transactions raw \<Rightarrow> gate_layer (as_readiness st) (transactions_route inner vb re raw st)
     | Ws \<Rightarrow> gate_layer (as_readiness st) ws_handler)"

section \<open>What a client can see\<close>

lemma respond_error_hidden: "respond body (Inl (api_error_of inner e)) = \<lparr>rs_status = 500, rs_retry_after = None, rs_body = Text ''internal error''\<rparr>"
  by (simp add: respond_def api_error_of_def into_response_def)

lemma respond_no_leak:
  "respond SystemEventsBody (event_service_list inner fault from to rows) = respond SystemEventsBody (event_service_list inner' fault from to rows)"
  "respond GaugeBody (metric_series inner vb fault now metric from to gauges) = respond GaugeBody (metric_series inner' vb fault now metric from to gauges)"
  "respond CountersBody (counter_series inner fault now from to counters) = respond CountersBody (counter_series inner' fault now from to counters)"
  "respond LookupBody (transactions inner vb f raw d) = respond LookupBody (transactions inner' vb f raw d)"
  by (auto simp: event_service_list_def metric_series_def gauge_fetch_range_def counter_series_def counter_fetch_range_def
      transactions_def lookup_def respond_error_hidden Let_def split: sum.split)

definition plain :: "Response \<Rightarrow> bool" where
  "plain response \<longleftrightarrow> rs_status response \<in> {200, 101, 400, 500} \<and> rs_retry_after response = None"

lemma plain_responses [simp]: "plain (ok body)" "plain (respond b result)" "plain ws_handler"
  by (auto simp: plain_def respond_def ok_def into_response_def ws_handler_def split: sum.split ApiError.split)

lemma gate_layer_iff:
  "gate_layer r response = (if is_ready r then response
     else \<lparr>rs_status = 503, rs_retry_after = Some ''10'', rs_body = HealthBody (health_report r)\<rparr>)"
  by (simp add: gate_layer_def require_ready_def)

fun data_route :: "Request \<Rightarrow> bool" where
  "data_route Health \<longleftrightarrow> False"
| "data_route (SystemEvents from to) \<longleftrightarrow> False"
| "data_route _ \<longleftrightarrow> True"

text \<open>C25: What a client can see. Until bootstrap has finished every data route answers \<open>503\<close> with the
  retry hint and the health report, whatever the state behind it; health and the lifecycle log are
  always served. Every response has one of the statuses \<open>200\<close>, \<open>101\<close>, \<open>400\<close>, \<open>500\<close> and \<open>503\<close>. And the
  texts of database errors never reach a client: a response is the same whatever they are.\<close>

theorem routes_gated_and_tight:
  "(if data_route request \<and> \<not> is_ready (as_readiness st)
    then serve inner vb re request st = \<lparr>rs_status = 503, rs_retry_after = Some ''10'', rs_body = HealthBody (health_report (as_readiness st))\<rparr>
    else rs_status (serve inner vb re request st) \<in> {200, 101, 400, 500} \<and> rs_retry_after (serve inner vb re request st) = None) \<and>
   serve inner vb re request st = serve inner' vb re request st"
proof -
  note handlers = health_route_def system_events_def feerate_diagram_def mempool_txids_def mempool_gauge_metric_def
    mempool_counters_def transactions_route_def
  have "serve inner vb re request st = serve inner' vb re request st"
    by (cases request) (simp_all add: serve_def handlers respond_no_leak [where inner = inner and inner' = inner'])
  moreover have "if data_route request \<and> \<not> is_ready (as_readiness st)
    then serve inner vb re request st = \<lparr>rs_status = 503, rs_retry_after = Some ''10'', rs_body = HealthBody (health_report (as_readiness st))\<rparr>
    else plain (serve inner vb re request st)"
    by (cases request) (simp_all add: serve_def handlers gate_layer_iff)
  ultimately show ?thesis unfolding plain_def by blast
qed

end
