(* ===== verification/Disk.thy ===== *)
theory Disk
  imports Main "HOL-Library.Word"
begin

text \<open>
  The disk usage sampler (\<open>api/src/infra/disk.rs\<close>): a walk with a work list over the data directory, whose
  sizes are \<open>u64\<close> and wrap. The file system is a tree that does not change during the walk; every read of
  it may fail, and failures are counted.
\<close>

section \<open>The walk\<close>

text \<open>An entry is a file with its 512-byte blocks, a symbolic link, an entry that cannot be read or
  described, or a directory with its own blocks and its entries, either of which may be unreadable.\<close>

datatype fs_entry =
    FileEntry nat
  | LinkEntry
  | BadEntry
  | DirEntry "nat option" "fs_entry list option"

definition BLOCK_SIZE :: "64 word" where
  "BLOCK_SIZE = 512"

record walk =
  wk_bytes :: "64 word"
  wk_errors :: nat
  wk_pending :: "fs_entry list"

definition count_error :: "walk \<Rightarrow> walk" where
  "count_error w = w\<lparr>wk_errors := wk_errors w + 1\<rparr>"

definition charge :: "nat \<Rightarrow> walk \<Rightarrow> walk" where
  "charge blocks w = w\<lparr>wk_bytes := wk_bytes w + of_nat blocks * BLOCK_SIZE\<rparr>"

fun walk_entry :: "fs_entry \<Rightarrow> walk \<Rightarrow> walk" where
  "walk_entry BadEntry w = count_error w"
| "walk_entry LinkEntry w = w"
| "walk_entry (DirEntry own listing) w = w\<lparr>wk_pending := DirEntry own listing # wk_pending w\<rparr>"
| "walk_entry (FileEntry blocks) w = charge blocks w"

text \<open>One round: the directory popped last is charged and its entries are gone through. The head of
  the list is the top of the stack; only directories are ever pushed.\<close>

definition walk_dir :: "fs_entry \<Rightarrow> walk \<Rightarrow> walk" where
  "walk_dir dir w =
    (case dir of
       DirEntry own listing \<Rightarrow>
         let w' = (case own of Some blocks \<Rightarrow> charge blocks w | None \<Rightarrow> count_error w)
         in (case listing of None \<Rightarrow> count_error w' | Some es \<Rightarrow> fold walk_entry es w')
     | _ \<Rightarrow> w)"

fun fs_weight :: "fs_entry \<Rightarrow> nat" where
  "fs_weight (DirEntry own (Some es)) = Suc (sum_list (map fs_weight es))"
| "fs_weight _ = 1"

lemma fold_walk_entry_pending:
  "sum_list (map fs_weight (wk_pending (fold walk_entry es w))) \<le> sum_list (map fs_weight es) + sum_list (map fs_weight (wk_pending w))"
proof (induction es arbitrary: w)
  case (Cons e es)
  have "sum_list (map fs_weight (wk_pending (walk_entry e w))) \<le> fs_weight e + sum_list (map fs_weight (wk_pending w))"
    by (cases e) (simp_all add: count_error_def charge_def)
  with Cons [of "walk_entry e w"] show ?case by simp
qed simp

lemma walk_dir_weight:
  "sum_list (map fs_weight (wk_pending (walk_dir dir w))) < fs_weight dir + sum_list (map fs_weight (wk_pending w))"
proof (cases dir)
  case (DirEntry own listing)
  have own: "wk_pending (case own of Some blocks \<Rightarrow> charge blocks w | None \<Rightarrow> count_error w) = wk_pending w"
    by (simp add: charge_def count_error_def split: option.split)
  show ?thesis
  proof (cases listing)
    case None
    then show ?thesis using own DirEntry by (simp add: walk_dir_def count_error_def [of "case own of None \<Rightarrow> _ | Some b \<Rightarrow> _ b"])
  next
    case (Some es)
    then show ?thesis
      using own DirEntry fold_walk_entry_pending [of es "case own of Some blocks \<Rightarrow> charge blocks w | None \<Rightarrow> count_error w"]
      by (simp add: walk_dir_def Let_def)
  qed
qed (simp_all add: walk_dir_def)

function walk_loop :: "walk \<Rightarrow> walk" where
  "walk_loop w =
    (case wk_pending w of
       [] \<Rightarrow> w
     | dir # rest \<Rightarrow> walk_loop (walk_dir dir (w\<lparr>wk_pending := rest\<rparr>)))"
  by pat_completeness auto
termination
  using walk_dir_weight
  by (relation "measure (\<lambda>w. sum_list (map fs_weight (wk_pending w)))") (auto, metis (mono_tags) walk.select_convs(3) walk.surjective walk.update_convs(3))

declare walk_loop.simps [simp del]

text \<open>\<open>walk\<close>: no bytes if the directory cannot be opened; the second value is the number of errors.\<close>

definition walk_root :: "fs_entry \<Rightarrow> 64 word option \<times> nat" where
  "walk_root root =
    (case root of
       DirEntry own (Some es) \<Rightarrow>
         let w = walk_loop \<lparr>wk_bytes = 0, wk_errors = 0, wk_pending = [root]\<rparr> in (Some (wk_bytes w), wk_errors w)
     | _ \<Rightarrow> (None, 1))"

text \<open>\<open>sample\<close>: the gauges it sets, by directory name, and the errors it counts. A name that is not
  UTF-8 is none. A root that cannot be read sets nothing.\<close>

fun disk_entry :: "(string option \<times> fs_entry) \<Rightarrow> (string \<times> 64 word) list \<times> nat \<Rightarrow> (string \<times> 64 word) list \<times> nat" where
  "disk_entry (name, BadEntry) (gauges, errors) = (gauges, errors + 1)"
| "disk_entry (Some name, DirEntry own listing) (gauges, errors) =
    (case walk_root (DirEntry own listing) of
       (Some bytes, n) \<Rightarrow> (gauges @ [(name, bytes)], errors + n)
     | (None, n) \<Rightarrow> (gauges, errors + n))"
| "disk_entry _ acc = acc"

definition disk_sample :: "(string option \<times> fs_entry) list option \<Rightarrow> (string \<times> 64 word) list \<times> nat" where
  "disk_sample root = (case root of None \<Rightarrow> ([], 0) | Some es \<Rightarrow> fold disk_entry es ([], 0))"

section \<open>The walk against the tree\<close>

text \<open>What a tree holds: the blocks of its files and directories, and what in it cannot be read.\<close>

fun tree_blocks :: "fs_entry \<Rightarrow> nat" where
  "tree_blocks (FileEntry blocks) = blocks"
| "tree_blocks (DirEntry own (Some es)) = (case own of Some b \<Rightarrow> b | None \<Rightarrow> 0) + sum_list (map tree_blocks es)"
| "tree_blocks (DirEntry own None) = (case own of Some b \<Rightarrow> b | None \<Rightarrow> 0)"
| "tree_blocks _ = 0"

fun tree_errors :: "fs_entry \<Rightarrow> nat" where
  "tree_errors BadEntry = 1"
| "tree_errors (DirEntry own (Some es)) = (case own of Some b \<Rightarrow> 0 | None \<Rightarrow> 1) + sum_list (map tree_errors es)"
| "tree_errors (DirEntry own None) = (case own of Some b \<Rightarrow> 0 | None \<Rightarrow> 1) + 1"
| "tree_errors _ = 0"

fun is_dir :: "fs_entry \<Rightarrow> bool" where
  "is_dir (DirEntry own listing) = True"
| "is_dir _ = False"

text \<open>What the walk has and what it still has to go through add up to the same all along.\<close>

definition due_bytes :: "walk \<Rightarrow> 64 word" where
  "due_bytes w = wk_bytes w + of_nat (sum_list (map tree_blocks (wk_pending w))) * BLOCK_SIZE"

definition due_errors :: "walk \<Rightarrow> nat" where
  "due_errors w = wk_errors w + sum_list (map tree_errors (wk_pending w))"

lemma walk_entry_due:
  "due_bytes (walk_entry e w) = due_bytes w + of_nat (tree_blocks e) * BLOCK_SIZE"
  "due_errors (walk_entry e w) = due_errors w + tree_errors e"
  by (cases e; simp add: due_bytes_def due_errors_def count_error_def charge_def algebra_simps)+

lemma fold_walk_entry_due:
  "due_bytes (fold walk_entry es w) = due_bytes w + of_nat (sum_list (map tree_blocks es)) * BLOCK_SIZE"
  "due_errors (fold walk_entry es w) = due_errors w + sum_list (map tree_errors es)"
  by (induction es arbitrary: w) (simp_all add: walk_entry_due algebra_simps)

lemma charge_due [simp]:
  "due_bytes (charge b w) = due_bytes w + of_nat b * BLOCK_SIZE" "due_errors (charge b w) = due_errors w"
  "due_bytes (count_error w) = due_bytes w" "due_errors (count_error w) = due_errors w + 1"
  by (simp_all add: due_bytes_def due_errors_def charge_def count_error_def)

lemma walk_dir_due:
  assumes "is_dir dir"
  shows "due_bytes (walk_dir dir w) = due_bytes w + of_nat (tree_blocks dir) * BLOCK_SIZE"
    and "due_errors (walk_dir dir w) = due_errors w + tree_errors dir"
proof -
  obtain own listing where dir: "dir = DirEntry own listing" using assms by (cases dir) auto
  show "due_bytes (walk_dir dir w) = due_bytes w + of_nat (tree_blocks dir) * BLOCK_SIZE"
    "due_errors (walk_dir dir w) = due_errors w + tree_errors dir"
    by (cases own; cases listing; simp add: dir walk_dir_def Let_def fold_walk_entry_due algebra_simps)+
qed

lemma walk_dir_pending:
  assumes "list_all is_dir (wk_pending w)"
  shows "list_all is_dir (wk_pending (walk_dir dir w))"
proof -
  have entry: "list_all is_dir (wk_pending (walk_entry e w))" if "list_all is_dir (wk_pending w)" for e w
    using that by (cases e) (simp_all add: count_error_def charge_def)
  have "list_all is_dir (wk_pending (fold walk_entry es w))" if "list_all is_dir (wk_pending w)" for es w
    using that by (induction es arbitrary: w) (simp_all add: entry)
  with assms show ?thesis
    by (simp add: walk_dir_def Let_def count_error_def charge_def split: fs_entry.split option.split)
qed

lemma walk_loop_exact:
  "list_all is_dir (wk_pending w) \<Longrightarrow> wk_bytes (walk_loop w) = due_bytes w \<and> wk_errors (walk_loop w) = due_errors w"
proof (induction w rule: walk_loop.induct)
  case (1 w)
  show ?case
  proof (cases "wk_pending w")
    case Nil
    then show ?thesis by (simp add: walk_loop.simps due_bytes_def due_errors_def)
  next
    case (Cons dir rest)
    let ?w = "walk_dir dir (w\<lparr>wk_pending := rest\<rparr>)"
    have dirs: "is_dir dir" "list_all is_dir rest" using 1(2) Cons by simp_all
    have "list_all is_dir (wk_pending ?w)" using dirs(2) by (intro walk_dir_pending) simp
    then have "wk_bytes (walk_loop ?w) = due_bytes ?w" "wk_errors (walk_loop ?w) = due_errors ?w"
      using 1(1) [OF Cons] by blast+
    moreover have "due_bytes ?w = due_bytes w" "due_errors ?w = due_errors w"
      unfolding walk_dir_due [OF dirs(1)] by (simp_all add: Cons due_bytes_def due_errors_def algebra_simps)
    moreover have "walk_loop w = walk_loop ?w" using Cons by (subst walk_loop.simps) simp
    ultimately show ?thesis by simp
  qed
qed

lemma walk_root_exact:
  "walk_root (DirEntry own (Some es)) =
    (Some (of_nat (tree_blocks (DirEntry own (Some es))) * BLOCK_SIZE), tree_errors (DirEntry own (Some es)))"
  using walk_loop_exact [of "\<lparr>wk_bytes = 0, wk_errors = 0, wk_pending = [DirEntry own (Some es)]\<rparr>"]
  by (simp add: walk_root_def Let_def due_bytes_def due_errors_def)

fun gauge_of :: "string option \<times> fs_entry \<Rightarrow> (string \<times> 64 word) option" where
  "gauge_of (Some name, DirEntry own (Some es)) = Some (name, of_nat (512 * tree_blocks (DirEntry own (Some es))))"
| "gauge_of _ = None"

fun errors_of :: "string option \<times> fs_entry \<Rightarrow> nat" where
  "errors_of (name, BadEntry) = 1"
| "errors_of (Some name, DirEntry own (Some es)) = tree_errors (DirEntry own (Some es))"
| "errors_of (Some name, DirEntry own None) = 1"
| "errors_of _ = 0"

lemma disk_entry_exact:
  "disk_entry e (gauges, errors) = (gauges @ (case gauge_of e of Some g \<Rightarrow> [g] | None \<Rightarrow> []), errors + errors_of e)"
  by (cases e rule: errors_of.cases) (simp_all add: walk_root_exact BLOCK_SIZE_def mult.commute, simp_all add: walk_root_def)

lemma fold_disk_exact:
  "fold disk_entry es (gauges, errors) = (gauges @ List.map_filter gauge_of es, errors + sum_list (map errors_of es))"
  by (induction es arbitrary: gauges errors) (simp_all add: disk_entry_exact List.map_filter_simps split: option.split)

text \<open>C37: The work-list walk computes the sum over the tree. Whatever the data directory holds, the walk
  ends; a gauge is set for each immediate subdirectory that can be opened and has a readable name, in
  order, at 512 bytes for every block of the files and directories below it, links left out, modulo
  \<open>2^64\<close>; and the error counter counts every part that could not be read once.\<close>

theorem disk_usage_exact:
  "disk_sample (Some es) = (List.map_filter gauge_of es, sum_list (map errors_of es))"
  by (simp add: disk_sample_def fold_disk_exact)

end
