(* ===== verification/Clients.thy ===== *)
theory Clients
  imports Watchers Config Machine "HOL-Library.Multiset"
begin

text \<open>
  The clients of the node (\<open>observer/src/clients\<close>): the pool that keeps HTTP connections open between RPC calls,
  the RPC client over it and the subscription to blocks. The HTTP transport, JSON-RPC and the message queue are
  libraries: what they answer is an argument. Calls run side by side on blocking threads; the pool
  under them is a step relation in which only \<open>checkout\<close>'s look at the idle list and \<open>checkin\<close> are
  atomic, as the mutex makes them.
\<close>

section \<open>The pool of connections\<close>

text \<open>A connection is known by the socket it holds; sockets are numbered in the order they are made.\<close>

record SimpleHttpTransport =
  ht_socket :: nat
  ht_url :: string
  ht_user :: string
  ht_pass :: string
  ht_timeout :: int

record PooledJsonRpcTransport =
  pt_url :: string
  pt_user :: string
  pt_pass :: string
  pt_timeout :: int
  pt_idle :: "SimpleHttpTransport list"

definition pooled_transport_new :: "string \<Rightarrow> string \<Rightarrow> string \<Rightarrow> int \<Rightarrow> PooledJsonRpcTransport" where
  "pooled_transport_new url user pass timeout =
    \<lparr>pt_url = url, pt_user = user, pt_pass = pass, pt_timeout = timeout, pt_idle = []\<rparr>"

text \<open>\<open>checkout\<close> in its two halves: under the lock it takes an idle connection; without the lock, and
  only when there was none, it builds one. \<open>parse_url\<close> is the builder's check of the address.\<close>

definition checkout_pop :: "PooledJsonRpcTransport \<Rightarrow> SimpleHttpTransport option \<times> PooledJsonRpcTransport" where
  "checkout_pop p =
    (if pt_idle p = [] then (None, p) else (Some (last (pt_idle p)), p\<lparr>pt_idle := butlast (pt_idle p)\<rparr>))"

definition checkout_build :: "(string \<Rightarrow> 'e option) \<Rightarrow> nat \<Rightarrow> PooledJsonRpcTransport \<Rightarrow> 'e + SimpleHttpTransport" where
  "checkout_build parse_url socket p =
    (case parse_url (pt_url p) of
       Some e \<Rightarrow> Inl e
     | None \<Rightarrow> Inr \<lparr>ht_socket = socket, ht_url = pt_url p, ht_user = pt_user p, ht_pass = pt_pass p, ht_timeout = pt_timeout p\<rparr>)"

definition checkout ::
    "(string \<Rightarrow> 'e option) \<Rightarrow> nat \<Rightarrow> PooledJsonRpcTransport \<Rightarrow> ('e + SimpleHttpTransport) \<times> PooledJsonRpcTransport" where
  "checkout parse_url socket p =
    (case checkout_pop p of
       (Some transport, p') \<Rightarrow> (Inr transport, p')
     | (None, p') \<Rightarrow> (checkout_build parse_url socket p', p'))"

definition checkin :: "SimpleHttpTransport \<Rightarrow> PooledJsonRpcTransport \<Rightarrow> PooledJsonRpcTransport" where
  "checkin transport p = p\<lparr>pt_idle := pt_idle p @ [transport]\<rparr>"

text \<open>A call by itself; \<open>send\<close> is what the connection's own call answers.\<close>

definition send_request ::
    "(string \<Rightarrow> 'e option) \<Rightarrow> (SimpleHttpTransport \<Rightarrow> 'req \<Rightarrow> 'e + 'resp) \<Rightarrow> nat \<Rightarrow> 'req \<Rightarrow> PooledJsonRpcTransport \<Rightarrow>
       ('e + 'resp) \<times> PooledJsonRpcTransport" where
  "send_request parse_url send socket req p =
    (case checkout parse_url socket p of
       (Inl e, p') \<Rightarrow> (Inl e, p')
     | (Inr transport, p') \<Rightarrow> (let response = send transport req in (response, checkin transport p')))"

definition send_batch ::
    "(string \<Rightarrow> 'e option) \<Rightarrow> (SimpleHttpTransport \<Rightarrow> 'req list \<Rightarrow> 'e + 'resp list) \<Rightarrow> nat \<Rightarrow> 'req list \<Rightarrow>
       PooledJsonRpcTransport \<Rightarrow> ('e + 'resp list) \<times> PooledJsonRpcTransport" where
  "send_batch parse_url send socket reqs p =
    (case checkout parse_url socket p of
       (Inl e, p') \<Rightarrow> (Inl e, p')
     | (Inr transport, p') \<Rightarrow> (let responses = send transport reqs in (responses, checkin transport p')))"

definition fmt_target :: "PooledJsonRpcTransport \<Rightarrow> string" where
  "fmt_target p = pt_url p"

section \<open>The clients\<close>

definition TIMEOUT :: int where
  "TIMEOUT = 60 * 1000000000"

definition client_new :: "string \<Rightarrow> string \<Rightarrow> string \<Rightarrow> PooledJsonRpcTransport" where
  "client_new url user pass = pooled_transport_new url user pass TIMEOUT"

definition rpc_client_new :: "RpcConfig \<Rightarrow> ObserverError + PooledJsonRpcTransport" where
  "rpc_client_new config = Inr (client_new (''http://'' @ rc_host config) (rc_user config) (rc_pass config))"

text \<open>One call through the client; serialising, framing and reading the response are the libraries'.\<close>

definition client_call ::
    "('args \<Rightarrow> 'e + 'raw) \<Rightarrow> (string \<Rightarrow> 'raw \<Rightarrow> 'req) \<Rightarrow> ('req \<Rightarrow> 'e + 'resp) \<Rightarrow> ('resp \<Rightarrow> 'e + 'a) \<Rightarrow> string \<Rightarrow> 'args \<Rightarrow> 'e + 'a" where
  "client_call to_raw_value build_request send result method args =
    (case to_raw_value args of
       Inl e \<Rightarrow> Inl e
     | Inr raw \<Rightarrow>
         (case send (build_request method raw) of
            Inl e \<Rightarrow> Inl e
          | Inr resp \<Rightarrow> result resp))"

definition HANDSHAKE_TIMEOUT :: int where
  "HANDSHAKE_TIMEOUT = 5 * 1000000000"

text \<open>What the subscription came to within the timeout: its answer, or none (\<open>None\<close>).\<close>

definition zmq_blocks :: "string \<Rightarrow> (string + 'stream) option \<Rightarrow> ObserverError + 'stream" where
  "zmq_blocks endpoint answer =
    (case answer of
       Some (Inr stream) \<Rightarrow> Inr stream
     | Some (Inl e) \<Rightarrow> Inl (FailedToConnect (''zmq subscribe to '' @ endpoint @ '' failed: '' @ e))
     | None \<Rightarrow> Inl (FailedToConnect (''no zmq handshake from '' @ endpoint @
         '' within 5s -- check the host and port, and that bitcoind publishes hashblock there'')))"

section \<open>Calls side by side\<close>

text \<open>A call in flight has found no idle connection and is building one, or has a connection. A call
  whose send panics drops its connection as it unwinds.\<close>

datatype rpc_phase = Building | Calling SimpleHttpTransport

record pool_state =
  po_pool :: PooledJsonRpcTransport
  po_calls :: "rpc_phase multiset"
  po_sockets :: nat
  po_lost :: "nat multiset"
  po_peak :: nat

definition pool_starts :: "pool_state \<Rightarrow> bool" where
  "pool_starts s \<longleftrightarrow> pt_idle (po_pool s) = [] \<and> po_calls s = {#} \<and> po_sockets s = 0 \<and> po_lost s = {#} \<and> po_peak s = 0"

abbreviation more_calls :: "pool_state \<Rightarrow> nat" where
  "more_calls s \<equiv> max (po_peak s) (Suc (size (po_calls s)))"

inductive pool_step for parse_url where
  takes: "checkout_pop (po_pool s) = (Some c, p) \<Longrightarrow>
    pool_step parse_url s (s\<lparr>po_pool := p, po_calls := add_mset (Calling c) (po_calls s), po_peak := more_calls s\<rparr>)"
| misses: "checkout_pop (po_pool s) = (None, p) \<Longrightarrow>
    pool_step parse_url s (s\<lparr>po_pool := p, po_calls := add_mset Building (po_calls s), po_peak := more_calls s\<rparr>)"
| builds: "po_calls s = add_mset Building others \<Longrightarrow> checkout_build parse_url (po_sockets s) (po_pool s) = Inr c \<Longrightarrow>
    pool_step parse_url s (s\<lparr>po_calls := add_mset (Calling c) others, po_sockets := Suc (po_sockets s)\<rparr>)"
| refused: "po_calls s = add_mset Building others \<Longrightarrow> checkout_build parse_url (po_sockets s) (po_pool s) = Inl e \<Longrightarrow>
    pool_step parse_url s (s\<lparr>po_calls := others\<rparr>)"
| answered: "po_calls s = add_mset (Calling c) others \<Longrightarrow>
    pool_step parse_url s (s\<lparr>po_pool := checkin c (po_pool s), po_calls := others\<rparr>)"
| panics: "po_calls s = add_mset (Calling c) others \<Longrightarrow>
    pool_step parse_url s (s\<lparr>po_calls := others, po_lost := add_mset (ht_socket c) (po_lost s)\<rparr>)"

fun sockets_of :: "rpc_phase \<Rightarrow> nat multiset" where
  "sockets_of Building = {#}"
| "sockets_of (Calling c) = {#ht_socket c#}"

fun calls_with :: "PooledJsonRpcTransport \<Rightarrow> rpc_phase \<Rightarrow> bool" where
  "calls_with p Building \<longleftrightarrow> True"
| "calls_with p (Calling c) \<longleftrightarrow> ht_url c = pt_url p \<and> ht_user c = pt_user p \<and> ht_pass c = pt_pass p \<and> ht_timeout c = pt_timeout p"

definition idle_sockets :: "pool_state \<Rightarrow> nat multiset" where
  "idle_sockets s = mset (map ht_socket (pt_idle (po_pool s)))"

definition used_sockets :: "pool_state \<Rightarrow> nat multiset" where
  "used_sockets s = \<Sum>\<^sub># (image_mset sockets_of (po_calls s))"

definition building :: "pool_state \<Rightarrow> nat" where
  "building s = count (po_calls s) Building"

text \<open>Every socket ever made is idle, in use by one call, or lost with a call that panicked, once; and a connection is made
  only when all others are in use.\<close>

definition pool_inv :: "pool_state \<Rightarrow> bool" where
  "pool_inv s \<longleftrightarrow>
    idle_sockets s + used_sockets s + po_lost s = mset [0..<po_sockets s] \<and>
    size (idle_sockets s) + size (used_sockets s) + building s \<le> po_peak s \<and>
    size (po_calls s) = size (used_sockets s) + building s \<and>
    list_all (\<lambda>c. calls_with (po_pool s) (Calling c)) (pt_idle (po_pool s)) \<and>
    Multiset.Ball (po_calls s) (calls_with (po_pool s))"

lemmas pool_counts = idle_sockets_def used_sockets_def building_def

lemma calls_with_config:
  "calls_with (p\<lparr>pt_idle := cs\<rparr>) = calls_with p"
  by (intro ext, rename_tac c, case_tac c) simp_all

lemma checkout_pop_some:
  assumes "checkout_pop p = (Some c, p')"
  shows "p' = p\<lparr>pt_idle := butlast (pt_idle p)\<rparr> \<and> pt_idle p = butlast (pt_idle p) @ [c]"
  using assms by (auto simp: checkout_pop_def split: if_splits)

lemma checkout_pop_none:
  assumes "checkout_pop p = (None, p')"
  shows "p' = p \<and> pt_idle p = []"
  using assms by (auto simp: checkout_pop_def split: if_splits)

lemma pool_step_inv:
  assumes "pool_step parse_url s s'" "pool_inv s"
  shows "pool_inv s'"
  using assms
proof cases
  case (takes c p)
  note popped = checkout_pop_some [OF takes(2)]
  obtain cs where "pt_idle (po_pool s) = cs @ [c]" "p = po_pool s\<lparr>pt_idle := cs\<rparr>" using popped by blast
  then show ?thesis using assms(2) takes(1) by (auto simp: pool_inv_def pool_counts calls_with_config ac_simps)
next
  case (misses p)
  with checkout_pop_none [OF misses(2)] assms(2) show ?thesis by (auto simp: pool_inv_def pool_counts)
next
  case (builds others c)
  then show ?thesis using assms(2) by (auto simp: pool_inv_def pool_counts checkout_build_def split: option.splits)
next
  case (refused others e)
  then show ?thesis using assms(2) by (auto simp: pool_inv_def pool_counts)
next
  case (answered c others)
  then show ?thesis using assms(2) by (auto simp: pool_inv_def pool_counts checkin_def calls_with_config)
next
  case (panics c others)
  then show ?thesis using assms(2) by (auto simp: pool_inv_def pool_counts)
qed

interpretation rpc: machine pool_starts "pool_step parse_url" pool_inv
proof unfold_locales
  show "pool_inv s" if "pool_starts s" for s
    using that by (simp add: pool_starts_def pool_inv_def pool_counts)
  show "pool_inv s'" if "pool_step parse_url s s'" "pool_inv s" for s s'
    using pool_step_inv that .
qed

text \<open>C39: The connection pool, whatever calls run side by side and whichever of them fail or panic. No
  socket is used by two calls, nor idle and in use at once, nor idle twice; the connections open at one time are
  never more than the most calls that were in flight together; and between calls everything that was not lost
  waits in the pool.\<close>

theorem pool_no_sharing:
  assumes "pool_starts s0" "(pool_step parse_url)\<^sup>*\<^sup>* s0 s"
  shows "(\<forall>n. count (idle_sockets s + used_sockets s) n \<le> 1) \<and>
    size (idle_sockets s) + size (used_sockets s) \<le> po_peak s \<and>
    (if po_calls s = {#} then set_mset (idle_sockets s) = {0..<po_sockets s} - set_mset (po_lost s) else True)"
proof -
  have inv: "pool_inv s" using assms by (rule rpc.reached_inv)
  then have sockets: "idle_sockets s + used_sockets s + po_lost s = mset [0..<po_sockets s]" by (simp add: pool_inv_def)
  have once: "count (idle_sockets s) n + count (used_sockets s) n + count (po_lost s) n \<le> 1" for n
  proof -
    have "count (idle_sockets s + used_sockets s + po_lost s) n = count (mset [0..<po_sockets s]) n" by (simp only: sockets)
    then show ?thesis by (simp add: count_mset_set')
  qed
  have "set_mset (idle_sockets s) = {0..<po_sockets s} - set_mset (po_lost s)" if "po_calls s = {#}"
  proof -
    have "used_sockets s = {#}" using that by (simp add: used_sockets_def)
    with sockets have "set_mset (idle_sockets s) \<union> set_mset (po_lost s) = {0..<po_sockets s}"
      by (metis set_mset_union add.right_neutral set_mset_mset set_upt)
    moreover have "n \<notin># po_lost s" if "n \<in># idle_sockets s" for n
      using once [of n] that by (auto simp flip: count_greater_zero_iff)
    ultimately show ?thesis by blast
  qed
  moreover have "count (idle_sockets s + used_sockets s) n \<le> 1" for n using once [of n] by simp
  moreover have "size (idle_sockets s) + size (used_sockets s) \<le> po_peak s" using inv by (simp add: pool_inv_def)
  ultimately show ?thesis by simp
qed

text \<open>A call by itself is such a run: it takes or builds, then gives back.\<close>

lemma send_request_run:
  assumes "send_request parse_url send (po_sockets s) req (po_pool s) = (response, p)"
  shows "\<exists>s'. (pool_step parse_url)\<^sup>*\<^sup>* s s' \<and> po_pool s' = p \<and> po_calls s' = po_calls s"
proof (cases "checkout_pop (po_pool s)")
  case (Pair popped p0)
  show ?thesis
  proof (cases popped)
    case (Some c)
    let ?s1 = "s\<lparr>po_pool := p0, po_calls := add_mset (Calling c) (po_calls s), po_peak := more_calls s\<rparr>"
    have "pool_step parse_url s ?s1" using Pair Some by (intro pool_step.takes) simp
    moreover have "pool_step parse_url ?s1 (?s1\<lparr>po_pool := checkin c p0, po_calls := po_calls s\<rparr>)"
      using pool_step.answered [of ?s1 c "po_calls s"] by simp
    ultimately have "(pool_step parse_url)\<^sup>*\<^sup>* s (?s1\<lparr>po_pool := checkin c p0, po_calls := po_calls s\<rparr>)" by simp
    with assms Pair Some show ?thesis
      by - (intro exI conjI, assumption, simp_all add: send_request_def checkout_def Let_def)
  next
    case None
    let ?s1 = "s\<lparr>po_pool := p0, po_calls := add_mset Building (po_calls s), po_peak := more_calls s\<rparr>"
    have step: "pool_step parse_url s ?s1" using Pair None by (intro pool_step.misses) simp
    have pool: "p0 = po_pool s" using Pair None checkout_pop_none by blast
    show ?thesis
    proof (cases "checkout_build parse_url (po_sockets s) p0")
      case (Inl e)
      have "pool_step parse_url ?s1 (?s1\<lparr>po_calls := po_calls s\<rparr>)"
        using Inl by (intro pool_step.refused [where e = e]) simp_all
      with step have "(pool_step parse_url)\<^sup>*\<^sup>* s (?s1\<lparr>po_calls := po_calls s\<rparr>)" by simp
      with assms Pair None Inl show ?thesis
        by - (intro exI conjI, assumption, simp_all add: send_request_def checkout_def)
    next
      case (Inr c)
      let ?s2 = "?s1\<lparr>po_calls := add_mset (Calling c) (po_calls s), po_sockets := Suc (po_sockets s)\<rparr>"
      have "pool_step parse_url ?s1 ?s2" using Inr pool_step.builds [of ?s1 "po_calls s" parse_url c] by simp
      moreover have "pool_step parse_url ?s2 (?s2\<lparr>po_pool := checkin c p0, po_calls := po_calls s\<rparr>)"
        using pool_step.answered [of ?s2 c "po_calls s"] by simp
      ultimately have "(pool_step parse_url)\<^sup>*\<^sup>* s (?s2\<lparr>po_pool := checkin c p0, po_calls := po_calls s\<rparr>)"
        using step by (meson converse_rtranclp_into_rtranclp r_into_rtranclp)
      with assms Pair None Inr show ?thesis
        by - (intro exI conjI, assumption, simp_all add: send_request_def checkout_def Let_def)
    qed
  qed
qed

definition sample_pool_state :: pool_state where
  "sample_pool_state = \<lparr>po_pool = client_new ''http://node'' ''u'' ''p'', po_calls = {#}, po_sockets = 0, po_lost = {#}, po_peak = 0\<rparr>"

theorem pool_no_sharing_witness:
  "\<exists>s. (pool_step (\<lambda>_. None :: string option))\<^sup>*\<^sup>* sample_pool_state s \<and> po_calls s = {#} \<and> idle_sockets s = {#0#} \<and>
     count (idle_sockets s + used_sockets s) 0 \<le> 1 \<and> size (idle_sockets s) + size (used_sockets s) \<le> po_peak s"
proof -
  let ?step = "pool_step (\<lambda>_. None :: string option)"
  let ?c = "\<lparr>ht_socket = 0, ht_url = ''http://node'', ht_user = ''u'', ht_pass = ''p'', ht_timeout = TIMEOUT\<rparr>"
  let ?s1 = "sample_pool_state\<lparr>po_calls := {#Building#}, po_peak := 1\<rparr>"
  let ?s2 = "?s1\<lparr>po_calls := {#Calling ?c#}, po_sockets := 1\<rparr>"
  let ?s3 = "?s2\<lparr>po_pool := checkin ?c (po_pool ?s2), po_calls := {#}\<rparr>"
  have "?step sample_pool_state ?s1"
    using pool_step.misses [of sample_pool_state "po_pool sample_pool_state" "\<lambda>_. None :: string option"]
    by (simp add: sample_pool_state_def checkout_pop_def client_new_def pooled_transport_new_def)
  moreover have "?step ?s1 ?s2"
    using pool_step.builds [of ?s1 "{#}" "\<lambda>_. None :: string option" ?c]
    by (simp add: sample_pool_state_def checkout_build_def client_new_def pooled_transport_new_def)
  moreover have "?step ?s2 ?s3" using pool_step.answered [of ?s2 ?c "{#}"] by simp
  ultimately have run: "?step\<^sup>*\<^sup>* sample_pool_state ?s3"
    by (meson converse_rtranclp_into_rtranclp r_into_rtranclp)
  have "pool_starts sample_pool_state"
    by (simp add: pool_starts_def sample_pool_state_def client_new_def pooled_transport_new_def)
  from pool_no_sharing [OF this run] run show ?thesis
    by (intro exI [of _ ?s3]) (simp add: idle_sockets_def sample_pool_state_def checkin_def client_new_def pooled_transport_new_def)
qed

end
