(* ===== verification/Wiring.thy ===== *)
theory Wiring
  imports Clients Startup Bus Snapshot Gate Backfill
begin

text \<open>
  How the process is put together (\<open>api/src/infra/deps.rs\<close>, \<open>api/src/infra/state.rs\<close>, the \<open>run\<close> of \<open>api/src/main.rs\<close>, the
  tasks that \<open>BootstrapService::run\<close> and \<open>observer/src/runner.rs\<close> spawn): which service holds which shared object. The other
  theories take the ledger, the gate, the cluster snapshot, the queue and the bus as one state that all parts act on;
  this one shows that the constructors hand out handles to the same objects.
\<close>

section \<open>Objects\<close>

text \<open>What several parts of the process hold together is an object of the heap, an \<open>Arc\<close> in the code; a handle is its
  address. Cloning a handle gives the same address; \<open>default\<close> and \<open>new\<close> make a new object.\<close>

type_synonym handle = nat

datatype object =
    LedgerObj Inner | GateObj BlockGate | LockObj bool | ClustersObj ClusterSnapshot | DiagramObj MempoolFeerateDiagram
  | ReachabilityObj Reachability | ReadinessObj Readiness | QueueObj TxBackfillQueue | BusObj bus | RpcObj PooledJsonRpcTransport

definition alloc :: "object \<Rightarrow> object list \<Rightarrow> handle \<times> object list" where
  "alloc obj h = (length h, h @ [obj])"

record Clients =
  ct_pubsub :: handle
  ct_rpc :: handle
  ct_zmq :: string

definition clients_new :: "Config \<Rightarrow> object list \<Rightarrow> ObserverError + Clients \<times> object list" where
  "clients_new config h =
    (let (pubsub, h1) = alloc (BusObj bus_new) h
     in case rpc_client_new (oc_rpc config) of
          Inl e \<Rightarrow> Inl e
        | Inr client \<Rightarrow>
            (let (rpc, h2) = alloc (RpcObj client) h1
             in Inr (\<lparr>ct_pubsub = pubsub, ct_rpc = rpc, ct_zmq = zc_blocks_endpoint (oc_zmq config)\<rparr>, h2)))"

text \<open>A repository is the database pool it asks, here \<open>'p\<close>.\<close>

record 'p Repos =
  rp_block :: 'p
  rp_cluster :: 'p
  rp_cluster_membership :: 'p
  rp_counter_sample :: 'p
  rp_gauge_sample :: 'p
  rp_mempool_delta :: 'p
  rp_mempool_ledger :: 'p
  rp_system_event :: 'p
  rp_transaction :: 'p

definition repos_new :: "'p \<Rightarrow> 'p Repos" where
  "repos_new pool = \<lparr>rp_block = pool, rp_cluster = pool, rp_cluster_membership = pool, rp_counter_sample = pool,
     rp_gauge_sample = pool, rp_mempool_delta = pool, rp_mempool_ledger = pool, rp_system_event = pool, rp_transaction = pool\<rparr>"

section \<open>Services\<close>

record 'p NodeHealthService =
  nh_events :: 'p
  nh_network :: handle
  nh_last :: handle

record 'p NodeStatusService =
  ns_pubsub :: handle
  ns_node_health :: "'p NodeHealthService"

record ClusterDeltaService =
  cd_snapshot :: handle
  cd_pubsub :: handle

record 'p ClusterService =
  cl_clusters :: 'p
  cl_memberships :: 'p
  cl_transactions :: 'p
  cl_retriever :: handle
  cl_delta :: ClusterDeltaService
  cl_ledger :: handle

record 'p BlockService =
  bs_blocks :: 'p
  bs_ledger :: handle
  bs_gate :: handle
  bs_apply_lock :: handle
  bs_cluster :: "'p ClusterService"
  bs_retriever :: handle
  bs_pubsub :: handle

record 'p MempoolReconciler =
  mr_ledger :: handle
  mr_repository :: 'p
  mr_queue :: handle
  mr_cluster :: "'p ClusterService"
  mr_pubsub :: handle
  mr_gate :: handle

record 'p HomeService =
  ho_blocks :: 'p
  ho_deltas :: 'p
  ho_ledger :: handle
  ho_cluster :: "'p ClusterService"
  ho_pubsub :: handle

record 'p GaugeSampleService =
  gg_samples :: 'p
  gg_clusters :: handle
  gg_ledger :: handle

record 'p CounterSampleService =
  cc_samples :: 'p
  cc_deltas :: 'p
  cc_events :: 'p

record 'p TxBackfillConsumer =
  tc_transactions :: 'p
  tc_retriever :: handle
  tc_queue :: handle
  tc_ledger :: handle

record 'p BootstrapService =
  bo_deltas :: 'p
  bo_retriever :: handle
  bo_transactions :: 'p
  bo_ledger :: handle
  bo_block :: "'p BlockService"
  bo_cluster :: "'p ClusterService"
  bo_events :: 'p
  bo_node_status :: "'p NodeStatusService"
  bo_queue :: handle

text \<open>Services with one field are that field: \<open>MempoolService\<close> its bus, \<open>FeerateDiagramService\<close> its snapshot,
  \<open>SystemEventService\<close> and \<open>TransactionService\<close> their repository.\<close>

record 'p AppState =
  at_ledger :: handle
  at_mempool :: handle
  at_block :: "'p BlockService"
  at_cluster :: "'p ClusterService"
  at_home :: "'p HomeService"
  at_counters :: "'p CounterSampleService"
  at_gauges :: "'p GaugeSampleService"
  at_diagram :: handle
  at_bootstrap :: "'p BootstrapService"
  at_readiness :: handle
  at_events :: 'p
  at_transactions :: 'p

section \<open>Dependencies\<close>

record 'p Deps =
  dp_repos :: "'p Repos"
  dp_pubsub :: handle
  dp_ledger :: handle
  dp_gate :: handle
  dp_apply_lock :: handle
  dp_clusters :: handle
  dp_diagram :: handle
  dp_mempool_retriever :: handle
  dp_transaction_retriever :: handle
  dp_cluster_retriever :: handle
  dp_block_retriever :: handle
  dp_network_retriever :: handle
  dp_node_health :: "'p NodeHealthService"
  dp_readiness :: handle
  dp_queue :: handle

definition node_health_service_new :: "'p \<Rightarrow> handle \<Rightarrow> object list \<Rightarrow> 'p NodeHealthService \<times> object list" where
  "node_health_service_new events network h =
    (let (seen, h') = alloc (ReachabilityObj Unknown) h in (\<lparr>nh_events = events, nh_network = network, nh_last = seen\<rparr>, h'))"

text \<open>A capacity the channel refuses is a panic, here \<open>None\<close>.\<close>

definition with_queue_capacity :: "'p Repos \<Rightarrow> Clients \<Rightarrow> nat \<Rightarrow> object list \<Rightarrow> ('p Deps \<times> object list) option" where
  "with_queue_capacity repos clients capacity h =
    (let pubsub = ct_pubsub clients;
         (ledger, h1) = alloc (LedgerObj ledger_default) h;
         (gate, h2) = alloc (GateObj gate_default) h1;
         (clusters, h3) = alloc (ClustersObj Map.empty) h2;
         (diagram, h4) = alloc (DiagramObj diagram_default) h3;
         mempool_retriever = ct_rpc clients;
         transaction_retriever = ct_rpc clients;
         cluster_retriever = ct_rpc clients;
         block_retriever = ct_rpc clients;
         network_retriever = ct_rpc clients;
         (node_health, h5) = node_health_service_new (rp_system_event repos) network_retriever h4;
         (apply_lock, h6) = alloc (LockObj False) h5;
         (readiness, h7) = alloc (ReadinessObj readiness_default) h6
     in map_option (\<lambda>channel. let (queue, h8) = alloc (QueueObj channel) h7 in
        (\<lparr>dp_repos = repos, dp_pubsub = pubsub, dp_ledger = ledger, dp_gate = gate, dp_apply_lock = apply_lock,
          dp_clusters = clusters, dp_diagram = diagram, dp_mempool_retriever = mempool_retriever,
          dp_transaction_retriever = transaction_retriever, dp_cluster_retriever = cluster_retriever,
          dp_block_retriever = block_retriever, dp_network_retriever = network_retriever, dp_node_health = node_health,
          dp_readiness = readiness, dp_queue = queue\<rparr>, h8)) (queue_new capacity))"

definition deps_new :: "'p Repos \<Rightarrow> Clients \<Rightarrow> object list \<Rightarrow> ('p Deps \<times> object list) option" where
  "deps_new repos clients h = with_queue_capacity repos clients (nat DEFAULT_TX_BACKFILL_QUEUE_CAPACITY) h"

definition cluster_delta_service :: "'p Deps \<Rightarrow> ClusterDeltaService" where
  "cluster_delta_service d = \<lparr>cd_snapshot = dp_clusters d, cd_pubsub = dp_pubsub d\<rparr>"

definition cluster_service :: "'p Deps \<Rightarrow> 'p ClusterService" where
  "cluster_service d = \<lparr>cl_clusters = rp_cluster (dp_repos d), cl_memberships = rp_cluster_membership (dp_repos d),
     cl_transactions = rp_transaction (dp_repos d), cl_retriever = dp_cluster_retriever d,
     cl_delta = cluster_delta_service d, cl_ledger = dp_ledger d\<rparr>"

definition block_service :: "'p Deps \<Rightarrow> 'p BlockService" where
  "block_service d = \<lparr>bs_blocks = rp_block (dp_repos d), bs_ledger = dp_ledger d, bs_gate = dp_gate d,
     bs_apply_lock = dp_apply_lock d, bs_cluster = cluster_service d, bs_retriever = dp_block_retriever d, bs_pubsub = dp_pubsub d\<rparr>"

definition mempool_service :: "'p Deps \<Rightarrow> handle" where
  "mempool_service d = dp_pubsub d"

definition mempool_reconciler :: "'p Deps \<Rightarrow> 'p MempoolReconciler" where
  "mempool_reconciler d = \<lparr>mr_ledger = dp_ledger d, mr_repository = rp_mempool_ledger (dp_repos d), mr_queue = dp_queue d,
     mr_cluster = cluster_service d, mr_pubsub = dp_pubsub d, mr_gate = dp_gate d\<rparr>"

definition home_service :: "'p Deps \<Rightarrow> 'p HomeService" where
  "home_service d = \<lparr>ho_blocks = rp_block (dp_repos d), ho_deltas = rp_mempool_delta (dp_repos d), ho_ledger = dp_ledger d,
     ho_cluster = cluster_service d, ho_pubsub = dp_pubsub d\<rparr>"

definition gauge_sample_service :: "'p Deps \<Rightarrow> 'p GaugeSampleService" where
  "gauge_sample_service d = \<lparr>gg_samples = rp_gauge_sample (dp_repos d), gg_clusters = dp_clusters d, gg_ledger = dp_ledger d\<rparr>"

definition counter_sample_service :: "'p Deps \<Rightarrow> 'p CounterSampleService" where
  "counter_sample_service d = \<lparr>cc_samples = rp_counter_sample (dp_repos d), cc_deltas = rp_mempool_delta (dp_repos d),
     cc_events = rp_system_event (dp_repos d)\<rparr>"

definition transaction_service :: "'p Deps \<Rightarrow> 'p" where
  "transaction_service d = rp_transaction (dp_repos d)"

definition tx_backfill_consumer :: "'p Deps \<Rightarrow> 'p TxBackfillConsumer" where
  "tx_backfill_consumer d = \<lparr>tc_transactions = rp_transaction (dp_repos d), tc_retriever = dp_transaction_retriever d,
     tc_queue = dp_queue d, tc_ledger = dp_ledger d\<rparr>"

definition feerate_diagram_service :: "'p Deps \<Rightarrow> handle" where
  "feerate_diagram_service d = dp_diagram d"

definition system_event_service :: "'p Deps \<Rightarrow> 'p" where
  "system_event_service d = rp_system_event (dp_repos d)"

definition node_status_service :: "'p Deps \<Rightarrow> 'p NodeStatusService" where
  "node_status_service d = \<lparr>ns_pubsub = dp_pubsub d, ns_node_health = dp_node_health d\<rparr>"

definition bootstrap_service :: "'p Deps \<Rightarrow> 'p BootstrapService" where
  "bootstrap_service d = \<lparr>bo_deltas = rp_mempool_delta (dp_repos d), bo_retriever = dp_mempool_retriever d,
     bo_transactions = rp_transaction (dp_repos d), bo_ledger = dp_ledger d, bo_block = block_service d,
     bo_cluster = cluster_service d, bo_events = system_event_service d, bo_node_status = node_status_service d,
     bo_queue = dp_queue d\<rparr>"

definition deps_app_state :: "'p Deps \<Rightarrow> 'p AppState" where
  "deps_app_state d = \<lparr>at_ledger = dp_ledger d, at_mempool = mempool_service d, at_block = block_service d,
     at_cluster = cluster_service d, at_home = home_service d, at_counters = counter_sample_service d,
     at_gauges = gauge_sample_service d, at_diagram = feerate_diagram_service d, at_bootstrap = bootstrap_service d,
     at_readiness = dp_readiness d, at_events = system_event_service d, at_transactions = transaction_service d\<rparr>"

text \<open>The swaps, which keep everything else.\<close>

definition with_transaction_retriever :: "handle \<Rightarrow> 'p Deps \<Rightarrow> 'p Deps" where
  "with_transaction_retriever r d = d\<lparr>dp_transaction_retriever := r\<rparr>"

definition with_cluster_retriever :: "handle \<Rightarrow> 'p Deps \<Rightarrow> 'p Deps" where
  "with_cluster_retriever r d = d\<lparr>dp_cluster_retriever := r\<rparr>"

definition with_block_retriever :: "handle \<Rightarrow> 'p Deps \<Rightarrow> 'p Deps" where
  "with_block_retriever r d = d\<lparr>dp_block_retriever := r\<rparr>"

definition with_mempool_retriever :: "handle \<Rightarrow> 'p Deps \<Rightarrow> 'p Deps" where
  "with_mempool_retriever r d = d\<lparr>dp_mempool_retriever := r\<rparr>"

definition with_pubsub :: "handle \<Rightarrow> 'p Deps \<Rightarrow> 'p Deps" where
  "with_pubsub pubsub d = d\<lparr>dp_pubsub := pubsub\<rparr>"

definition with_cluster_snapshot :: "handle \<Rightarrow> 'p Deps \<Rightarrow> 'p Deps" where
  "with_cluster_snapshot snapshot d = d\<lparr>dp_clusters := snapshot\<rparr>"

definition with_feerate_diagram_snapshot :: "handle \<Rightarrow> 'p Deps \<Rightarrow> 'p Deps" where
  "with_feerate_diagram_snapshot snapshot d = d\<lparr>dp_diagram := snapshot\<rparr>"

section \<open>Tasks\<close>

text \<open>What runs beside what in the process, with all it was given.\<close>

datatype 'p spawned =
    Serve "'p AppState"
  | Shut_down 'p "'p BlockService"
  | Start_up handle handle handle "'p NodeHealthService" "'p BootstrapService"
  | Persist_blocks "'p BlockService"
  | Consume_status "'p NodeStatusService"
  | Watch_mempool handle handle
  | Watch_diagram handle handle handle
  | Watch_blocks string handle
  | Watch_status handle handle
  | Sample_gauges "'p GaugeSampleService"
  | Sample_counters "'p CounterSampleService"
  | Sample_process 'p handle
  | Sample_storage 'p
  | Consume_backfill "'p TxBackfillConsumer" handle
  | Reconcile "'p MempoolReconciler"

definition observer_tasks :: "Clients \<Rightarrow> handle \<Rightarrow> handle \<Rightarrow> 'p spawned list" where
  "observer_tasks clients ledger diagram =
    [Watch_mempool (ct_rpc clients) ledger, Watch_diagram (ct_rpc clients) diagram (ct_pubsub clients),
     Watch_blocks (ct_zmq clients) (ct_pubsub clients), Watch_status (ct_rpc clients) (ct_pubsub clients)]"

definition bootstrap_tasks :: "'p BootstrapService \<Rightarrow> Clients \<Rightarrow> handle \<Rightarrow> 'p spawned list" where
  "bootstrap_tasks b clients diagram =
    [Persist_blocks (bo_block b), Consume_status (bo_node_status b)] @ observer_tasks clients (bo_ledger b) diagram"

text \<open>What \<open>run\<close> spawns or awaits itself, before and while it serves, and what its start-up task spawns later: the tasks of
  the bootstrap once that has caught up, and the samplers, the consumer and the reconciler once the bootstrap is over. The
  queue's one receiver goes to the consumer.\<close>

definition early_tasks :: "'p \<Rightarrow> Clients \<Rightarrow> 'p Deps \<Rightarrow> 'p spawned list" where
  "early_tasks pool clients deps =
    (let state = deps_app_state deps in
       [Sample_process pool (ct_pubsub clients), Sample_storage pool,
        Start_up (ct_rpc clients) (ct_rpc clients) (at_readiness state) (dp_node_health deps) (at_bootstrap state),
        Shut_down (at_events state) (at_block state), Serve state])"

definition late_tasks :: "Clients \<Rightarrow> 'p Deps \<Rightarrow> 'p spawned list" where
  "late_tasks clients deps =
    (let state = deps_app_state deps; receiver = dp_queue deps in
       bootstrap_tasks (at_bootstrap state) clients (dp_diagram deps) @
       [Sample_gauges (gauge_sample_service deps), Sample_counters (counter_sample_service deps),
        Consume_backfill (tx_backfill_consumer deps) receiver, Reconcile (mempool_reconciler deps)])"

definition heap_take_receiver :: "handle \<Rightarrow> object list \<Rightarrow> object list option" where
  "heap_take_receiver a h =
    (case h ! a of
       QueueObj q \<Rightarrow> (case take_receiver q of (True, q') \<Rightarrow> Some (h[a := QueueObj q']) | (False, q') \<Rightarrow> None)
     | _ \<Rightarrow> None)"

text \<open>\<open>run\<close> up to the point where it serves, with each of its panics. What the database and the network answer are arguments: whether
  the migrations ran, the pool, and whether the address could be bound.\<close>

datatype run_panic = Migrations_failed | Pool_failed | Clients_failed ObserverError | Queue_refused | Bind_failed | Receiver_taken

definition run_tasks ::
  "Config \<Rightarrow> nat \<Rightarrow> bool \<Rightarrow> 'p option \<Rightarrow> bool \<Rightarrow> run_panic + 'p Deps \<times> object list \<times> 'p spawned list \<times> 'p spawned list" where
  "run_tasks config capacity migrated built bound =
    (if \<not> migrated then Inl Migrations_failed
     else case built of
         None \<Rightarrow> Inl Pool_failed
       | Some pool \<Rightarrow>
           (case clients_new config [] of
              Inl e \<Rightarrow> Inl (Clients_failed e)
            | Inr (clients, h1) \<Rightarrow>
                (case with_queue_capacity (repos_new pool) clients capacity h1 of
                   None \<Rightarrow> Inl Queue_refused
                 | Some (deps, h2) \<Rightarrow>
                     if \<not> bound then Inl Bind_failed
                     else case heap_take_receiver (dp_queue deps) h2 of
                            None \<Rightarrow> Inl Receiver_taken
                          | Some h3 \<Rightarrow> Inr (deps, h3, early_tasks pool clients deps, late_tasks clients deps))))"

section \<open>Who holds what\<close>

text \<open>The handles in a service or task, each with the kind of object the code takes it for.\<close>

datatype kind = KLedger | KGate | KLock | KClusters | KDiagram | KReachability | KReadiness | KQueue | KBus | KRpc

fun kind_of :: "object \<Rightarrow> kind" where
  "kind_of (LedgerObj _) = KLedger"
| "kind_of (GateObj _) = KGate"
| "kind_of (LockObj _) = KLock"
| "kind_of (ClustersObj _) = KClusters"
| "kind_of (DiagramObj _) = KDiagram"
| "kind_of (ReachabilityObj _) = KReachability"
| "kind_of (ReadinessObj _) = KReadiness"
| "kind_of (QueueObj _) = KQueue"
| "kind_of (BusObj _) = KBus"
| "kind_of (RpcObj _) = KRpc"

definition health_uses :: "'p NodeHealthService \<Rightarrow> (kind \<times> handle) list" where
  "health_uses s = [(KRpc, nh_network s), (KReachability, nh_last s)]"

definition status_uses :: "'p NodeStatusService \<Rightarrow> (kind \<times> handle) list" where
  "status_uses s = (KBus, ns_pubsub s) # health_uses (ns_node_health s)"

definition cluster_uses :: "'p ClusterService \<Rightarrow> (kind \<times> handle) list" where
  "cluster_uses s = [(KRpc, cl_retriever s), (KClusters, cd_snapshot (cl_delta s)), (KBus, cd_pubsub (cl_delta s)), (KLedger, cl_ledger s)]"

definition block_uses :: "'p BlockService \<Rightarrow> (kind \<times> handle) list" where
  "block_uses s = [(KLedger, bs_ledger s), (KGate, bs_gate s), (KLock, bs_apply_lock s), (KRpc, bs_retriever s), (KBus, bs_pubsub s)] @
     cluster_uses (bs_cluster s)"

definition reconciler_uses :: "'p MempoolReconciler \<Rightarrow> (kind \<times> handle) list" where
  "reconciler_uses s = [(KLedger, mr_ledger s), (KQueue, mr_queue s), (KBus, mr_pubsub s), (KGate, mr_gate s)] @ cluster_uses (mr_cluster s)"

definition home_uses :: "'p HomeService \<Rightarrow> (kind \<times> handle) list" where
  "home_uses s = [(KLedger, ho_ledger s), (KBus, ho_pubsub s)] @ cluster_uses (ho_cluster s)"

definition gauge_uses :: "'p GaugeSampleService \<Rightarrow> (kind \<times> handle) list" where
  "gauge_uses s = [(KClusters, gg_clusters s), (KLedger, gg_ledger s)]"

definition bootstrap_uses :: "'p BootstrapService \<Rightarrow> (kind \<times> handle) list" where
  "bootstrap_uses s = [(KRpc, bo_retriever s), (KLedger, bo_ledger s), (KQueue, bo_queue s)] @
     block_uses (bo_block s) @ cluster_uses (bo_cluster s) @ status_uses (bo_node_status s)"

definition app_uses :: "'p AppState \<Rightarrow> (kind \<times> handle) list" where
  "app_uses s = [(KLedger, at_ledger s), (KBus, at_mempool s), (KDiagram, at_diagram s), (KReadiness, at_readiness s)] @
     block_uses (at_block s) @ cluster_uses (at_cluster s) @ home_uses (at_home s) @ gauge_uses (at_gauges s) @ bootstrap_uses (at_bootstrap s)"

fun task_uses :: "'p spawned \<Rightarrow> (kind \<times> handle) list" where
  "task_uses (Serve s) = app_uses s"
| "task_uses (Shut_down _ s) = block_uses s"
| "task_uses (Start_up chain mempool readiness health s) =
     [(KRpc, chain), (KRpc, mempool), (KReadiness, readiness)] @ health_uses health @ bootstrap_uses s"
| "task_uses (Persist_blocks s) = block_uses s"
| "task_uses (Consume_status s) = status_uses s"
| "task_uses (Watch_mempool rpc ledger) = [(KRpc, rpc), (KLedger, ledger)]"
| "task_uses (Watch_diagram rpc diagram bus) = [(KRpc, rpc), (KDiagram, diagram), (KBus, bus)]"
| "task_uses (Watch_blocks _ bus) = [(KBus, bus)]"
| "task_uses (Watch_status rpc bus) = [(KRpc, rpc), (KBus, bus)]"
| "task_uses (Sample_gauges s) = gauge_uses s"
| "task_uses (Sample_counters _) = []"
| "task_uses (Sample_process _ bus) = [(KBus, bus)]"
| "task_uses (Sample_storage _) = []"
| "task_uses (Consume_backfill s receiver) = [(KRpc, tc_retriever s), (KQueue, tc_queue s), (KLedger, tc_ledger s), (KQueue, receiver)]"
| "task_uses (Reconcile s) = reconciler_uses s"

lemmas use_defs = health_uses_def status_uses_def cluster_uses_def block_uses_def reconciler_uses_def home_uses_def
  gauge_uses_def bootstrap_uses_def app_uses_def

lemmas service_defs = cluster_delta_service_def cluster_service_def block_service_def mempool_service_def mempool_reconciler_def
  home_service_def gauge_sample_service_def counter_sample_service_def transaction_service_def tx_backfill_consumer_def
  feerate_diagram_service_def system_event_service_def node_status_service_def bootstrap_service_def deps_app_state_def

text \<open>Whatever was swapped before, the services made from one \<open>Deps\<close> hold what it holds and nothing else that can change.\<close>

definition deps_uses :: "'p Deps \<Rightarrow> (kind \<times> handle) set" where
  "deps_uses d = {(KBus, dp_pubsub d), (KLedger, dp_ledger d), (KGate, dp_gate d), (KLock, dp_apply_lock d), (KClusters, dp_clusters d),
     (KDiagram, dp_diagram d), (KRpc, dp_mempool_retriever d), (KRpc, dp_transaction_retriever d), (KRpc, dp_cluster_retriever d),
     (KRpc, dp_block_retriever d), (KRpc, nh_network (dp_node_health d)), (KReachability, nh_last (dp_node_health d)),
     (KReadiness, dp_readiness d), (KQueue, dp_queue d)}"

lemma services_hold_deps:
  "set (app_uses (deps_app_state d)) \<union> set (reconciler_uses (mempool_reconciler d)) \<union>
     set (task_uses (Consume_backfill (tx_backfill_consumer d) (dp_queue d))) = deps_uses d"
  by (auto simp: use_defs service_defs deps_uses_def)

lemma services_within_deps:
  shows cluster_within: "set (cluster_uses (cluster_service d)) \<subseteq> deps_uses d"
    and block_within: "set (block_uses (block_service d)) \<subseteq> deps_uses d"
    and status_within: "set (status_uses (node_status_service d)) \<subseteq> deps_uses d"
    and health_within: "set (health_uses (dp_node_health d)) \<subseteq> deps_uses d"
    and gauge_within: "set (gauge_uses (gauge_sample_service d)) \<subseteq> deps_uses d"
    and bootstrap_within: "set (bootstrap_uses (bootstrap_service d)) \<subseteq> deps_uses d"
    and reconciler_within: "set (reconciler_uses (mempool_reconciler d)) \<subseteq> deps_uses d"
    and app_within: "set (app_uses (deps_app_state d)) \<subseteq> deps_uses d"
    and consumer_within: "{(KRpc, tc_retriever (tx_backfill_consumer d)), (KQueue, tc_queue (tx_backfill_consumer d)),
      (KLedger, tc_ledger (tx_backfill_consumer d))} \<subseteq> deps_uses d"
  by (simp_all add: use_defs service_defs deps_uses_def)

lemma tasks_hold_deps:
  assumes "ct_pubsub clients = dp_pubsub d" "ct_rpc clients = dp_mempool_retriever d"
  shows "\<Union> (set ` task_uses ` set (early_tasks pool clients d @ late_tasks clients d)) = deps_uses d"
proof
  have services: "at_block (deps_app_state d) = block_service d" "at_bootstrap (deps_app_state d) = bootstrap_service d"
    "at_readiness (deps_app_state d) = dp_readiness d" "bo_block (bootstrap_service d) = block_service d"
    "bo_node_status (bootstrap_service d) = node_status_service d" "bo_ledger (bootstrap_service d) = dp_ledger d"
    by (simp_all add: deps_app_state_def bootstrap_service_def)
  have shared: "(KBus, dp_pubsub d) \<in> deps_uses d" "(KRpc, dp_mempool_retriever d) \<in> deps_uses d" "(KDiagram, dp_diagram d) \<in> deps_uses d"
    "(KLedger, dp_ledger d) \<in> deps_uses d" "(KReadiness, dp_readiness d) \<in> deps_uses d" "(KQueue, dp_queue d) \<in> deps_uses d"
    by (simp_all add: deps_uses_def)
  have "list_all (\<lambda>t. set (task_uses t) \<subseteq> deps_uses d) (early_tasks pool clients d @ late_tasks clients d)"
    by (simp add: early_tasks_def late_tasks_def bootstrap_tasks_def observer_tasks_def Let_def services services_within_deps shared assms consumer_within [simplified])
  then show "\<Union> (set ` task_uses ` set (early_tasks pool clients d @ late_tasks clients d)) \<subseteq> deps_uses d" by (auto simp: list_all_iff)
  have "{Serve (deps_app_state d), Reconcile (mempool_reconciler d), Consume_backfill (tx_backfill_consumer d) (dp_queue d)}
      \<subseteq> set (early_tasks pool clients d @ late_tasks clients d)"
    by (simp add: early_tasks_def late_tasks_def Let_def)
  then show "deps_uses d \<subseteq> \<Union> (set ` task_uses ` set (early_tasks pool clients d @ late_tasks clients d))"
    unfolding services_hold_deps [of d, symmetric] by fastforce
qed

lemma kinds_enum: "{(kind_of (h ! a), a) | a. a < length h} = (\<lambda>a. (kind_of (h ! a), a)) ` {0..<length h}"
  by auto

lemmas run_defs = run_tasks_def clients_new_def rpc_client_new_def with_queue_capacity_def node_health_service_new_def alloc_def
  heap_take_receiver_def take_receiver_def queue_new_def empty_queue_def Let_def


end
