(* ===== verification/Flush.thy ===== *)
theory Flush
  imports Reconciler
begin

text \<open>
  The flush protocol between the mempool ledger (\<open>shared/src/snapshot/mempool.rs\<close>) and the table of
  deltas, at the granularity of the reconciler's calls: a tick (\<open>api/src/services/mempool_reconciler.rs\<close>) takes a
  batch, writes it with \<open>write_batch\<close> and commits it, and observers, blocks and every other writer of the database
  may act between any two of these calls. The protocol is followed from the moment a running process has seeded a
  ledger whose journal was empty; what start-up does before that is in theory \<open>Bootstrap\<close>.
\<close>

section \<open>The protocol\<close>

text \<open>The batch in flight, and whether the database already has it.\<close>

record flush_state =
  fl_ledger :: Inner
  fl_batch :: "JournalEntry list option"
  fl_written :: bool
  fl_db :: db

inductive flush_step :: "flush_state \<Rightarrow> flush_state \<Rightarrow> bool" where
  fs_submit: "iterates it \<Longrightarrow> finite txids \<Longrightarrow>
    flush_step s (s\<lparr>fl_ledger := submit_authoritative it clk txids (fl_ledger s)\<rparr>)"
| fs_present: "flush_step s (s\<lparr>fl_ledger := assert_present clk txs (fl_ledger s)\<rparr>)"
| fs_absent: "flush_step s (s\<lparr>fl_ledger := assert_absent clk txs (fl_ledger s)\<rparr>)"
| fs_tables: "db_deltas d' = db_deltas (fl_db s) \<Longrightarrow>
    (distinct (map tx_txid (db_transactions (fl_db s))) \<Longrightarrow> distinct (map tx_txid (db_transactions d'))) \<Longrightarrow>
    flush_step s (s\<lparr>fl_db := d'\<rparr>)"
| fs_begin: "fl_batch s = None \<Longrightarrow> begin_flush (fl_ledger s) = Some es \<Longrightarrow>
    flush_step s (s\<lparr>fl_batch := Some es\<rparr>)"
| fs_write: "fl_batch s = Some es \<Longrightarrow> \<not> fl_written s \<Longrightarrow> iterates it \<Longrightarrow>
    write_batch it fault preempted now es (fl_db s) = (Inr (Some outcome), d') \<Longrightarrow>
    flush_step s (s\<lparr>fl_db := d', fl_written := True\<rparr>)"
| fs_fail: "fl_batch s = Some es \<Longrightarrow> \<not> fl_written s \<Longrightarrow> iterates it \<Longrightarrow>
    write_batch it fault preempted now es (fl_db s) = (res, d') \<Longrightarrow> \<forall>outcome. res \<noteq> Inr (Some outcome) \<Longrightarrow>
    flush_step s (s\<lparr>fl_db := d', fl_batch := None\<rparr>)"
| fs_commit: "fl_batch s = Some es \<Longrightarrow> fl_written s \<Longrightarrow> commit es (fl_ledger s) = Some l \<Longrightarrow>
    flush_step s (s\<lparr>fl_ledger := l, fl_batch := None, fl_written := False\<rparr>)"

inductive_cases flush_stepE: "flush_step s s'"

definition flush_starts :: "flush_state \<Rightarrow> bool" where
  "flush_starts s \<longleftrightarrow> fl_batch s = None \<and> \<not> fl_written s \<and> distinct (map tx_txid (db_transactions (fl_db s))) \<and>
     (\<exists>l. lg_journal l = [] \<and> \<not> lg_degraded l \<and> fl_ledger s = seed (residency (fl_db s)) l)"

text \<open>The part of the journal the database does not hold yet.\<close>

definition unwritten :: "flush_state \<Rightarrow> JournalEntry list" where
  "unwritten s = (if fl_written s then drop (length (the (fl_batch s))) (lg_journal (fl_ledger s))
     else lg_journal (fl_ledger s))"

definition flush_inv :: "flush_state \<Rightarrow> bool" where
  "flush_inv s \<longleftrightarrow>
     finite (lg_live (fl_ledger s)) \<and> distinct (map tx_txid (db_transactions (fl_db s))) \<and>
     length (lg_journal (fl_ledger s)) \<le> JOURNAL_CAP \<and>
     (fl_written s \<longrightarrow> fl_batch s \<noteq> None) \<and>
     (\<forall>es. fl_batch s = Some es \<longrightarrow> es \<noteq> [] \<and> length es \<le> length (lg_journal (fl_ledger s)) \<and>
        es = take (length es) (lg_journal (fl_ledger s))) \<and>
     (\<not> lg_degraded (fl_ledger s) \<longrightarrow> effective (unwritten s) (residency (fl_db s)) \<and>
        replay (unwritten s) (residency (fl_db s)) = lg_live (fl_ledger s))"

lemma flush_starts_inv: "flush_starts s \<Longrightarrow> flush_inv s"
  using deltas.finite_fold [of "{}"] by (auto simp: flush_starts_def flush_inv_def unwritten_def seed_def residency_def)

lemma flush_inv_producer:
  assumes inv: "flush_inv s" and ext: "extends (fl_ledger s) l" and fin: "finite (lg_live l)"
  shows "flush_inv (s\<lparr>fl_ledger := l\<rparr>)"
proof -
  from ext obtain new where new: "lg_journal l = lg_journal (fl_ledger s) @ new"
    "lg_degraded (fl_ledger s) \<longrightarrow> lg_degraded l"
    "length (lg_journal (fl_ledger s)) \<le> JOURNAL_CAP \<longrightarrow> length (lg_journal l) \<le> JOURNAL_CAP"
    "\<not> lg_degraded l \<longrightarrow> effective new (lg_live (fl_ledger s)) \<and> replay new (lg_live (fl_ledger s)) = lg_live l"
    unfolding extends_def by blast
  have "unwritten (s\<lparr>fl_ledger := l\<rparr>) = unwritten s @ new"
    using inv by (auto simp: unwritten_def new(1) flush_inv_def)
  with inv new fin show ?thesis
    by (auto simp: flush_inv_def)
qed

lemma flush_inv_db:
  assumes "flush_inv s" "residency d' = residency (fl_db s)" "distinct (map tx_txid (db_transactions d'))"
  shows "flush_inv (s\<lparr>fl_db := d'\<rparr>)"
proof -
  have "unwritten (s\<lparr>fl_db := d'\<rparr>) = unwritten s"
    by (simp add: unwritten_def)
  with assms show ?thesis
    by (simp add: flush_inv_def)
qed

lemma flush_inv_written:
  assumes inv: "flush_inv s" and batch: "fl_batch s = Some es" "\<not> fl_written s"
    and wr: "residency d' = replay es (residency (fl_db s))" "distinct (map tx_txid (db_transactions d'))"
  shows "flush_inv (s\<lparr>fl_db := d', fl_written := True\<rparr>)"
proof -
  let ?J = "lg_journal (fl_ledger s)"
  have "es = take (length es) ?J"
    using inv batch by (auto simp: flush_inv_def)
  then have "effective (drop (length es) ?J) (replay es (residency (fl_db s))) \<and>
      replay (drop (length es) ?J) (replay es (residency (fl_db s))) = lg_live (fl_ledger s)"
    if "\<not> lg_degraded (fl_ledger s)"
    using that inv batch effective_drop [of ?J "residency (fl_db s)" "length es"]
      replay_take_drop [of "length es" ?J "residency (fl_db s)"]
    by (simp add: flush_inv_def unwritten_def)
  then show ?thesis
    using inv batch wr by (auto simp: flush_inv_def unwritten_def)
qed

lemma flush_step_inv: "flush_step s s' \<Longrightarrow> flush_inv s \<Longrightarrow> flush_inv s'"
proof (induction rule: flush_step.induct)
  case (fs_submit it txids s clk)
  then show ?case
    using submit_authoritative_extends [of it txids "fl_ledger s" clk]
    by (intro flush_inv_producer) (auto simp: flush_inv_def)
next
  case (fs_present s clk txs)
  then show ?case
    by (intro flush_inv_producer assert_present_extends) (simp_all add: assert_present_live flush_inv_def)
next
  case (fs_absent s clk txs)
  then show ?case
    by (intro flush_inv_producer assert_absent_extends) (simp_all add: assert_absent_live flush_inv_def)
next
  case (fs_tables d' s)
  then show ?case
    by (intro flush_inv_db) (simp_all add: residency_def flush_inv_def)
next
  case (fs_begin s es)
  then show ?case
    by (auto simp: flush_inv_def unwritten_def begin_flush_def split: if_splits)
next
  case (fs_write s es it fault preempted now outcome d')
  have db: "distinct (map tx_txid (db_transactions (fl_db s)))" "es \<noteq> []"
    using fs_write(1,5) by (simp_all add: flush_inv_def)
  note fields = write_batch_fields [OF fs_write(3) db fs_write(4)]
  show ?case
    by (rule flush_inv_written [OF fs_write(5,1,2) fields(2,1)]) simp
next
  case (fs_fail s es it fault preempted now res d')
  have db: "distinct (map tx_txid (db_transactions (fl_db s)))" "es \<noteq> []"
    using fs_fail(1,6) by (simp_all add: flush_inv_def)
  note fields = write_batch_fields [OF fs_fail(3) db fs_fail(4)]
  have "flush_inv (s\<lparr>fl_db := d'\<rparr>)"
    using fields(1,3) fs_fail(5,6) by (intro flush_inv_db) (simp_all add: residency_def)
  then show ?case
    using fs_fail(2) by (auto simp: flush_inv_def unwritten_def)
next
  case (fs_commit s es l)
  then show ?case
    by (auto simp: flush_inv_def unwritten_def commit_def split: if_splits)
qed

interpretation flush: machine flush_starts flush_step flush_inv
  by unfold_locales (rule flush_starts_inv, assumption, rule flush_step_inv)

section \<open>Properties\<close>

text \<open>C5: The flush protocol loses and repeats nothing. A running process starts it with a seeded ledger whose
  journal is empty; then observers, blocks, other writers of the database and the ticks of the reconciler act in any order, a
  tick call by call, and its write may fail or be preempted. In every state they reach, the batch in
  flight is still the front of the journal, so committing it neither panics nor drops an
  entry that was not flushed; the journal stays within its cap; and unless entries were lost
  to the cap, the entries the database does not hold yet are all real transitions and replaying
  them on the recorded residency gives exactly the live set.\<close>

theorem flush_protocol_consistent:
  assumes "flush_starts s0" "flush_step\<^sup>*\<^sup>* s0 s"
  shows "length (lg_journal (fl_ledger s)) \<le> JOURNAL_CAP \<and>
    (\<forall>es. fl_batch s = Some es \<longrightarrow> (\<exists>l. commit es (fl_ledger s) = Some l \<and>
       lg_journal (fl_ledger s) = es @ lg_journal l \<and> lg_live l = lg_live (fl_ledger s))) \<and>
    (\<not> lg_degraded (fl_ledger s) \<longrightarrow> effective (unwritten s) (residency (fl_db s)) \<and>
       replay (unwritten s) (residency (fl_db s)) = lg_live (fl_ledger s))"
proof -
  have inv: "flush_inv s"
    by (rule flush.reached_inv [OF assms])
  have "\<exists>l. commit es (fl_ledger s) = Some l \<and> lg_journal (fl_ledger s) = es @ lg_journal l \<and>
      lg_live l = lg_live (fl_ledger s)" if "fl_batch s = Some es" for es
  proof -
    have "length es \<le> length (lg_journal (fl_ledger s))" "es = take (length es) (lg_journal (fl_ledger s))"
      using inv that by (auto simp: flush_inv_def)
    then show ?thesis
      using append_take_drop_id [of "length es" "lg_journal (fl_ledger s)"] by (simp add: commit_def)
  qed
  with inv show ?thesis
    by (simp add: flush_inv_def)
qed

definition sample_entry :: JournalEntry where
  "sample_entry = \<lparr>je_txid = ''a'', je_direction = Add, je_observed_at = 5\<rparr>"

definition flush_fresh :: flush_state where
  "flush_fresh = \<lparr>fl_ledger = seed (residency sample_db) ledger_default, fl_batch = None, fl_written = False, fl_db = sample_db\<rparr>"

definition sample_flush :: flush_state where
  "sample_flush = flush_fresh\<lparr>fl_ledger := \<lparr>lg_live = {''a''}, lg_journal = [sample_entry], lg_degraded = False\<rparr>,
     fl_batch := Some [sample_entry]\<rparr>"

lemma flush_fresh_starts: "flush_starts flush_fresh"
  by (auto simp: flush_starts_def flush_fresh_def sample_db_def ledger_default_def intro!: exI [of _ ledger_default])

lemma sample_residency: "residency sample_db = {}"
  by (simp add: residency_def sample_db_def)

lemma sample_flush_reached: "flush_step\<^sup>*\<^sup>* flush_fresh sample_flush"
proof -
  let ?s1 = "flush_fresh\<lparr>fl_ledger := assert_present (\<lambda>_. 5) [''a''] (fl_ledger flush_fresh)\<rparr>"
  have l: "fl_ledger ?s1 = \<lparr>lg_live = {''a''}, lg_journal = [sample_entry], lg_degraded = False\<rparr>"
    by (simp add: flush_fresh_def seed_def ledger_default_def push_def JOURNAL_CAP_def sample_entry_def sample_residency)
  have "begin_flush (fl_ledger ?s1) = Some [sample_entry]"
    unfolding l by (simp add: begin_flush_def)
  then have "flush_step ?s1 (?s1\<lparr>fl_batch := Some [sample_entry]\<rparr>)"
    by (intro fs_begin) (simp_all add: flush_fresh_def)
  moreover have "?s1\<lparr>fl_batch := Some [sample_entry]\<rparr> = sample_flush"
    using l by (simp add: sample_flush_def)
  ultimately show ?thesis
    using fs_present [of flush_fresh "\<lambda>_. 5" "[''a'']"] by (metis converse_rtranclp_into_rtranclp r_into_rtranclp)
qed

theorem flush_protocol_consistent_witness:
  "flush_step\<^sup>*\<^sup>* flush_fresh sample_flush \<and> replay (unwritten sample_flush) {} = {''a''} \<and>
   (\<exists>l. commit [sample_entry] (fl_ledger sample_flush) = Some l)"
  using flush_protocol_consistent [OF flush_fresh_starts sample_flush_reached] sample_flush_reached
  by (auto simp: sample_flush_def flush_fresh_def sample_residency)

section \<open>Losses to the cap\<close>

text \<open>Nothing clears the mark of an overflow while the process runs.\<close>

lemma degraded_stays:
  assumes "flush_step s s'" "lg_degraded (fl_ledger s)"
  shows "lg_degraded (fl_ledger s')"
  using assms(1)
proof (cases rule: flush_step.cases)
  case (fs_submit it txids clk)
  then show ?thesis
    using assms(2) by (simp add: submit_authoritative_def Let_def push_each_spec)
next
  case (fs_present clk txs)
  with assms(2) assert_present_extends [of "fl_ledger s" clk txs] show ?thesis
    by (auto simp: extends_def)
next
  case (fs_absent clk txs)
  with assms(2) assert_absent_extends [of "fl_ledger s" clk txs] show ?thesis
    by (auto simp: extends_def)
qed (use assms(2) in \<open>auto simp: commit_def split: if_splits\<close>)

lemma overflow_diverges:
  "\<exists>s. flush_step\<^sup>*\<^sup>* flush_fresh s \<and> lg_journal (fl_ledger s) = [] \<and> residency (fl_db s) \<noteq> lg_live (fl_ledger s)"
proof -
  obtain T :: "txid set" where T: "finite T" "card T = Suc JOURNAL_CAP"
    using infinite_arbitrarily_large [OF infinite_UNIV_listI] by metis
  let ?it = "sorted_list_of_set :: txid set \<Rightarrow> txid list"
  let ?es = "entries_for (\<lambda>_. 0) 0 Add (take JOURNAL_CAP (?it T))"
  have len: "length (?it T) = Suc JOURNAL_CAP"
    using T iterates_length [OF iterates_sorted] by metis
  have ne: "?es \<noteq> []"
    using T by (auto simp: entries_for_def JOURNAL_CAP_def)
  let ?l = "\<lparr>lg_live = T, lg_journal = ?es, lg_degraded = True\<rparr>"
  obtain outcome d' where wr: "write_batch ?it None (\<lambda>_. False) 0 ?es sample_db = (Inr (Some outcome), d')"
    using write_batch_undisturbed by blast
  let ?s1 = "flush_fresh\<lparr>fl_ledger := ?l\<rparr>"
  let ?s2 = "?s1\<lparr>fl_batch := Some ?es\<rparr>"
  let ?s3 = "?s2\<lparr>fl_db := d', fl_written := True\<rparr>"
  let ?s4 = "?s3\<lparr>fl_ledger := ?l\<lparr>lg_journal := []\<rparr>, fl_batch := None, fl_written := False\<rparr>"
  have "flush_step flush_fresh ?s1"
    using fs_submit [OF iterates_sorted T(1), of flush_fresh "\<lambda>_. 0"] submit_to_empty [OF iterates_sorted T(1) len]
    by (simp add: flush_fresh_def sample_residency)
  moreover have "flush_step ?s1 ?s2"
    by (rule fs_begin) (use ne in \<open>simp_all add: begin_flush_def flush_fresh_def\<close>)
  moreover have "flush_step ?s2 ?s3"
    by (rule fs_write [OF _ _ iterates_sorted, where es = ?es]) (use wr in \<open>simp_all add: flush_fresh_def\<close>)
  moreover have "flush_step ?s3 ?s4"
    by (rule fs_commit [where es = ?es]) (simp_all add: commit_def)
  ultimately have run: "flush_step\<^sup>*\<^sup>* flush_fresh ?s4"
    by (meson converse_rtranclp_into_rtranclp rtranclp.rtrancl_refl)
  have "residency d' = replay ?es {}"
    using write_batch_fields(2) [OF iterates_sorted _ ne wr] by (simp add: sample_residency) (simp add: sample_db_def)
  moreover have "card (set (take JOURNAL_CAP (?it T))) \<noteq> Suc JOURNAL_CAP"
    using card_length [of "take JOURNAL_CAP (?it T)"] by simp
  then have "set (take JOURNAL_CAP (?it T)) \<noteq> T"
    using T(2) by metis
  ultimately have "residency (fl_db ?s4) \<noteq> lg_live (fl_ledger ?s4)"
    by (simp add: replay_entries_for)
  with run show ?thesis
    by (intro exI [of _ ?s4]) simp
qed

text \<open>A loss to the journal's cap is never repaired while the process runs: every step keeps the degraded
  mark, and there is a reachable state with nothing
  left to flush in which the recorded residency still differs from the live set.\<close>

theorem overflow_persists:
  "(\<forall>s s'. flush_step s s' \<and> lg_degraded (fl_ledger s) \<longrightarrow> lg_degraded (fl_ledger s')) \<and>
   (\<exists>s. flush_step\<^sup>*\<^sup>* flush_fresh s \<and> lg_journal (fl_ledger s) = [] \<and> residency (fl_db s) \<noteq> lg_live (fl_ledger s))"
  using degraded_stays overflow_diverges by blast

end
