(* ===== verification/Running.thy ===== *)
theory Running
  imports System Startup Watchers Flush
begin

text \<open>
  The service from its start on: what every start leaves, whatever failed in it, and what a start without faults leaves
  besides (theory \<open>Bootstrap\<close>); that the running system (theory \<open>System\<close>) keeps both; and what a client of the mempool
  stream holds, from its subscription on, when the service has caught up with the node.
\<close>

section \<open>Staying level\<close>

lemma levelled_outside:
  assumes "levelled seeded old w" "cluster_outside (w_db w) (w_db w')" "w_snapshot w' = w_snapshot w" "w_log w' = w_log w"
  shows "levelled seeded old w'"
  using assms cluster_outside_inv [OF assms(2)] by (simp add: levelled_def)

lemma levelled_same [simp]:
  "levelled seeded old (step w) \<longleftrightarrow> levelled seeded old w" "levelled seeded old (publish e w) \<longleftrightarrow> levelled seeded old w"
  "levelled seeded old (w\<lparr>w_ledger := l\<rparr>) \<longleftrightarrow> levelled seeded old w"
  by (simp_all add: levelled_def step_def publish_def)

text \<open>A ledger whose journal is within its cap; it may be out of step with the database.\<close>

definition capped :: "Inner \<Rightarrow> bool" where
  "capped l \<longleftrightarrow> finite (lg_live l) \<and> length (lg_journal l) \<le> JOURNAL_CAP"

lemma capped_extends: "capped l \<Longrightarrow> extends l l' \<Longrightarrow> finite (lg_live l') \<Longrightarrow> capped l'"
  by (auto simp: capped_def extends_def)

lemma capped_produced: "capped l \<Longrightarrow> produces f \<Longrightarrow> capped (f l)"
  using capped_extends by (simp add: produces_def capped_def)

lemma capped_frame: "capped (w_ledger w) \<Longrightarrow> w_frame w w' \<Longrightarrow> capped (w_ledger w')"
  using capped_extends [of "w_ledger w" "w_ledger w'"] by (simp add: w_frame_def capped_def)

definition level_ok :: "env \<Rightarrow> bool \<Rightarrow> LogEntry list \<Rightarrow> world \<Rightarrow> bool" where
  "level_ok env seeded old w \<longleftrightarrow> tables_ok env w \<and> iterates (ev_it_ids env) \<and> levelled seeded old w \<and> capped (w_ledger w)"

lemma confirm_frame:
  assumes "tables_ok env w" "confirm_mined env txids fees weights t w = Some w'"
  shows "w_frame w w'"
  using confirm_returns [of env w txids fees weights t] assms by (auto simp: tables_ok_def)

interpretation level_blocks: block_inv env "level_ok env seeded old" for env seeded old
proof (unfold_locales, goal_cases)
  case (4 w d)
  then show ?case
    using levelled_outside [of seeded old w "w\<lparr>w_db := d\<rparr>"] table_blocks.inv_outside by (simp add: level_ok_def)
next
  case (5 w f)
  then show ?case
    using capped_produced table_blocks.inv_produced by (simp add: level_ok_def)
next
  case (6 w txids fees weights t w')
  then show ?case
    using mined_levelled [of env seeded old w txids fees weights t w'] table_blocks.inv_confirm [of env w txids fees weights t w']
      confirm_frame [of env w txids fees weights t w'] capped_frame [of w w']
    by (simp add: level_ok_def) (simp add: tables_ok_def)
qed (auto simp: level_ok_def tables_ok_def)

lemma tick_levelled:
  assumes "node_ok env" "iterates (ev_it_txids env)" "iterates (ev_it_ids env)" "levelled seeded old (ap_world ap)"
    and run: "tick env preempted meanwhile now ap = Some ap'"
  shows "levelled seeded old (ap_world ap')"
proof -
  let ?w = "ap_world ap" and ?batch = "lg_journal (w_ledger (ap_world ap))" and ?it = "ev_it_txids env"
  have "distinct (map tx_txid (db_transactions (w_db ?w)))"
    using assms(4) by (simp add: levelled_def cluster_inv_def cluster_inv_upto_def)
  note outside = write_batch_outside [OF assms(2) this]
  obtain res d where wr: "write_batch ?it (ev_fault env (w_steps ?w)) preempted (ev_now env (w_steps ?w)) ?batch (w_db ?w) = (res, d)"
    by (rule prod.exhaust)
  let ?w1 = "step (?w\<lparr>w_db := d\<rparr>)"
  have dbw: "db_write env (\<lambda>fault clock. write_batch ?it fault preempted clock ?batch) ?w = (res, ?w1)"
    by (simp add: db_write_def wr)
  have lev: "levelled seeded old ?w1"
    using levelled_outside [OF assms(4), of "?w\<lparr>w_db := d\<rparr>"] outside [OF wr] by simp
  have "levelled seeded old w'" if "after_write env meanwhile ?batch outcome (ap_queue ap) ?w1 = Some (q, w')" for outcome q w'
    using that lev
    by (auto simp: after_write_def sync_clusters_after_flush_def split: prod.splits option.splits)
      (erule sync_levelled [OF assms(1-3), rotated], simp)
  then show ?thesis
    using run lev assms(4) unfolding tick_def begin_flush_def
    by (auto simp: dbw split: prod.splits bool.splits option.splits sum.splits if_splits)
qed

text \<open>What a tick does to the ledger, in step with the database or not: observers extend it, a commit takes
  a prefix of the journal off, the cluster round extends it.\<close>

lemma tick_ledger:
  assumes "tick env preempted meanwhile now ap = Some ap'" "iterates (ev_it_txids env)" "produces meanwhile"
    "distinct (map tx_txid (db_transactions (w_db (ap_world ap))))" "capped (w_ledger (ap_world ap))"
  shows "capped (w_ledger (ap_world ap'))" "lg_degraded (w_ledger (ap_world ap)) \<Longrightarrow> lg_degraded (w_ledger (ap_world ap'))"
proof -
  let ?l = "w_ledger (ap_world ap)"
  have mean: "capped (meanwhile ?l)" "lg_degraded ?l \<Longrightarrow> lg_degraded (meanwhile ?l)"
    using capped_produced [OF assms(5,3)] assms(3,5) by (auto simp: produces_def capped_def extends_def)
  have "capped (w_ledger (ap_world ap')) \<and> (lg_degraded ?l \<longrightarrow> lg_degraded (w_ledger (ap_world ap')))"
    using tick_cases [OF assms(1,2,4)]
  proof
    assume "flushed env meanwhile (ap_world ap) (ap_world ap')"
    then obtain w1 e l where l: "commit (lg_journal ?l) (meanwhile ?l) = Some l"
      and frame: "w_frame (publish e (w1\<lparr>w_ledger := l\<rparr>)) (ap_world ap')"
      unfolding flushed_def by blast
    have "capped l" "lg_degraded ?l \<Longrightarrow> lg_degraded l"
      using mean l by (auto simp: commit_def capped_def split: if_splits)
    then show ?thesis
      using capped_frame [OF _ frame] frame by (auto simp: w_frame_def extends_def)
  qed (use mean assms(5) in \<open>auto simp: unflushed_def\<close>)
  then show "capped (w_ledger (ap_world ap'))" "lg_degraded ?l \<Longrightarrow> lg_degraded (w_ledger (ap_world ap'))"
    by blast+
qed

definition running_inv :: "env \<Rightarrow> block_node \<Rightarrow> (string \<Rightarrow> int) \<Rightarrow> int \<Rightarrow> bool \<Rightarrow> LogEntry list \<Rightarrow> app \<Rightarrow> bool" where
  "running_inv env nd height_of T seeded old ap \<longleftrightarrow> outside_ok env nd height_of T \<and>
     level_ok env seeded old (ap_world ap) \<and> chain_ok height_of (w_db (ap_world ap))"

lemma running_step_inv:
  assumes "system_step env nd ap ap'" "running_inv env nd height_of T seeded old ap"
  shows "running_inv env nd height_of T seeded old ap'"
proof -
  let ?w = "ap_world ap" and ?w' = "ap_world ap'"
  have lev: "levelled seeded old ?w" "level_ok env seeded old ?w" "capped (w_ledger ?w)" and chain: "chain_ok height_of (w_db ?w)"
    and out: "node_ok env" "iterates (ev_it_txids env)" "iterates (ev_it_ids env)" "honest_node nd height_of" "tips_below nd T"
    using assms(2) by (simp_all add: running_inv_def level_ok_def tables_ok_def outside_ok_def)
  have dist: "distinct (map tx_txid (db_transactions (w_db ?w)))"
    using lev(1) by (simp add: levelled_def cluster_inv_def cluster_inv_upto_def)
  have "levelled seeded old ?w' \<and> capped (w_ledger ?w') \<and> chain_ok height_of (w_db ?w')"
    using assms(1)
  proof cases
    case (sys_tick meanwhile preempted now)
    then show ?thesis
      using tick_levelled [OF out(1-3) lev(1)] tick_ledger(1) [OF _ out(2) _ dist lev(3)]
        chain_ok_blocks [OF tick_blocks [OF _ out(2) dist]] chain by blast
  next
    case (sys_blocks r w)
    have "sync_inv (level_ok env seeded old) height_of ?w"
      using lev(2) chain by (simp add: sync_inv_def)
    from level_blocks.caught_run [OF out(4) this out(5)] sys_blocks show ?thesis
      by (auto simp: sync_inv_def level_ok_def)
  next
    case (sys_clusters cand evicted w)
    have frame: "w_frame ?w w"
      using sys_clusters(2) unfolding sync_clusters_for_def by (rule sync_clusters_frame)
    then have "db_blocks (w_db w) = db_blocks (w_db ?w)"
      by (simp add: w_frame_def db_frame_def)
    then show ?thesis
      using sync_levelled [OF out(1-3) lev(1) sys_clusters(2) [unfolded sync_clusters_for_def]] capped_frame [OF lev(3) frame]
        chain_ok_blocks [of "w_db w" "w_db ?w" height_of] chain sys_clusters(1) by simp
  next
    case (sys_backfill a jittered req)
    have "fills (w_db ?w) (snd (process jittered a (w_ledger ?w) req (w_db ?w)))"
      by (rule process_fills) (rule sys_backfill(2))
    then have kept: "cluster_outside (w_db ?w) (w_db ?w')" "db_blocks (w_db ?w') = db_blocks (w_db ?w)"
      using sys_backfill(1) by (simp_all add: fills_def)
    show ?thesis
      using levelled_outside [OF lev(1) kept(1)] lev(3) chain chain_ok_blocks [OF kept(2), of height_of] sys_backfill(1) by simp
  next
    case (sys_observe f)
    then show ?thesis
      using lev(1,3) capped_produced chain by simp
  qed
  then show ?thesis
    using assms(2) out by (simp add: running_inv_def level_ok_def tables_ok_def levelled_def)
qed

interpretation running: machine "running_inv env nd height_of T seeded old" "system_step env nd" "running_inv env nd height_of T seeded old"
  for env nd height_of T seeded old
  by (unfold_locales, assumption, rule running_step_inv)

section \<open>What the bootstrap leaves\<close>

text \<open>The comparison, on every path through it.\<close>

lemma setup_same:
  "w_snapshot (ap_world (snd (setup_mempool_snapshot env raw_mempool ap))) = w_snapshot (ap_world ap)"
  "w_log (ap_world (snd (setup_mempool_snapshot env raw_mempool ap))) = w_log (ap_world ap)"
  by (auto simp: setup_mempool_snapshot_def db_read_def db_write_def Let_def queue_incomplete_world step_def split: sum.split prod.split)

lemma setup_keeps:
  assumes it: "iterates (ev_it_txids env)" and dist: "distinct (map tx_txid (db_transactions (w_db (ap_world ap))))"
    and cap: "capped (w_ledger (ap_world ap))" and run: "setup_mempool_snapshot env raw_mempool ap = (r, ap')"
  shows "cluster_outside (w_db (ap_world ap)) (w_db (ap_world ap'))" "capped (w_ledger (ap_world ap'))"
proof -
  let ?w = "ap_world ap"
  let ?read = "reconstruct_snapshot (ev_fault env (w_steps ?w)) (ev_now env (w_steps ?w)) (w_db ?w)"
  have "cluster_outside (w_db ?w) (w_db (ap_world ap')) \<and> capped (w_ledger (ap_world ap'))"
  proof (cases "(\<exists>prev. ?read = Inr prev) \<and> (\<exists>summaries. raw_mempool (Suc (w_steps ?w)) = Inr summaries)")
    case True
    then obtain prev summaries where ans: "?read = Inr prev" "raw_mempool (Suc (w_steps ?w)) = Inr summaries"
      by blast
    note fin = reconstruct_finite [OF ans(1)]
    note cases = setup_cases [OF it ans(1) fin ans(2) dist run]
    obtain clk where l: "w_ledger (ap_world ap') = submit_authoritative (ev_it_txids env) clk (es_txid ` set summaries) (seed prev (w_ledger ?w))"
      using cases(2) by blast
    have "capped (seed prev (w_ledger ?w))"
      using cap fin by (simp add: capped_def seed_def)
    then show ?thesis
      using capped_produced [OF _ produces_submit [OF it]] cases(4) by (simp add: l)
  next
    case False
    then have "w_db (ap_world ap') = w_db ?w" "w_ledger (ap_world ap') = w_ledger ?w"
      using run by (auto simp: setup_mempool_snapshot_def db_read_def Let_def step_def split: sum.splits)
    then show ?thesis
      using cap by (simp add: outside.keeps_refl)
  qed
  then show "cluster_outside (w_db ?w) (w_db (ap_world ap'))" "capped (w_ledger (ap_world ap'))"
    by blast+
qed

lemma seed_snapshot_same:
  "w_log (seed_snapshot env w) = w_log w" "w_db (seed_snapshot env w) = w_db w" "w_ledger (seed_snapshot env w) = w_ledger w"
  "w_steps (seed_snapshot env w) = Suc (w_steps w)"
  by (auto simp: seed_snapshot_def db_read_def step_def split: sum.split)

text \<open>Every start, whatever failed in it.\<close>

lemma bootstrap_running:
  assumes out: "node_ok env" "iterates (ev_it_txids env)" "iterates (ev_it_ids env)" "honest_node nd height_of" "tips_below nd T"
    and start: "levelled False old (ap_world ap)" "capped (w_ledger (ap_world ap))" "chain_ok height_of (w_db (ap_world ap))"
    and boot: "bootstrap_run env nd raw_mempool ap = Some (r, ap1)"
  shows "running_inv env nd height_of T (ev_fault env (w_steps (ap_world ap1) - 1) = None) old ap1"
proof -
  obtain delays m w1 where sync: "sync_missing_blocks env nd 0 (ap_world ap) = Some (delays, m, w1)"
    using boot by (auto simp: bootstrap_run_def Option.bind_eq_Some_conv)
  let ?ap1 = "ap\<lparr>ap_world := w1\<rparr>"
  obtain ap2 where cmp: "setup_mempool_snapshot env raw_mempool ?ap1 = (r, ap2)"
    and ap1: "ap1 = ap2\<lparr>ap_world := seed_snapshot env (ap_world ap2)\<rparr>"
    using boot sync by (auto simp: bootstrap_run_def split: prod.splits)
  have "sync_inv (level_ok env False old) height_of (ap_world ap)"
    using out start by (simp add: sync_inv_def level_ok_def tables_ok_def levelled_def)
  then have w1: "level_ok env False old w1" "chain_ok height_of (w_db w1)"
    using level_blocks.synced_keeps [OF sync out(4,5), of False old] by (simp_all add: sync_inv_def)
  then have inv: "levelled False old w1" "capped (w_ledger w1)" "distinct (map tx_txid (db_transactions (w_db w1)))"
    by (simp_all add: level_ok_def levelled_def cluster_inv_def cluster_inv_upto_def)
  note kept = setup_keeps [OF out(2) _ _ cmp]
  have "levelled False old (ap_world ap2)"
    using levelled_outside [OF inv(1), of "ap_world ap2"] kept(1) setup_same [of env raw_mempool ?ap1] cmp inv(2,3) by simp
  from levelled_seed [OF this, of env]
  have "levelled (ev_fault env (w_steps (ap_world ap1) - 1) = None) old (ap_world ap1)"
    by (simp add: ap1 seed_snapshot_same)
  moreover have "capped (w_ledger (ap_world ap1))"
    using kept(2) inv(2,3) by (simp add: ap1 seed_snapshot_same)
  moreover have "chain_ok height_of (w_db (ap_world ap1))"
    using setup_blocks [of env raw_mempool ?ap1] cmp w1(2) chain_ok_blocks [of "w_db (ap_world ap2)" "w_db w1"]
    by (simp add: ap1 seed_snapshot_same)
  ultimately show ?thesis
    using out by (simp add: running_inv_def outside_ok_def level_ok_def tables_ok_def levelled_def)
qed

text \<open>The recorded residency can be rebuilt: every resident's last transition is in the replayed window.\<close>

definition replayable :: "instant \<Rightarrow> db \<Rightarrow> bool" where
  "replayable now d \<longleftrightarrow> sorted (map dl_created_at (db_deltas d)) \<and>
     (\<forall>t\<in>residency d. \<exists>r\<in>set (db_deltas d). dl_txid r = t \<and> dl_created_at r \<ge> now - SNAPSHOT_REPLAY_WINDOW)"

lemma replayable_reconstructs: "replayable now d \<Longrightarrow> reconstruct_snapshot None now d = Inr (residency d)"
  using reconstruct_snapshot_window [of d now] by (auto simp: replayable_def)

text \<open>A start whose block sync journalled nothing, whose replay gave all residents and whose node listed its mempool.\<close>

lemma bootstrap_in_step:
  assumes out: "outside_ok env nd height_of T" and inv: "running_inv env nd height_of T seeded old ap1"
    and tables: "cluster_inv (w_db w1)" "view_ok (view_of w1)"
    and sync: "sync_missing_blocks env nd 0 (ap_world ap) = Some (delays, m, w1)"
      "lg_journal (w_ledger w1) = []" "\<not> lg_degraded (w_ledger w1)" "ev_fault env (w_steps w1) = None"
      "replayable (ev_now env (w_steps w1)) (w_db w1)" "raw_mempool (Suc (w_steps w1)) = Inr summaries"
    and boot: "bootstrap_run env nd raw_mempool ap = Some (r, ap1)"
  shows "system_inv env nd height_of T ap1" "lg_live (w_ledger (ap_world ap1)) = es_txid ` set summaries"
proof -
  obtain ap2 where cmp: "setup_mempool_snapshot env raw_mempool (ap\<lparr>ap_world := w1\<rparr>) = (r, ap2)"
    and ap1: "ap1 = ap2\<lparr>ap_world := seed_snapshot env (ap_world ap2)\<rparr>"
    using boot sync(1) by (auto simp: bootstrap_run_def split: prod.splits)
  have it: "iterates (ev_it_txids env)"
    using out by (simp add: outside_ok_def)
  have ok: "world_ok (ap_world ap2)" "lg_live (w_ledger (ap_world ap2)) = es_txid ` set summaries"
    using setup_exact [OF it _ _ _ _ _ _ cmp] tables sync(2-4,6) replayable_reconstructs [OF sync(5)] by simp_all
  then have "world_ok (ap_world ap1)"
    by (simp add: ap1 world_ok_def seed_snapshot_same)
  then show "system_inv env nd height_of T ap1"
    using out inv by (simp add: system_inv_def sync_ok_def running_inv_def)
  show "lg_live (w_ledger (ap_world ap1)) = es_txid ` set summaries"
    using ok(2) by (simp add: ap1 seed_snapshot_same)
qed

text \<open>When the stored chain reaches the node's tip, the sync changes nothing, so the ledger it hands on is the one
  the process began with.\<close>

lemma sync_nothing_missed:
  assumes "nd_tip nd (w_steps w) = Inr tip" "latest_height None (w_db w) = Inr (Some height)" "tip \<le> height"
    "ev_fault env (Suc (w_steps w)) = None"
  shows "\<exists>m. sync_missing_blocks env nd 0 w = Some ([], m, step (step (step w)))"
proof -
  have "catch_up env nd w = Some (Inr (), step (step w))"
    using assms by (simp add: catch_up.simps [of env nd w] db_read_def) (simp add: step_def next_height_def)
  moreover have "snd (sample_missing_heights env (step (step w))) = step (step (step w))"
    by (simp add: sample_missing_heights_def db_read_def split: sum.split)
  ultimately show ?thesis
    by (cases "sample_missing_heights env (step (step w))") (simp add: sync_missing_blocks.simps [of env nd 0 w])
qed


section \<open>What a client of the stream holds\<close>

text \<open>What was published between two states of the service leads from the residency recorded before to the one recorded after. This
  holds from a state to a later one unless there is an overflow, whose mark stays.\<close>

definition follows :: "world \<Rightarrow> world \<Rightarrow> bool" where
  "follows w w' \<longleftrightarrow> (\<exists>new. w_bus w' = w_bus w @ new \<and> fold_events (get_delta_stream new) (residency (w_db w)) = residency (w_db w'))"

definition streams :: "world \<Rightarrow> world \<Rightarrow> bool" where
  "streams w w' \<longleftrightarrow> (lg_degraded (w_ledger w) \<longrightarrow> lg_degraded (w_ledger w')) \<and> (\<not> lg_degraded (w_ledger w') \<longrightarrow> follows w w')"

lemma fold_events_Nil [simp]: "fold_events (get_delta_stream []) S = S"
  by (simp add: fold_events_def get_delta_stream_def map_filter_def)

interpretation following: keeps follows
proof
  show "follows w w" for w
    by (simp add: follows_def)
  show "follows w w''" if "follows w w'" "follows w' w''" for w w' w''
    using that unfolding follows_def by (auto simp: get_delta_stream_append fold_events_append)
qed

interpretation streaming: keeps streams
  by unfold_locales (auto simp: streams_def following.keeps_refl intro: following.keeps_trans)

text \<open>Anything that records no deltas and publishes none.\<close>

lemma streams_silent:
  assumes "lg_degraded (w_ledger w) \<longrightarrow> lg_degraded (w_ledger w')" "w_bus w' = w_bus w @ new" "get_delta_stream new = []"
    "db_deltas (w_db w') = db_deltas (w_db w)"
  shows "streams w w'"
  using assms by (auto simp: streams_def follows_def residency_def fold_events_def)

lemma frame_silent:
  assumes "w_frame w w'"
  shows "streams w w'"
proof -
  obtain evs where "w_bus w' = w_bus w @ evs" "\<forall>e\<in>set evs. is_cluster_event e"
    using assms by (auto simp: w_frame_def)
  then show ?thesis
    using assms get_delta_stream_cluster streams_silent [of w w' evs] by (auto simp: w_frame_def db_frame_def extends_def)
qed

definition silent_since :: "env \<Rightarrow> world \<Rightarrow> world \<Rightarrow> bool" where
  "silent_since env w0 w \<longleftrightarrow> tables_ok env w \<and> finite (lg_live (w_ledger w)) \<and> db_deltas (w_db w) = db_deltas (w_db w0) \<and>
     (lg_degraded (w_ledger w0) \<longrightarrow> lg_degraded (w_ledger w)) \<and> (\<exists>new. w_bus w = w_bus w0 @ new \<and> get_delta_stream new = [])"

interpretation silent_blocks: block_inv env "silent_since env w0" for env w0
proof (unfold_locales, goal_cases)
  case (3 w e)
  then obtain new where new: "w_bus w = w_bus w0 @ new" "get_delta_stream new = []"
    by (auto simp: silent_since_def)
  have "get_delta_stream (new @ [BusNewBlock e]) = []"
    using new(2) by (simp add: get_delta_stream_append) (simp add: get_delta_stream_def map_filter_def)
  then show ?case
    using 3 new(1) table_blocks.inv_publish by (auto simp: silent_since_def)
next
  case (4 w d)
  then show ?case using table_blocks.inv_outside by (simp add: silent_since_def)
next
  case (5 w f)
  then show ?case
    using table_blocks.inv_produced by (auto simp: silent_since_def produces_def extends_def)
next
  case (6 w txids fees weights t w')
  have frame: "w_frame w w'"
    using confirm_frame [OF _ 6(2)] 6(1) by (simp add: silent_since_def)
  obtain new where new: "w_bus w = w_bus w0 @ new" "get_delta_stream new = []"
    using 6 by (auto simp: silent_since_def)
  obtain evs where evs: "w_bus w' = w_bus w @ evs" "\<forall>e\<in>set evs. is_cluster_event e"
    using frame by (auto simp: w_frame_def)
  have "get_delta_stream (new @ evs) = []"
    using new(2) get_delta_stream_cluster [OF evs(2)] by (simp add: get_delta_stream_append)
  then show ?case
    using 6(1) frame new(1) evs(1) table_blocks.inv_confirm [OF _ 6(2)] by (auto simp: silent_since_def w_frame_def db_frame_def extends_def)
qed (auto simp: silent_since_def tables_ok_def)

lemma tick_streams:
  assumes "tick env preempted meanwhile now ap = Some ap'" "iterates (ev_it_txids env)" "produces meanwhile" "world_ok (ap_world ap)"
  shows "streams (ap_world ap) (ap_world ap')"
proof -
  have w: "coherent (ap_world ap)" "distinct (map tx_txid (db_transactions (w_db (ap_world ap))))" "capped (w_ledger (ap_world ap))"
    using assms(4) by (simp_all add: world_ok_def in_step_def capped_def)
  show ?thesis
    using tick_stream [OF assms(1,2) w(1)] tick_ledger(2) [OF assms(1-3) w(2,3)] unfolding streams_def follows_def by blast
qed

lemma system_step_streams:
  assumes "system_step env nd ap ap'" "system_inv env nd height_of T ap"
  shows "streams (ap_world ap) (ap_world ap')"
proof -
  let ?w = "ap_world ap"
  have out: "node_ok env" "iterates (ev_it_txids env)" "honest_node nd height_of" "tips_below nd T"
    and w: "world_ok ?w" "chain_ok height_of (w_db ?w)"
    using assms(2) by (simp_all add: system_inv_def outside_ok_def sync_ok_def)
  have fin: "finite (lg_live (w_ledger ?w))"
    using w(1) by (simp add: world_ok_def in_step_def)
  show ?thesis
    using assms(1)
  proof cases
    case (sys_tick meanwhile preempted now)
    then show ?thesis using tick_streams [OF _ out(2) _ w(1)] by blast
  next
    case (sys_blocks r w')
    have "sync_inv (silent_since env ?w) height_of ?w"
      using out w fin by (simp add: sync_inv_def silent_since_def tables_ok_def world_ok_def get_delta_stream_def map_filter_def)
    from silent_blocks.caught_run [OF out(3) this out(4)] sys_blocks have "silent_since env ?w w'"
      by (auto simp: sync_inv_def)
    then show ?thesis
      using sys_blocks(1) streams_silent [of ?w w'] by (auto simp: silent_since_def)
  next
    case (sys_clusters cand evicted w')
    then show ?thesis
      using frame_silent [OF sync_clusters_frame] by (auto simp: sync_clusters_for_def)
  next
    case (sys_backfill a jittered req)
    have "fills (w_db ?w) (snd (process jittered a (w_ledger ?w) req (w_db ?w)))"
      by (rule process_fills) (rule sys_backfill(2))
    then show ?thesis
      using sys_backfill(1) streams_silent [of ?w "ap_world ap'" "[]"] by (simp add: fills_def get_delta_stream_def map_filter_def)
  next
    case (sys_observe f)
    have "extends (w_ledger ?w) (f (w_ledger ?w))"
      using sys_observe(2) fin by (simp add: produces_def)
    then show ?thesis
      using sys_observe(1) streams_silent [of ?w "ap_world ap'" "[]"] by (auto simp: extends_def get_delta_stream_def map_filter_def)
  qed
qed

lemma run_streams:
  assumes "(system_step env nd)\<^sup>*\<^sup>* ap ap'" "system_inv env nd height_of T ap"
  shows "streams (ap_world ap) (ap_world ap')"
  using assms(1)
proof (induction rule: rtranclp_induct)
  case (step ap1 ap2)
  have "system_inv env nd height_of T ap1"
    by (rule system.reached_inv [OF assms(2) step(1)])
  from streaming.keeps_trans [OF step(3) system_step_streams [OF step(2) this]] show ?case .
qed (rule streaming.keeps_refl)

text \<open>Events either settle whether a transaction is held or leave it as it was.\<close>

lemma fold_events_settle:
  "(\<forall>X. t \<in> fold_events evs X \<longleftrightarrow> b) \<or> (\<forall>X. t \<in> fold_events evs X \<longleftrightarrow> \<not> b) \<or> (\<forall>X. t \<in> fold_events evs X \<longleftrightarrow> t \<in> X)"
proof (induction evs rule: rev_induct)
  case (snoc e evs)
  have "t \<in> fold_events (evs @ [e]) X \<longleftrightarrow> (t \<in> fold_events evs X \<or> t \<in> set (md_added e)) \<and> t \<notin> set (md_removed e)" for X
    by (simp add: fold_events_def)
  with snoc show ?case by auto
qed (simp add: fold_events_def)

text \<open>A client that subscribes when the bus holds \<open>before\<close>, and whose first frame is the live set of \<open>w1\<close>, holds what is
  recorded in the end, except where \<open>w1\<close> was not level.\<close>

lemma client_holds:
  assumes "iterates it" "finite (lg_live (w_ledger w1))" "follows w0 w1" "follows w1 w"
    and pending: "t \<in> lg_live (w_ledger w1) \<longleftrightarrow> t \<in> residency (w_db w1)"
  shows "t \<in> fold_events (get_snapshot_then_delta_stream it (lg_live (w_ledger w1)) (drop (length (w_bus w0)) (w_bus w))) {} \<longleftrightarrow>
    t \<in> residency (w_db w)"
proof -
  obtain n1 n2 where n1: "w_bus w1 = w_bus w0 @ n1" "fold_events (get_delta_stream n1) (residency (w_db w0)) = residency (w_db w1)"
    and n2: "w_bus w = w_bus w1 @ n2" "fold_events (get_delta_stream n2) (residency (w_db w1)) = residency (w_db w)"
    using assms(3,4) unfolding follows_def by blast
  let ?first = "fold_events (get_delta_stream n1) (lg_live (w_ledger w1))"
  have "fold_events (get_snapshot_then_delta_stream it (lg_live (w_ledger w1)) (drop (length (w_bus w0)) (w_bus w))) {} =
      fold_events (get_delta_stream n2) ?first"
    using assms(1,2) by (simp add: get_snapshot_then_delta_stream_def snapshot_frame_def n1(1) n2(1) get_delta_stream_append
        fold_events_def iter_simps)
  moreover have "t \<in> ?first \<longleftrightarrow> t \<in> residency (w_db w1)"
    using fold_events_settle [of t "get_delta_stream n1" True] pending n1(2) by metis
  moreover have "t \<in> fold_events (get_delta_stream n2) ?first \<longleftrightarrow> t \<in> fold_events (get_delta_stream n2) (residency (w_db w1))"
    using fold_events_settle [of t "get_delta_stream n2" True] calculation(2) by blast
  ultimately show ?thesis
    using n2(2) by simp
qed

section \<open>From a poll to the tables and the clients\<close>

lemma poll_produces:
  assumes "iterates it"
  shows "produces (mempool_poll it clk answer)"
  using produces_submit [OF assms finite_set] produces_id unfolding mempool_poll_def id_def by (cases answer) simp_all

text \<open>C2: One poll and one tick bring database and clients up to the node. Take the running service, ledger and database
  in step, in which a client subscribes to the mempool deltas; some steps later its first frame, the live set, is taken; and any
  number of steps later the node is polled. When what the poll changes fits into the journal, the gate is free, and the tick's
  write is neither failed nor preempted, then after the tick the residency recorded in the tables is exactly the mempool the
  node listed. The client, having folded its first frame and everything published since its subscription, holds
  exactly that set too, except possibly on transactions that were pending when its first frame was taken: live but not
  recorded, or recorded but no longer live. (On those it may indeed differ: \<open>subscriber_keeps_removed\<close>.)\<close>

theorem poll_and_tick_reach_clients:
  fixes ap env clk txids defines "polled \<equiv> ap\<lparr>ap_world := (ap_world ap)\<lparr>w_ledger := mempool_poll (ev_it_txids env) clk (Inr txids) (w_ledger (ap_world ap))\<rparr>\<rparr>"
  assumes "system_inv env nd height_of T ap0" "(system_step env nd)\<^sup>*\<^sup>* ap0 ap1" "(system_step env nd)\<^sup>*\<^sup>* ap1 ap" "produces meanwhile"
    and "\<not> lg_degraded (w_ledger (ap_world polled))" "fst (try_begin_flush now (ap_gate ap))"
    and "ev_fault env (w_steps (ap_world ap)) = None" "\<forall>n. \<not> preempted n"
  shows "\<exists>ap'. tick env preempted meanwhile now polled = Some ap' \<and> residency (w_db (ap_world ap')) = set txids \<and>
    (let client = fold_events (get_snapshot_then_delta_stream (ev_it_txids env) (lg_live (w_ledger (ap_world ap1)))
           (drop (length (w_bus (ap_world ap0))) (w_bus (ap_world ap')))) {};
         pending = sym_diff (lg_live (w_ledger (ap_world ap1))) (residency (w_db (ap_world ap1)))
     in client - pending = set txids - pending)"
proof -
  have out: "node_ok env" "iterates (ev_it_txids env)"
    using assms(2) by (simp_all add: system_inv_def outside_ok_def)
  have inv1: "system_inv env nd height_of T ap1" and inv: "system_inv env nd height_of T ap"
    using system.reached_inv [OF assms(2,3)] system.run_inv [OF assms(4)] by blast+
  have observed: "system_step env nd ap polled"
    unfolding polled_def by (rule sys_observe [OF poll_produces [OF out(2)]])
  then have polled: "system_inv env nd height_of T polled"
    by (rule system_step_inv [OF _ inv])
  then have ok: "world_ok (ap_world polled)" and co: "coherent (ap_world polled)"
    and dist: "distinct (map tx_txid (db_transactions (w_db (ap_world polled))))"
    by (simp_all add: system_inv_def sync_ok_def world_ok_def in_step_def)
  obtain ap' where run: "tick env preempted meanwhile now polled = Some ap'"
    using tick_returns [OF out assms(5) ok] by blast
  have "residency (w_db (ap_world ap')) = replay (lg_journal (w_ledger (ap_world polled))) (residency (w_db (ap_world polled)))"
    by (rule tick_writes [OF run out(2) dist]) (use assms(7-9) in \<open>simp_all add: polled_def\<close>)
  also have "\<dots> = lg_live (w_ledger (ap_world polled))"
    using co assms(6) by (simp add: in_step_def)
  finally have recorded: "residency (w_db (ap_world ap')) = set txids"
    by (simp add: polled_def mempool_poll_def submit_authoritative_def Let_def)
  have late: "streams (ap_world ap1) (ap_world polled)"
    using run_streams [OF assms(4) inv1] system_step_streams [OF observed inv] by (rule streaming.keeps_trans)
  then have "follows (ap_world ap1) (ap_world polled)" "\<not> lg_degraded (w_ledger (ap_world ap1))"
    using assms(6) by (auto simp: streams_def)
  moreover have "follows (ap_world polled) (ap_world ap')"
    using tick_stream [OF run out(2) co assms(6)] by (simp add: follows_def)
  ultimately have from1: "follows (ap_world ap0) (ap_world ap1)" "follows (ap_world ap1) (ap_world ap')"
    using run_streams [OF assms(3,2)] following.keeps_trans by (auto simp: streams_def)
  have "finite (lg_live (w_ledger (ap_world ap1)))"
    using inv1 by (simp add: system_inv_def sync_ok_def world_ok_def in_step_def)
  from client_holds [OF out(2) this from1] show ?thesis
    using run recorded by (auto simp: Let_def)
qed

theorem poll_and_tick_reach_clients_witness:
  "\<exists>ap'. tick sample_env (\<lambda>_. False) id 9 (fresh_app\<lparr>ap_world := (ap_world fresh_app)\<lparr>w_ledger :=
      mempool_poll (ev_it_txids sample_env) (\<lambda>_. 5) (Inr [''b'', ''a'']) (w_ledger (ap_world fresh_app))\<rparr>\<rparr>) = Some ap' \<and>
    residency (w_db (ap_world ap')) = set [''b'', ''a''] \<and>
    fold_events (get_snapshot_then_delta_stream (ev_it_txids sample_env) {} (w_bus (ap_world ap'))) {} = set [''b'', ''a'']"
proof -
  let ?ap = "fresh_app\<lparr>ap_world := (ap_world fresh_app)\<lparr>w_ledger :=
      mempool_poll (ev_it_txids sample_env) (\<lambda>_. 5) (Inr [''b'', ''a'']) (w_ledger (ap_world fresh_app))\<rparr>\<rparr>"
  have "system_inv sample_env sample_chain (\<lambda>_. 7) 7 fresh_app"
    using sample_sync_ok(1,2) sample_chain_honest sample_chain_tips by (simp add: system_inv_def outside_ok_def sync_ok_def fresh_app_def)
  moreover have "\<not> lg_degraded (w_ledger (ap_world ?ap))"
    by (simp add: mempool_poll_def submit_authoritative_def sample_env_def fresh_app_def sample_world_def push_def JOURNAL_CAP_def Let_def)
  moreover have "fst (try_begin_flush 9 (ap_gate fresh_app))" "ev_fault sample_env (w_steps (ap_world fresh_app)) = None"
    by (simp_all add: fresh_app_def gate_default_def try_begin_flush_def is_held_def sample_env_def)
  moreover have start: "lg_live (w_ledger (ap_world fresh_app)) = {}" "residency (w_db (ap_world fresh_app)) = {}" "w_bus (ap_world fresh_app) = []"
    by (simp_all add: fresh_app_def sample_world_def sample_residency)
  ultimately show ?thesis
    using poll_and_tick_reach_clients [of sample_env sample_chain "\<lambda>_. 7" 7 fresh_app fresh_app fresh_app id "\<lambda>_. 5" "[''b'', ''a'']" 9 "\<lambda>_. False"] produces_id
    by (simp only: start Let_def) simp
qed

end
