(* ===== verification/Probe.thy ===== *)
theory Probe
  imports Config
begin

text \<open>
  The probe of the process's own CPU time and memory (\<open>api/src/infra/process.rs\<close>): what it reads out of three files of
  \<open>/proc\<close>, which gauges it sets, and what it remembers between samples. Floating-point numbers are an arbitrary type \<open>'f\<close>;
  reading one from text and the arithmetic on them are a record of functions.
\<close>

section \<open>Reading\<close>

record 'f floats =
  fl_parse :: "string \<Rightarrow> 'f option"
  fl_add :: "'f \<Rightarrow> 'f \<Rightarrow> 'f"
  fl_mul :: "'f \<Rightarrow> 'f \<Rightarrow> 'f"
  fl_div :: "'f \<Rightarrow> 'f \<Rightarrow> 'f"
  fl_of :: "nat \<Rightarrow> 'f"

fun ascii_whitespace :: "char \<Rightarrow> bool" where
  "ascii_whitespace c \<longleftrightarrow> c \<in> {CHR '' '', CHR 0x09, CHR 0x0A, CHR 0x0C, CHR 0x0D}"

text \<open>\<open>str::split_ascii_whitespace\<close>, with the field read so far.\<close>

fun split_fields :: "string \<Rightarrow> string \<Rightarrow> string list" where
  "split_fields cur [] = (if cur = [] then [] else [cur])"
| "split_fields cur (c # cs) =
    (if ascii_whitespace c then (if cur = [] then [] else [cur]) @ split_fields [] cs else split_fields (cur @ [c]) cs)"

definition split_ascii_whitespace :: "string \<Rightarrow> string list" where
  "split_ascii_whitespace s = split_fields [] s"

text \<open>\<open>slice::get\<close>, also \<open>Iterator::nth\<close>.\<close>

definition get_field :: "nat \<Rightarrow> 'a list \<Rightarrow> 'a option" where
  "get_field i xs = (if i < length xs then Some (xs ! i) else None)"

text \<open>What follows the last closing parenthesis, if there is one (\<open>str::rfind\<close>).\<close>

definition after_last_paren :: "string \<Rightarrow> string option" where
  "after_last_paren raw =
    (if CHR '')'' \<in> set raw then Some (rev (takeWhile (\<lambda>c. c \<noteq> CHR '')'') (rev raw))) else None)"

definition USER_HZ :: nat where
  "USER_HZ = 100"

definition ticks_to_seconds :: "'f floats \<Rightarrow> string \<Rightarrow> 'f option" where
  "ticks_to_seconds fl field = map_option (\<lambda>x. fl_div fl x (fl_of fl USER_HZ)) (fl_parse fl field)"

record 'f Stat =
  st_cpu_user_seconds :: 'f
  st_cpu_system_seconds :: 'f
  st_threads :: 'f
  st_start_time_ticks :: 'f

record 'f Status =
  su_resident_bytes :: 'f
  su_resident_peak_bytes :: 'f
  su_virtual_bytes :: 'f

definition parse_stat :: "'f floats \<Rightarrow> string \<Rightarrow> 'f Stat option" where
  "parse_stat fl raw =
    Option.bind (after_last_paren raw) (\<lambda>rest.
      let cols = split_ascii_whitespace rest in
      Option.bind (get_field 11 cols) (\<lambda>f11. Option.bind (ticks_to_seconds fl f11) (\<lambda>user.
      Option.bind (get_field 12 cols) (\<lambda>f12. Option.bind (ticks_to_seconds fl f12) (\<lambda>system.
      Option.bind (get_field 17 cols) (\<lambda>f17. Option.bind (fl_parse fl f17) (\<lambda>threads.
      Option.bind (get_field 19 cols) (\<lambda>f19. Option.bind (fl_parse fl f19) (\<lambda>start_time.
        Some \<lparr>st_cpu_user_seconds = user, st_cpu_system_seconds = system, st_threads = threads, st_start_time_ticks = start_time\<rparr>)))))))))"

definition starts_with :: "string \<Rightarrow> string \<Rightarrow> bool" where
  "starts_with line key \<longleftrightarrow> take (length key) line = key"

definition kilobytes_field :: "'f floats \<Rightarrow> string \<Rightarrow> string \<Rightarrow> 'f option" where
  "kilobytes_field fl raw key =
    Option.bind (find (\<lambda>line. starts_with line key) (str_lines [] raw)) (\<lambda>line.
      Option.bind (get_field 1 (split_ascii_whitespace line)) (\<lambda>f.
        map_option (\<lambda>kilobytes. fl_mul fl kilobytes (fl_of fl 1024)) (fl_parse fl f)))"

definition parse_status :: "'f floats \<Rightarrow> string \<Rightarrow> 'f Status option" where
  "parse_status fl raw =
    Option.bind (kilobytes_field fl raw ''VmRSS:'') (\<lambda>rss.
    Option.bind (kilobytes_field fl raw ''VmHWM:'') (\<lambda>hwm.
    Option.bind (kilobytes_field fl raw ''VmSize:'') (\<lambda>size.
      Some \<lparr>su_resident_bytes = rss, su_resident_peak_bytes = hwm, su_virtual_bytes = size\<rparr>)))"

definition parse_boot_time :: "'f floats \<Rightarrow> string \<Rightarrow> 'f option" where
  "parse_boot_time fl raw =
    Option.bind (find (\<lambda>line. starts_with line ''btime '') (str_lines [] raw)) (\<lambda>line.
      Option.bind (get_field 1 (split_ascii_whitespace line)) (fl_parse fl))"

section \<open>Sampling\<close>

text \<open>The three files at one sample, \<open>None\<close> where a file cannot be read; and what the process remembers: the start time
  once it was worked out (or found not to be), whether it has warned, and the gauges set so far, in order.\<close>

record proc_files =
  pf_stat :: "string option"
  pf_status :: "string option"
  pf_boot_time :: "string option"

record 'f probe =
  pr_start_time :: "'f option option"
  pr_warnings :: nat
  pr_gauges :: "(string \<times> 'f) list"

definition read_proc :: "'f floats \<Rightarrow> proc_files \<Rightarrow> ('f Stat \<times> 'f Status) option" where
  "read_proc fl files =
    Option.bind (pf_stat files) (\<lambda>raw. Option.bind (parse_stat fl raw) (\<lambda>stat.
    Option.bind (pf_status files) (\<lambda>raw'. Option.bind (parse_status fl raw') (\<lambda>status. Some (stat, status)))))"

definition start_time_seconds :: "'f floats \<Rightarrow> proc_files \<Rightarrow> 'f \<Rightarrow> 'f option option \<Rightarrow> 'f option \<times> 'f option option" where
  "start_time_seconds fl files start_time_ticks cached =
    (case cached of
       Some start_time \<Rightarrow> (start_time, cached)
     | None \<Rightarrow>
         (let start_time = Option.bind (pf_boot_time files) (\<lambda>raw.
                map_option (\<lambda>boot_time. fl_add fl boot_time (fl_div fl start_time_ticks (fl_of fl USER_HZ))) (parse_boot_time fl raw))
          in (start_time, Some start_time)))"

definition warn_once :: "'f probe \<Rightarrow> 'f probe" where
  "warn_once p = (if pr_warnings p = 0 then p\<lparr>pr_warnings := 1\<rparr> else p)"

definition process_sample :: "'f floats \<Rightarrow> proc_files \<Rightarrow> 'f probe \<Rightarrow> 'f probe" where
  "process_sample fl files p =
    (case read_proc fl files of
       None \<Rightarrow> warn_once p
     | Some (stat, status) \<Rightarrow>
         (case start_time_seconds fl files (st_start_time_ticks stat) (pr_start_time p) of
            (start_time, cached) \<Rightarrow>
              p\<lparr>pr_start_time := cached, pr_gauges := pr_gauges p @
                [(''process_cpu_user_seconds_total'', st_cpu_user_seconds stat),
                 (''process_cpu_system_seconds_total'', st_cpu_system_seconds stat),
                 (''process_cpu_seconds_total'', fl_add fl (st_cpu_user_seconds stat) (st_cpu_system_seconds stat)),
                 (''process_threads'', st_threads stat),
                 (''process_resident_memory_bytes'', su_resident_bytes status),
                 (''process_resident_memory_peak_bytes'', su_resident_peak_bytes status),
                 (''process_virtual_memory_bytes'', su_virtual_bytes status)] @
                (case start_time of Some t \<Rightarrow> [(''process_start_time_seconds'', t)] | None \<Rightarrow> [])\<rparr>))"

section \<open>Properties\<close>

text \<open>The kernel's line: the name in parentheses, then fields with a space before each.\<close>

definition stat_line :: "string \<Rightarrow> string \<Rightarrow> string list \<Rightarrow> string" where
  "stat_line pid name cols = pid @ '' ('' @ name @ '')'' @ concat (map ((#) (CHR '' '')) cols)"

definition plain_field :: "string \<Rightarrow> bool" where
  "plain_field f \<longleftrightarrow> f \<noteq> [] \<and> list_all (\<lambda>c. \<not> ascii_whitespace c \<and> c \<noteq> CHR '')'') f"

lemma split_fields_word: "list_all (\<lambda>c. \<not> ascii_whitespace c) f \<Longrightarrow> split_fields cur (f @ rest) = split_fields (cur @ f) rest"
  by (induction f arbitrary: cur) (auto simp del: ascii_whitespace.simps)

lemma split_fields_join:
  assumes "list_all plain_field cols"
  shows "split_fields cur (concat (map ((#) (CHR '' '')) cols)) = (if cur = [] then [] else [cur]) @ cols"
  using assms
proof (induction cols arbitrary: cur)
  case (Cons f cols)
  then have "list_all (\<lambda>c. \<not> ascii_whitespace c) f" "f \<noteq> []"
    by (auto simp: plain_field_def list_all_iff)
  with Cons show ?case by (simp add: split_fields_word)
qed simp

lemma after_last_paren_line:
  assumes "CHR '')'' \<notin> set rest"
  shows "after_last_paren (before @ '')'' @ rest) = Some rest"
proof -
  have "takeWhile (\<lambda>c. c \<noteq> CHR '')'') (rev rest @ '')'' @ rev before) = rev rest"
    using assms by (subst takeWhile_append2) auto
  then show ?thesis by (simp add: after_last_paren_def)
qed

text \<open>C40: The probe reads the right fields whatever the process is called: for any name, spaces and closing parentheses included,
  the CPU times, the threads and the start time are fields 12, 13, 18 and 20 after the name, and the line is
  refused exactly when one of them is missing or is no number.\<close>

theorem stat_fields_read:
  assumes "list_all plain_field cols"
  shows "parse_stat fl (stat_line pid name cols) =
    (if length cols \<le> 19 then None
     else case (fl_parse fl (cols ! 11), fl_parse fl (cols ! 12), fl_parse fl (cols ! 17), fl_parse fl (cols ! 19)) of
            (Some user, Some system, Some threads, Some start_time) \<Rightarrow>
              Some \<lparr>st_cpu_user_seconds = fl_div fl user (fl_of fl 100), st_cpu_system_seconds = fl_div fl system (fl_of fl 100),
                    st_threads = threads, st_start_time_ticks = start_time\<rparr>
          | _ \<Rightarrow> None)"
proof -
  let ?rest = "concat (map ((#) (CHR '' '')) cols)"
  have "CHR '')'' \<notin> set ?rest"
    using assms by (auto simp: list_all_iff plain_field_def)
  then have rest: "after_last_paren (stat_line pid name cols) = Some ?rest"
    using after_last_paren_line [of ?rest "pid @ '' ('' @ name"] by (simp add: stat_line_def)
  have split: "split_ascii_whitespace ?rest = cols"
    using split_fields_join [OF assms, of "[]"] by (simp add: split_ascii_whitespace_def)
  show ?thesis
    unfolding parse_stat_def rest Let_def Option.bind.simps split
    by (auto simp: get_field_def ticks_to_seconds_def USER_HZ_def split: option.splits)
qed

definition sample_floats :: "nat floats" where
  "sample_floats = \<lparr>fl_parse = (\<lambda>s. if s = [] then None else Some (length s)), fl_add = (+), fl_mul = (*), fl_div = (div), fl_of = id\<rparr>"

definition sample_fields :: "string list" where
  "sample_fields = map (\<lambda>n. replicate (100 * Suc n) (CHR ''7'')) [0..<20]"

theorem stat_fields_read_witness:
  "parse_stat sample_floats (stat_line ''4242'' ''we ird (name))'' sample_fields) =
     Some \<lparr>st_cpu_user_seconds = 12, st_cpu_system_seconds = 13, st_threads = 1800, st_start_time_ticks = 2000\<rparr>"
proof -
  have "list_all plain_field sample_fields"
    by (simp add: sample_fields_def list_all_iff plain_field_def)
  from stat_fields_read [OF this, of sample_floats "''4242''" "''we ird (name))''"] show ?thesis
    by (simp add: sample_fields_def sample_floats_def)
qed

text \<open>Over all samples of a process the start time is one value, once it is set at all, and a \<open>/proc\<close> that
  cannot be read is reported once.\<close>

definition samples :: "'f floats \<Rightarrow> proc_files list \<Rightarrow> 'f probe \<Rightarrow> 'f probe" where
  "samples fl readings p = fold (process_sample fl) readings p"

definition start_times :: "'f probe \<Rightarrow> 'f set" where
  "start_times p = {t. (''process_start_time_seconds'', t) \<in> set (pr_gauges p)}"

definition probe_inv :: "'f probe \<Rightarrow> bool" where
  "probe_inv p \<longleftrightarrow> pr_warnings p \<le> 1 \<and> start_times p \<subseteq> (case pr_start_time p of Some (Some t) \<Rightarrow> {t} | _ \<Rightarrow> {})"

lemma process_sample_inv: "probe_inv p \<Longrightarrow> probe_inv (process_sample fl files p)"
  by (auto simp: probe_inv_def process_sample_def warn_once_def start_time_seconds_def start_times_def Let_def
      split: option.splits prod.splits)

theorem start_time_constant:
  "let p = samples fl readings \<lparr>pr_start_time = None, pr_warnings = 0, pr_gauges = []\<rparr> in
     card (start_times p) \<le> 1 \<and> pr_warnings p \<le> 1"
proof -
  have "probe_inv (samples fl readings p)" if "probe_inv p" for p
    using that unfolding samples_def by (induction readings arbitrary: p) (simp_all add: process_sample_inv)
  moreover have "probe_inv \<lparr>pr_start_time = None, pr_warnings = 0, pr_gauges = []\<rparr>"
    by (simp add: probe_inv_def start_times_def)
  ultimately have inv: "probe_inv (samples fl readings \<lparr>pr_start_time = None, pr_warnings = 0, pr_gauges = []\<rparr>)"
    (is "probe_inv ?p") by blast
  have "\<exists>t. start_times ?p \<subseteq> {t}"
    using inv unfolding probe_inv_def by (cases "pr_start_time ?p" rule: option.exhaust) (auto split: option.splits)
  then have "card (start_times ?p) \<le> 1"
    using card_mono [of "{_}" "start_times ?p"] by fastforce
  then show ?thesis using inv by (simp add: probe_inv_def)
qed

end
