(* ===== verification/Metrics.thy ===== *)
theory Metrics
  imports Shutdown Blocks Bus Watchers "HOL-Library.Word"
begin

text \<open>
  What the process counts and times (\<open>shared/src/metrics.rs\<close>, \<open>api/src/infra/metrics.rs\<close>, \<open>api/src/db/instrument.rs\<close>,
  \<open>observer/src/publisher.rs\<close>): the helpers around timed work, the metered database call, the sampled gauges and the counters that
  alerts watch. The recorder is the metrics library's; here it is the series it holds: counters of 64 bits, gauges
  and the recorded durations, each under a name and labels.
\<close>

section \<open>The recorder\<close>

type_synonym series = "string \<times> (string \<times> string) list"

record recorder =
  rc_counters :: "series \<rightharpoonup> 64 word"
  rc_gauges :: "series \<rightharpoonup> int"
  rc_histograms :: "series \<Rightarrow> int list"

definition increment :: "series \<Rightarrow> 64 word \<Rightarrow> recorder \<Rightarrow> recorder" where
  "increment s n r = r\<lparr>rc_counters := (rc_counters r)(s \<mapsto> (case rc_counters r s of Some v \<Rightarrow> v + n | None \<Rightarrow> n))\<rparr>"

definition set_gauge :: "series \<Rightarrow> int \<Rightarrow> recorder \<Rightarrow> recorder" where
  "set_gauge s v r = r\<lparr>rc_gauges := (rc_gauges r)(s \<mapsto> v)\<rparr>"

definition record_duration :: "string \<Rightarrow> (string \<times> string) list \<Rightarrow> int \<Rightarrow> recorder \<Rightarrow> recorder" where
  "record_duration name labels duration r =
    r\<lparr>rc_histograms := (rc_histograms r)((name, labels) := rc_histograms r (name, labels) @ [duration])\<rparr>"

definition record_elapsed :: "string \<Rightarrow> (string \<times> string) list \<Rightarrow> instant \<Rightarrow> instant \<Rightarrow> recorder \<Rightarrow> recorder" where
  "record_elapsed name labels start now r = record_duration name labels (now - start) r"

text \<open>Timed work, a function of a state \<open>'s\<close> and the clock; it may record on its own.\<close>

type_synonym ('a, 's) work = "'s \<times> instant \<times> recorder \<Rightarrow> 'a \<times> 's \<times> instant \<times> recorder"

definition timed_with :: "string \<Rightarrow> (string \<times> string) list \<Rightarrow> ('a, 's) work \<Rightarrow> ('a, 's) work" where
  "timed_with name labels f = (\<lambda>(s, start, r).
    case f (s, start, r) of (out, s', now, r') \<Rightarrow> (out, s', now, record_elapsed name labels start now r'))"

definition timed :: "string \<Rightarrow> ('a, 's) work \<Rightarrow> ('a, 's) work" where
  "timed name f = (\<lambda>(s, start, r).
    case f (s, start, r) of (out, s', now, r') \<Rightarrow> (out, s', now, record_duration name [] (now - start) r'))"

section \<open>The metered database call\<close>

text \<open>What the pool gives a call: an error, or a connection on which the statements may break.\<close>

datatype pool_answer = No_connection RepoError | Connected fault

definition call_labels :: "string \<Rightarrow> string \<Rightarrow> (string \<times> string) list" where
  "call_labels repo op = [(''repo'', repo), (''op'', op)]"

definition metered_query ::
    "string \<Rightarrow> string \<Rightarrow> pool_answer \<Rightarrow> instant \<times> instant \<times> instant \<Rightarrow> 'a statement \<Rightarrow> db \<times> recorder \<Rightarrow> (RepoError + 'a) \<times> db \<times> recorder" where
  "metered_query repo op conn clock f = (\<lambda>(d, r).
    case clock of (waiting_since, running_since, now) \<Rightarrow>
      let r1 = record_elapsed ''db_pool_acquire_seconds'' [] waiting_since running_since r in
      case conn of
        No_connection e \<Rightarrow> (Inl e, d, increment (''db_pool_acquire_errors_total'', call_labels repo op) 1 r1)
      | Connected fault \<Rightarrow>
          (case query fault f d of
             (result, d') \<Rightarrow>
               let r2 = record_elapsed ''db_query_seconds'' (call_labels repo op) running_since now r1 in
               (result, d', if isl result then increment (''db_query_errors_total'', call_labels repo op) 1 r2 else r2)))"

section \<open>Sampled gauges\<close>

definition sample_pool :: "int \<Rightarrow> int \<Rightarrow> int \<Rightarrow> recorder \<Rightarrow> recorder" where
  "sample_pool connections available waiting r =
    set_gauge (''db_pool_connections'', [(''state'', ''waiting'')]) waiting
      (set_gauge (''db_pool_connections'', [(''state'', ''available'')]) available
        (set_gauge (''db_pool_connections'', [(''state'', ''size'')]) connections r))"

definition sample_database_size :: "RepoError + int \<Rightarrow> recorder \<Rightarrow> recorder" where
  "sample_database_size answer r = (case answer of Inr bytes \<Rightarrow> set_gauge (''database_size_bytes'', []) bytes r | Inl e \<Rightarrow> r)"

text \<open>One reading per subject, in some order; a channel's receivers and length are the runtime's.\<close>

definition bus_sample :: "Subject list \<Rightarrow> (Subject \<Rightarrow> int) \<Rightarrow> (Subject \<Rightarrow> int) \<Rightarrow> recorder \<Rightarrow> recorder" where
  "bus_sample subjects receivers depth r =
    foldl (\<lambda>r subject.
       set_gauge (''pubsub_queue_depth'', [(''subject'', subject_str subject)]) (depth subject)
         (set_gauge (''pubsub_subscribers'', [(''subject'', subject_str subject)]) (receivers subject) r)) r subjects"

text \<open>The label of a request that matched no route.\<close>

definition collapse_unmatched :: "string \<Rightarrow> string" where
  "collapse_unmatched uri = ''unmatched''"

text \<open>The observer's publisher: an event that cannot be encoded is counted and dropped.\<close>

definition observer_publish_event :: "('e \<Rightarrow> string option) \<Rightarrow> Subject \<Rightarrow> 'e \<Rightarrow> bus \<times> recorder \<Rightarrow> bus \<times> recorder" where
  "observer_publish_event to_vec subject event = (\<lambda>(b, r).
    case to_vec event of
      None \<Rightarrow> (b, increment (''event_serialize_errors_total'', [(''subject'', subject_str subject)]) 1 r)
    | Some payload \<Rightarrow> (bus_publish subject payload b, increment (''pubsub_published_total'', [(''subject'', subject_str subject)]) 1 r))"

section \<open>Counters with an alert\<close>

definition BLOCK_SYNC_FAILURES_TOTAL :: string where
  "BLOCK_SYNC_FAILURES_TOTAL = ''block_sync_failures_total''"

definition BLOCK_APPLY_DRAIN_TOTAL :: string where
  "BLOCK_APPLY_DRAIN_TOTAL = ''block_apply_drain_total''"

definition CLUSTER_CONFIRM_MINED_ERRORS_TOTAL :: string where
  "CLUSTER_CONFIRM_MINED_ERRORS_TOTAL = ''cluster_confirm_mined_errors_total''"

definition BLOCK_GATE_EXPIRED_TOTAL :: string where
  "BLOCK_GATE_EXPIRED_TOTAL = ''block_gate_expired_total''"

definition CONFIRM_MINED_ERROR_STAGES :: "string list" where
  "CONFIRM_MINED_ERROR_STAGES = [''lookup'', ''load'', ''trim'', ''confirm'']"

definition all_drains :: "BlockDrain list" where
  "all_drains = [Idle, Waited, TimedOut]"

definition publish_alerted_counters :: "recorder \<Rightarrow> recorder" where
  "publish_alerted_counters r =
    (let r1 = foldl (\<lambda>r source. increment (BLOCK_SYNC_FAILURES_TOTAL, [(''source'', source)]) 0 r) r SOURCE_LABELS;
         r2 = foldl (\<lambda>r drain. increment (BLOCK_APPLY_DRAIN_TOTAL, [(''outcome'', drain_label drain)]) 0 r) r1 all_drains;
         r3 = foldl (\<lambda>r stage. increment (CLUSTER_CONFIRM_MINED_ERRORS_TOTAL, [(''stage'', stage)]) 0 r) r2 CONFIRM_MINED_ERROR_STAGES
     in increment (BLOCK_GATE_EXPIRED_TOTAL, []) 0 r3)"

text \<open>Where the code counts them: a failed catch-up, the drain of a shutdown, a step of closing mined clusters that failed, and
  the gate reopening on its holder.\<close>

datatype confirm_stage = Lookup_failed | Load_failed | Trim_failed | Confirm_failed

fun stage_label :: "confirm_stage \<Rightarrow> string" where
  "stage_label Lookup_failed = ''lookup''"
| "stage_label Load_failed = ''load''"
| "stage_label Trim_failed = ''trim''"
| "stage_label Confirm_failed = ''confirm''"

datatype alerted = Sync_failed BlockSyncError | Blocks_drained BlockDrain | Confirm_error confirm_stage | Gate_expired

fun alerted_series :: "alerted \<Rightarrow> series" where
  "alerted_series (Sync_failed e) = (BLOCK_SYNC_FAILURES_TOTAL, [(''source'', source_label e)])"
| "alerted_series (Blocks_drained drain) = (BLOCK_APPLY_DRAIN_TOTAL, [(''outcome'', drain_label drain)])"
| "alerted_series (Confirm_error stage) = (CLUSTER_CONFIRM_MINED_ERRORS_TOTAL, [(''stage'', stage_label stage)])"
| "alerted_series Gate_expired = (BLOCK_GATE_EXPIRED_TOTAL, [])"

definition count_alerted :: "alerted \<Rightarrow> recorder \<Rightarrow> recorder" where
  "count_alerted a r = increment (alerted_series a) 1 r"

section \<open>Properties\<close>

lemma increment_counters:
  "rc_counters (increment s n r) t = (if t = s then Some (case rc_counters r s of Some v \<Rightarrow> v + n | None \<Rightarrow> n) else rc_counters r t)"
  by (simp add: increment_def)

text \<open>Publishing at zero makes a series exist and changes no value.\<close>

lemma publish_zero:
  "rc_counters (foldl (\<lambda>r x. increment (f x) 0 r) r xs) s = (if s \<in> f ` set xs \<and> rc_counters r s = None then Some 0 else rc_counters r s)"
  by (induction xs arbitrary: r) (auto simp: increment_counters split: option.splits)

lemma alerted_series_all:
  "range alerted_series =
    (\<lambda>source. (BLOCK_SYNC_FAILURES_TOTAL, [(''source'', source)])) ` set SOURCE_LABELS \<union>
    (\<lambda>drain. (BLOCK_APPLY_DRAIN_TOTAL, [(''outcome'', drain_label drain)])) ` set all_drains \<union>
    (\<lambda>stage. (CLUSTER_CONFIRM_MINED_ERRORS_TOTAL, [(''stage'', stage)])) ` set CONFIRM_MINED_ERROR_STAGES \<union>
    {(BLOCK_GATE_EXPIRED_TOTAL, [])}" (is "_ = ?all")
proof
  have sources: "source_label e \<in> set SOURCE_LABELS" for e
    by (cases e) (simp_all add: source_label_def SOURCE_LABELS_def)
  have stages: "stage_label stage \<in> set CONFIRM_MINED_ERROR_STAGES" for stage
    by (cases stage) (simp_all add: CONFIRM_MINED_ERROR_STAGES_def)
  have drains: "drain \<in> set all_drains" for drain
    by (cases drain) (simp_all add: all_drains_def)
  have "alerted_series a \<in> ?all" for a
  proof (cases a)
    case (Sync_failed e)
    show ?thesis unfolding Sync_failed alerted_series.simps using sources [of e] by blast
  next
    case (Blocks_drained drain)
    show ?thesis unfolding Blocks_drained alerted_series.simps using drains [of drain] by blast
  next
    case (Confirm_error stage)
    show ?thesis unfolding Confirm_error alerted_series.simps using stages [of stage] by blast
  qed simp
  then show "range alerted_series \<subseteq> ?all" by blast
  have sources': "\<exists>e. source = source_label e" if "source \<in> set SOURCE_LABELS" for source
    using that by (auto simp: SOURCE_LABELS_def source_label_def intro: exI [of _ "Node _"] exI [of _ "Db _"])
  have stages': "\<exists>s. stage = stage_label s" if "stage \<in> set CONFIRM_MINED_ERROR_STAGES" for stage
    using that unfolding CONFIRM_MINED_ERROR_STAGES_def by simp (metis stage_label.simps)
  have "x \<in> range alerted_series" if "x \<in> ?all" for x
    using that sources' stages' by (elim UnE imageE singletonE) (metis rangeI alerted_series.simps)+
  then show "?all \<subseteq> range alerted_series" by blast
qed

lemma publish_alerted_counters_effect:
  "rc_counters (publish_alerted_counters r) s =
    (if s \<in> range alerted_series \<and> rc_counters r s = None then Some 0 else rc_counters r s)"
proof -
  define A B C G where "A = (\<lambda>source. (BLOCK_SYNC_FAILURES_TOTAL, [(''source'', source)])) ` set SOURCE_LABELS"
    and "B = (\<lambda>drain. (BLOCK_APPLY_DRAIN_TOTAL, [(''outcome'', drain_label drain)])) ` set all_drains"
    and "C = (\<lambda>stage. (CLUSTER_CONFIRM_MINED_ERRORS_TOTAL, [(''stage'', stage)])) ` set CONFIRM_MINED_ERROR_STAGES"
    and "G = (BLOCK_GATE_EXPIRED_TOTAL, [] :: (string \<times> string) list)"
  show ?thesis
    unfolding alerted_series_all publish_alerted_counters_def Let_def increment_counters publish_zero
      A_def [symmetric] B_def [symmetric] C_def [symmetric] G_def [symmetric]
    by (cases "rc_counters r s"; cases "s = G") simp_all
qed

lemma count_alerted_run:
  "rc_counters (fold count_alerted as r) s =
    (case rc_counters r s of
       Some v \<Rightarrow> Some (v + of_nat (length (filter (\<lambda>a. alerted_series a = s) as)))
     | None \<Rightarrow> if s \<in> alerted_series ` set as then Some (of_nat (length (filter (\<lambda>a. alerted_series a = s) as))) else None)"
  by (induction as arbitrary: r) (auto simp: count_alerted_def increment_counters split: option.splits)

text \<open>No alert misses its first event. Publishing the alerted counters makes every series the code can count there exist, for
  every error, outcome and stage, and changes no value; so over whatever is counted afterwards each of them
  grows by the number of its events, up to the 64 bits, from a value that was there before.\<close>

theorem alerts_see_first_event:
  "\<exists>v. rc_counters (publish_alerted_counters r) (alerted_series a) = Some v \<and>
     v = (case rc_counters r (alerted_series a) of Some old \<Rightarrow> old | None \<Rightarrow> 0) \<and>
     rc_counters (fold count_alerted as (publish_alerted_counters r)) (alerted_series a) =
       Some (v + of_nat (length (filter (\<lambda>b. alerted_series b = alerted_series a) as)))"
  by (auto simp: publish_alerted_counters_effect count_alerted_run split: option.splits)

text \<open>Timing is transparent: the work runs once, on the state and clock it would have had, its result is returned as it is, and
  the elapsed time is recorded once.\<close>

lemma timed_transparent:
  assumes "f (s, start, r) = (out, s', now, r')"
  shows "timed_with name labels f (s, start, r) = (out, s', now,
      r'\<lparr>rc_histograms := (rc_histograms r')((name, labels) := rc_histograms r' (name, labels) @ [now - start])\<rparr>)"
    and "timed name f (s, start, r) = timed_with name [] f (s, start, r)"
  using assms by (simp_all add: timed_with_def timed_def record_elapsed_def record_duration_def)

text \<open>So is metering a database call; a call that got no connection is counted as such and not as a failed query, and runs nothing.\<close>

lemma metered_query_transparent:
  "case metered_query repo op conn clock f (d, r) of (result, d', r') \<Rightarrow>
     (case conn of Connected fault \<Rightarrow> (result, d') = query fault f d | No_connection e \<Rightarrow> result = Inl e \<and> d' = d) \<and>
     rc_counters r' = rc_counters ((if isl result then increment ((case conn of No_connection _ \<Rightarrow> ''db_pool_acquire_errors_total''
        | Connected _ \<Rightarrow> ''db_query_errors_total''), call_labels repo op) 1 else id) r)"
  by (cases clock)
    (auto simp: metered_query_def Let_def record_elapsed_def record_duration_def increment_def split: pool_answer.splits prod.splits)

end
