(* ===== verification/Jitter.thy ===== *)
theory Jitter
  imports Complex_Main "HOL-Library.Word"
begin

text \<open>
  The jitter of retry delays (\<open>shared/src/backoff.rs\<close>). A float is the real number it stands for and each operation is the
  exact one followed by \<open>rnd\<close>, the rounding to a representable number; what is relied on of rounding to nearest is
  \<open>rounds\<close>. The hash of a key and the scaling of a duration by a float are arguments.
\<close>

section \<open>Operations\<close>

definition unit_from :: "(real \<Rightarrow> real) \<Rightarrow> ('k \<Rightarrow> 64 word) \<Rightarrow> 'k \<Rightarrow> real" where
  "unit_from rnd hash key = rnd (rnd (real (unat (drop_bit 11 (hash key)))) / rnd (2 ^ 53))"

definition jitter_factor :: "(real \<Rightarrow> real) \<Rightarrow> real \<Rightarrow> real \<Rightarrow> real" where
  "jitter_factor rnd spread u = rnd (rnd (1 - spread) + rnd (rnd (2 * spread) * u))"

definition jittered :: "(real \<Rightarrow> real) \<Rightarrow> (int \<Rightarrow> real \<Rightarrow> int) \<Rightarrow> ('k \<Rightarrow> 64 word) \<Rightarrow> int \<Rightarrow> real \<Rightarrow> 'k \<Rightarrow> int" where
  "jittered rnd mul_f64 hash delay spread key = mul_f64 delay (jitter_factor rnd spread (unit_from rnd hash key))"

section \<open>Bounds\<close>

text \<open>Rounding keeps order, leaves integers of up to 53 bits and their quotients by the power alone, and doubling rounds nothing.\<close>

definition rounds :: "(real \<Rightarrow> real) \<Rightarrow> bool" where
  "rounds rnd \<longleftrightarrow> mono rnd \<and> (\<forall>n::nat. n \<le> 2 ^ 53 \<longrightarrow> rnd (real n) = real n \<and> rnd (real n / 2 ^ 53) = real n / 2 ^ 53) \<and>
     (\<forall>x. rnd (2 * rnd x) = 2 * rnd x)"

lemma top_bits: "unat (drop_bit 11 (h :: 64 word)) < 2 ^ 53"
proof -
  have "unat (drop_bit 11 h) = unat h div 2 ^ 11"
    unfolding unat_drop_bit_eq by (rule drop_bit_eq_div)
  moreover have "unat h < 2 ^ 64" using unsigned_less [of h] by simp
  ultimately show ?thesis by (simp add: less_mult_imp_div_less)
qed

text \<open>The unit is exact and in the half-open unit interval, and tells keys apart whose hashes differ in the top 53 bits.\<close>

lemma unit_from_exact:
  assumes "rounds rnd"
  shows "unit_from rnd hash key = real (unat (drop_bit 11 (hash key))) / 2 ^ 53"
    and "0 \<le> unit_from rnd hash key" "unit_from rnd hash key < 1"
    and "unit_from rnd hash key = unit_from rnd hash key' \<longleftrightarrow> drop_bit 11 (hash key) = drop_bit 11 (hash key')"
proof -
  have exact: "unit_from rnd hash key = real (unat (drop_bit 11 (hash key))) / 2 ^ 53" for key
  proof -
    let ?n = "unat (drop_bit 11 (hash key))"
    have "?n \<le> 2 ^ 53" using top_bits [of "hash key"] by simp
    then have "rnd (real ?n) = real ?n" "rnd (real ?n / 2 ^ 53) = real ?n / 2 ^ 53"
      using assms unfolding rounds_def by blast+
    moreover have "rnd (real (2 ^ 53)) = real (2 ^ 53)" using assms unfolding rounds_def by blast
    ultimately show ?thesis by (simp add: unit_from_def)
  qed
  then show "unit_from rnd hash key = real (unat (drop_bit 11 (hash key))) / 2 ^ 53" .
  show "0 \<le> unit_from rnd hash key"
    unfolding exact by (rule divide_nonneg_nonneg, rule of_nat_0_le_iff) simp
  have "real (unat (drop_bit 11 (hash key))) < 2 ^ 53"
    using top_bits [of "hash key"] by (metis of_nat_less_iff of_nat_numeral of_nat_power)
  then show "unit_from rnd hash key < 1" by (simp add: exact)
  show "unit_from rnd hash key = unit_from rnd hash key' \<longleftrightarrow> drop_bit 11 (hash key) = drop_bit 11 (hash key')"
    unfolding exact word_unat_eq_iff by (simp only: divide_cancel_right of_nat_eq_iff) simp
qed

text \<open>So a delay is scaled by a factor between \<open>1 - spread\<close> and \<open>1 + spread\<close>, up to the rounding of these, whatever the hash.\<close>

theorem jittered_within_spread:
  assumes "rounds rnd" "0 \<le> spread" "rnd spread = spread" "mono (mul_f64 delay)"
  shows "mul_f64 delay (rnd (rnd (1 - spread))) \<le> jittered rnd mul_f64 hash delay spread key \<and>
    jittered rnd mul_f64 hash delay spread key \<le> mul_f64 delay (rnd (rnd (1 - spread) + 2 * spread))"
proof -
  have rnd: "mono rnd" "rnd 0 = 0" "rnd (2 * spread) = 2 * spread"
    using assms(1,3) unfolding rounds_def by (auto dest: spec [of _ 0]) (metis assms(3))
  let ?u = "unit_from rnd hash key"
  have "0 \<le> 2 * spread * ?u" "2 * spread * ?u \<le> 2 * spread"
    using unit_from_exact(2,3) [OF assms(1), of hash key] assms(2) by (simp_all add: mult_left_le)
  then have "0 \<le> rnd (2 * spread * ?u)" "rnd (2 * spread * ?u) \<le> 2 * spread"
    using monoD [OF rnd(1)] rnd(2,3) by metis+
  then have "rnd (rnd (1 - spread)) \<le> jitter_factor rnd spread ?u" "jitter_factor rnd spread ?u \<le> rnd (rnd (1 - spread) + 2 * spread)"
    using rnd(1) unfolding jitter_factor_def rnd(3) by (auto intro: monoD)
  then show ?thesis
    using monoD [OF assms(4)] by (simp add: jittered_def)
qed

lemma rounds_exact: "rounds id"
  by (simp add: rounds_def mono_def)

end
