(* ===== verification/Spec2Isabelle.thy ===== *)
theory Spec2Isabelle
  imports Ledger Cluster_Props Tx_Repo Cluster_Round Bootstrap System Events Api Samples Watchers Bus Websocket Config Shutdown Startup Routes Disk Clients Wiring Flush Running Probe Metrics Jitter
begin

text \<open>
  A verification of the mempool observer: a service that follows a Bitcoin node's mempool, records
  in Postgres which transactions entered and left it and why, groups the resident transactions into
  the node's clusters, and streams both to web clients. The sources are the Rust crates
  \<open>shared\<close>, \<open>observer\<close> and \<open>api\<close> under \<open>src/\<close>.

  \<^bold>\<open>The program and its parts.\<close> The observer's watchers poll the node and listen to its block
  announcements. The mempool watcher reports the node's txids to the in-memory \<^emph>\<open>ledger\<close>, which keeps the
  live set and a bounded journal of transitions. Once a second the \<^emph>\<open>reconciler\<close> takes a batch of the
  journal, writes it as rows of \<open>mempool_deltas\<close>, removes it from the journal, publishes the net change,
  asks the \<^emph>\<open>cluster service\<close> to re-ask the node about the clusters involved and queues incomplete
  transactions for the \<^emph>\<open>backfill\<close>. The \<^emph>\<open>block service\<close> applies each new block in one database
  transaction and has the cluster service close what was mined; a \<^emph>\<open>gate\<close> keeps blocks and journal
  flushes apart. \<^emph>\<open>Bootstrap\<close> brings all of this in step at start-up, once the node is found ready.
  Samplers keep time series of counts and gauges, a lifecycle log records what happened to the
  process and the node. An in-process \<^emph>\<open>bus\<close> carries events between the parts; an HTTP API serves lookups
  and series, and a websocket forwards the streams, all behind a readiness check.

  \<^bold>\<open>Theories, in the order of their dependence, and the code they model.\<close>
  \<^item> \<open>Prelude\<close>: names of the basic types, integer casts, hash iteration orders, shared list and map facts.
  \<^item> \<open>Machine\<close>, \<open>Residency\<close>, \<open>Views\<close>, \<open>Backoff\<close>: the contracts several components share, as locales
    (step relations with an invariant; logs that move keys in and out of a set; streams that rebuild
    a keyed view; doubling delays with a ceiling). \<open>call_contract\<close> (in \<open>Database\<close>: what a call keeps to when its statements do),
    \<open>change_log\<close> (in \<open>Cluster_Sync\<close>), \<open>keeps\<close> (in \<open>Cluster_Frame\<close>), \<open>block_inv\<close> (in \<open>Blocks\<close>: what catching up needs of an
    invariant) and \<open>change_watcher\<close> (in \<open>Watchers\<close>) are the others. Each is interpreted on the
    model's own definitions, in the theory that provides them.
  \<^item> \<open>Models\<close>: \<open>shared/src/models.rs\<close>, \<open>shared/src/events.rs\<close>, \<open>observer/src/error.rs\<close>.
  \<^item> \<open>Ledger\<close>: \<open>shared/src/snapshot/mempool.rs\<close>. \<open>Snapshot\<close>: \<open>shared/src/snapshot/cluster.rs\<close> and
    \<open>api/src/services/cluster_delta.rs\<close>.
  \<^item> \<open>Database\<close>, \<open>Tx_Repo\<close>, \<open>Cluster_Repo\<close>: the tables of \<open>api/src/db/models.rs\<close> and the repositories
    of \<open>api/src/db/repositories\<close>; \<open>Cluster_Inv\<close> and \<open>Cluster_Props\<close> prove what the cluster writers do.
  \<^item> \<open>Cluster_Service\<close>: \<open>api/src/services/cluster.rs\<close>. \<open>Cluster_Sync\<close> (what a round records),
    \<open>Cluster_Queue\<close> (its work queue), \<open>Cluster_Round\<close> (whole rounds) and \<open>Cluster_Frame\<close> (what a round
    leaves alone) hold its proofs.
  \<^item> \<open>Gate\<close>: \<open>api/src/infra/block_gate.rs\<close>. \<open>Backfill\<close>: \<open>api/src/services/tx_backfill.rs\<close>. \<open>Reconciler\<close>:
    \<open>api/src/services/mempool_reconciler.rs\<close> and \<open>mempool.rs\<close>; \<open>Flush\<close> takes its tick apart into the calls between which
    observers, blocks and other writers act. \<open>Blocks\<close>: \<open>api/src/services/block.rs\<close>.
    \<open>Bootstrap\<close>: \<open>api/src/services/bootstrap.rs\<close>.
  \<^item> \<open>Events\<close>: the lifecycle log, node health and status, readiness and the wait for the node.
    \<open>Watchers\<close>: the watchers and retrievers of the observer. \<open>Api\<close>: the transaction lookup.
    \<open>Samples\<close>: counter and gauge series.
  \<^item> \<open>Bus\<close>: \<open>shared/src/pubsub.rs\<close> and \<open>api/src/services/pubsub.rs\<close>. \<open>Websocket\<close>:
    \<open>api/src/controllers/websocket\<close>, \<open>shared/src/ws.rs\<close> and \<open>api/src/services/home.rs\<close>. \<open>Routes\<close>: the router and the
    other controllers.
  \<^item> \<open>Config\<close>: \<open>shared/src/env.rs\<close> and the settings of both crates. \<open>Startup\<close>: the task of \<open>api/src/main.rs\<close> from the
    first poll to serving. \<open>Shutdown\<close>: \<open>api/src/infra/lifecycle.rs\<close> and the shutdown of \<open>main.rs\<close>. \<open>Disk\<close>:
    \<open>api/src/infra/disk.rs\<close>. \<open>Probe\<close>: \<open>api/src/infra/process.rs\<close>. \<open>Metrics\<close>: \<open>shared/src/metrics.rs\<close>, \<open>api/src/infra/metrics.rs\<close> and
    \<open>api/src/db/instrument.rs\<close>. \<open>Jitter\<close>: \<open>shared/src/backoff.rs\<close>.
  \<^item> \<open>Clients\<close>: \<open>observer/src/clients\<close>. \<open>Wiring\<close>: \<open>api/src/infra/deps.rs\<close>, \<open>state.rs\<close> and which task of the process holds what.
  \<^item> \<open>System\<close>: the running service as one transition system. \<open>Running\<close>: that system from the bootstrap on. This theory holds
    the property that spans it.

  \<^bold>\<open>How code is rendered.\<close> A struct is a record, an enum a datatype with its constructors, a method a
  function that takes and returns the state it locks or the tables it writes. A \<open>Result\<close> is a sum with
  the error on the left. Casts between integer widths are truncations (\<open>Prelude\<close>); counters whose
  overflow matters are machine words. A hash container is a set or map together with an arbitrary
  iteration order, constrained only to list each element once (\<open>iterates\<close>). Instants are
  nanoseconds. A database call is a function on the tables; \<open>query\<close> may fail it before it takes
  effect, and a call is atomic exactly where the code opens a transaction or sends one statement.
  What the outside answers (the node, the clock, the pool's failures) is an argument: a record of
  functions indexed by a step counter that every call advances, so successive calls may get
  unrelated answers. Code of other crates (parsers of the RPC library, weight rounding, the hash that
  jitters delays) is an argument too, with its documented behaviour as a named hypothesis where a
  property needs it.

  \<^bold>\<open>Loops.\<close> Loops over data are structural recursion; the expansion of variables and the walk of a
  directory are \<open>function\<close>s with a measure. The cluster work queue is a \<open>while_option\<close>, the block
  catch-up, its retry loop and the wait for the node are \<open>partial_function (option)\<close>: the value \<open>None\<close> is not
  returning, and \<open>rounds_return_disjoint\<close>, \<open>catch_up_reaches_tip\<close>, \<open>sync_missing_blocks_returns\<close>,
  \<open>wait_until_ready_returns\<close> and \<open>startup_ready_exactly\<close> prove that they return, and when. What runs
  beside something else (observers and the flush, the gate's callers, the backfill's workers, a bus
  and its readers, a websocket and its tasks, the calls on the connection pool, the server's shutdown) is an inductive
  step relation. No definition uses fuel. The waits of the shutdown are timed: when the awaited tasks let go is an
  argument.
  \<open>None\<close> also stands for a panic: of \<open>VecDeque::drain\<close> in \<open>commit\<close>, which the invariants exclude, and of the channel that is given
  a capacity it refuses (\<open>queue_new\<close>); the panics of \<open>run\<close> are the values of \<open>run_panic\<close>.

  \<^bold>\<open>What is proved.\<close> For the ledger: the flush protocol never loses or repeats a transition, the net
  change of a batch is exact, and an overflow of the journal is noticed but stays. For the tables:
  every writer keeps the cluster invariant and refines an update of the map of active clusters, of which a failed bulk
  insert may have made a first part; the
  two lookups of active ids agree; a batch is written whole or not at all. For the cluster service:
  rounds return, keep clusters disjoint, leave a seeded snapshot level with the tables and any snapshot without clusters that
  are not stored, and put candidates
  where the node says they belong. For blocks: a block is applied whole or not at all, and catching up
  ends with consecutive heights at the tip. For the gate: at most one block at a time, and a flush
  beside it only past the ceiling. For the backfill: a failed stage is retried alone, a row ends
  complete when the node answers and the updates are stored, a failed update is not retried, the queue drains. For the streams: while
  the journal has not overflowed the published deltas follow the recorded residency; a client's copy is exact except on transactions
  that were pending when its first frame was taken; and a subscriber to the clusters that does not lag holds the active ones. For start-up, the series, the lookup, the lifecycle log and the
  retrievers: their results are the ones the code's comments promise, on every branch. For the bus: no
  event is lost silently. For the websocket: bounded queue, order, one task per subject. For the
  routes: nothing is served before bootstrap has ended, and database errors stay inside. For the
  configuration: what a \<open>.env\<close> file sets, and which environments are accepted. For shutdown: no block
  is applied once it has drained, and the drains are over within 295 seconds of the insert that precedes them; the end of the process
  also waits for that insert and for the open connections, which the code does not bound. For the samplers: the walk of the disk is the
  sum over the tree, the process probe reads the right fields whatever the process is called, and no alerted
  counter starts without a series. For the connection pool: no socket is shared, and there are no more than the peak of
  concurrent calls. For the wiring: which settings let the process serve, and that all tasks act on the same ledger, gate, lock, snapshots, queue and bus, which is what
  lets the other theories take these as one state. \<open>System\<close>
  composes the invariants over arbitrary interleavings, and \<open>Running\<close> starts them from the
  bootstrap: any start, whatever fails in it, gives consistent tables, consecutive blocks, a journal within its cap and a cluster snapshot that
  is true; the ledger is in step with the recorded residency under conditions on the start-up that \<open>service_consistent_from_start\<close>
  spells out (blocks synced without a trace in the journal, a replay of the deltas that reaches every resident, a node that lists its
  mempool). From there one poll of the observer followed by one undisturbed tick brings the tables to the node's mempool, and the
  subscribed clients too but for what was pending at their first frame.

  \<^bold>\<open>Where the code and its comments part.\<close> Theorems state these too: \<open>overflow_persists\<close> (a loss to the
  journal's cap is never repaired in a running process), \<open>bootstrap_keeps_stale_journal\<close> (blocks
  applied before the ledger is seeded leave a journal that seeding keeps), \<open>subscriber_keeps_removed\<close>
  (a client may keep a transaction that is gone), \<open>counter_read_over_cap\<close>, \<open>quotes_stripped_beyond_pair\<close>
  and \<open>accepted_but_unusable\<close> (the configuration).

  \<^bold>\<open>Not modelled.\<close> Cancellation points inside a call: a step of a component is one call of its handler, and
  interleavings are explicit sequences of steps. What belongs to other crates (matching and extraction of requests, JSON,
  sockets, HTTP, JSON-RPC, ZMQ and Postgres, the runtime's channels and timers, the metrics recorder and
  its exporter), whose results are arguments; log output; the
  test kit and the web client. Floating-point numbers are opaque, or reals with a rounding function (\<open>Jitter\<close>).
  Gauges hold the integer that the code converts to a float. Postgres stores microseconds where the model keeps nanoseconds. The
  version of a cluster is unbounded where its column has 32 bits. A publication of cluster changes is one step, where the code takes
  the snapshot's lock per cluster and publishes afterwards. The delta streams of \<open>Reconciler\<close> and \<open>Snapshot\<close> are those of a
  subscriber that keeps up; what one that lags by more than the channel's capacity misses is counted in \<open>Bus\<close>. The gate's lock is
  taken at once by a waiting block when it is free. Settings are ASCII text.
\<close>

section \<open>Properties of the whole\<close>

text \<open>C1: The service is consistent from its start on. A process starts with an empty ledger and an empty cluster snapshot, on
  tables whose clusters are consistent and whose stored blocks are consecutive (which is what it leaves). Whatever fails in its
  start-up, once this has come to its end, and then through any sequence of reconciler ticks, block catch-ups, cluster rounds, backfills and
  observer reports, whatever the node answers (a hash being one of a block of the height asked for, tips being bounded, a cluster
  being one of the transaction asked about) and whichever database calls fail in them: the stored
  blocks are consecutive, the active clusters are disjoint and their tables consistent, and the journal is within
  its cap. The cluster snapshot shows active clusters only, as stored, and all of them if the read that
  seeds it (the last call of the start-up) succeeded, a failed bulk insert of more than 10000 singletons excepted. The ledger
  is in step with the recorded residency under a condition on the start-up: if its block sync left the journal empty, its replay
  of the recorded deltas succeeded, with every resident's last transition inside the replayed window, and the node
  listed its mempool, then the live set starts as the node's mempool, and as long as the journal has not overflowed it
  holds exactly the transitions from the recorded residency to the live set. (Without the condition it need not:
  \<open>bootstrap_keeps_stale_journal\<close>.)\<close>

theorem service_consistent_from_start:
  assumes "node_ok env" "iterates (ev_it_txids env)" "iterates (ev_it_ids env)" "honest_node nd height_of" "tips_below nd T"
    and "cluster_inv (w_db (ap_world ap))" "view_ok (active_view (w_db (ap_world ap)))" "chain_ok height_of (w_db (ap_world ap))"
    and "w_ledger (ap_world ap) = ledger_default" "w_snapshot (ap_world ap) = Map.empty"
    and "bootstrap_run env nd raw_mempool ap = Some (r, ap1)" "(system_step env nd)\<^sup>*\<^sup>* ap1 ap'"
  shows "chain_ok height_of (w_db (ap_world ap')) \<and> cluster_inv (w_db (ap_world ap')) \<and> view_ok (active_view (w_db (ap_world ap'))) \<and>
    length (lg_journal (w_ledger (ap_world ap'))) \<le> JOURNAL_CAP \<and>
    (\<exists>new. w_log (ap_world ap') = w_log (ap_world ap) @ new \<and> (small_failures new \<longrightarrow>
       w_snapshot (ap_world ap') \<subseteq>\<^sub>m active_view (w_db (ap_world ap')) \<and>
       (ev_fault env (w_steps (ap_world ap1) - 1) = None \<longrightarrow> w_snapshot (ap_world ap') = active_view (w_db (ap_world ap'))))) \<and>
    (\<exists>delays m w1. sync_missing_blocks env nd 0 (ap_world ap) = Some (delays, m, w1) \<and>
       (\<forall>summaries. lg_journal (w_ledger w1) = [] \<and> \<not> lg_degraded (w_ledger w1) \<and> ev_fault env (w_steps w1) = None \<and>
          replayable (ev_now env (w_steps w1)) (w_db w1) \<and> raw_mempool (Suc (w_steps w1)) = Inr summaries \<longrightarrow>
          lg_live (w_ledger (ap_world ap1)) = es_txid ` set summaries \<and>
          (\<not> lg_degraded (w_ledger (ap_world ap')) \<longrightarrow>
             replay (lg_journal (w_ledger (ap_world ap'))) (residency (w_db (ap_world ap'))) = lg_live (w_ledger (ap_world ap')))))"
proof -
  let ?seeded = "ev_fault env (w_steps (ap_world ap1) - 1) = None" and ?old = "w_log (ap_world ap)"
  have out: "outside_ok env nd height_of T"
    using assms(1-5) by (simp add: outside_ok_def)
  have start: "levelled False ?old (ap_world ap)" "capped (w_ledger (ap_world ap))"
    using assms(6,7,9,10) by (simp_all add: levelled_def capped_def ledger_default_def)
  have booted: "running_inv env nd height_of T ?seeded ?old ap1"
    by (rule bootstrap_running [OF assms(1-5) start assms(8,11)])
  have "running_inv env nd height_of T ?seeded ?old ap'"
    by (rule running.reached_inv [OF booted assms(12)])
  then have kept: "chain_ok height_of (w_db (ap_world ap'))" "levelled ?seeded ?old (ap_world ap')" "capped (w_ledger (ap_world ap'))"
    by (simp_all add: running_inv_def level_ok_def)
  obtain delays m w1 where sync: "sync_missing_blocks env nd 0 (ap_world ap) = Some (delays, m, w1)"
    using assms(11) by (auto simp: bootstrap_run_def Option.bind_eq_Some_conv)
  have "sync_inv (tables_ok env) height_of (ap_world ap)"
    using assms(1,2,6-8) by (simp add: sync_inv_def tables_ok_def)
  then have tables: "cluster_inv (w_db w1)" "view_ok (active_view (w_db w1))"
    using table_blocks.synced_keeps [OF sync assms(4,5)] by (simp_all add: sync_inv_def tables_ok_def)
  have "lg_live (w_ledger (ap_world ap1)) = es_txid ` set summaries \<and> (\<not> lg_degraded (w_ledger (ap_world ap')) \<longrightarrow>
      replay (lg_journal (w_ledger (ap_world ap'))) (residency (w_db (ap_world ap'))) = lg_live (w_ledger (ap_world ap')))"
    if "lg_journal (w_ledger w1) = []" "\<not> lg_degraded (w_ledger w1)" "ev_fault env (w_steps w1) = None"
      "replayable (ev_now env (w_steps w1)) (w_db w1)" "raw_mempool (Suc (w_steps w1)) = Inr summaries" for summaries
  proof -
    note in_step = bootstrap_in_step [OF out booted tables sync that assms(11)]
    have "world_ok (ap_world ap')"
      using system.reached_inv [OF in_step(1) assms(12)] by (simp add: system_inv_def sync_ok_def)
    with in_step(2) show ?thesis
      by (simp add: world_ok_def in_step_def)
  qed
  then show ?thesis
    using kept sync by (auto simp: levelled_def capped_def)
qed

definition settled_chain :: block_node where
  "settled_chain = calm_chain\<lparr>nd_tip := (\<lambda>_. Inr 7)\<rparr>"

text \<open>A restart: block 7 is stored, ''b'' was recorded as resident and is gone, ''a'' is new.\<close>

definition settled_app :: app where
  "settled_app = \<lparr>ap_world = sample_world\<lparr>w_db := sample_db\<lparr>
       db_blocks := [new_block_from 3 (sample_block\<lparr>bk_hash := ''xxxxxxx'', bk_height := 7\<rparr>)],
       db_deltas := [\<lparr>dl_txid = ''b'', dl_reason = AddMempool, dl_created_at = 2\<rparr>]\<rparr>\<rparr>,
     ap_queue = empty_queue 5, ap_gate = gate_default\<rparr>"

lemma settled_chain_ok: "honest_node settled_chain (\<lambda>x. int (length x))" "tips_below settled_chain 7"
  by (auto simp: honest_node_def settled_chain_def calm_chain_def sample_block_def u64_of_id is_u64_def tips_below_def)

lemma settled_app_ok:
  shows "cluster_inv (w_db (ap_world settled_app))" "view_ok (active_view (w_db (ap_world settled_app)))"
    and "chain_ok (\<lambda>x. int (length x)) (w_db (ap_world settled_app))"
    and "replayable now (w_db (ap_world settled_app)) \<longleftrightarrow> now - SNAPSHOT_REPLAY_WINDOW \<le> 2"
    and "residency (w_db (ap_world settled_app)) = {''b''}"
proof -
  have "cluster_outside sample_db (w_db (ap_world settled_app))"
    by (simp add: settled_app_def cluster_outside_def)
  from cluster_outside_inv [OF this sample_db_inv]
  show "cluster_inv (w_db (ap_world settled_app))" "view_ok (active_view (w_db (ap_world settled_app)))"
    using sample_world_ok by (simp_all add: sample_world_def)
  show "chain_ok (\<lambda>x. int (length x)) (w_db (ap_world settled_app))"
    by (simp add: settled_app_def chain_ok_def heights_def new_block_from_def)
  show res: "residency (w_db (ap_world settled_app)) = {''b''}"
    by (simp add: settled_app_def residency_def apply_delta_row_def reason_direction_def)
  show "replayable now (w_db (ap_world settled_app)) \<longleftrightarrow> now - SNAPSHOT_REPLAY_WINDOW \<le> 2"
    by (simp add: replayable_def res) (simp add: settled_app_def)
qed

theorem service_consistent_from_start_witness:
  "\<exists>rec ap1. bootstrap_run sample_env settled_chain (\<lambda>_. Inr [sample_summary]) settled_app = Some (Some rec, ap1) \<and>
     mr_txs_added rec = 1 \<and> mr_txs_removed rec = 1 \<and> lg_live (w_ledger (ap_world ap1)) = {''a''} \<and>
     chain_ok (\<lambda>x. int (length x)) (w_db (ap_world ap1)) \<and> length (lg_journal (w_ledger (ap_world ap1))) \<le> JOURNAL_CAP"
proof -
  let ?w = "ap_world settled_app" and ?raw = "\<lambda>_. Inr [sample_summary]"
  let ?w1 = "step (step (step ?w))"
  have "latest_height None (w_db ?w) = Inr (Some 7)"
    by (simp add: settled_app_def latest_height_def query_def new_block_from_def)
  then obtain m where sync: "sync_missing_blocks sample_env settled_chain 0 ?w = Some ([], m, ?w1)"
    using sync_nothing_missed [of settled_chain ?w 7 7 sample_env] by (auto simp: settled_chain_def sample_env_def)
  have w1: "lg_journal (w_ledger ?w1) = []" "\<not> lg_degraded (w_ledger ?w1)" "w_steps ?w1 = 3" "w_db ?w1 = w_db ?w"
    by (simp_all add: settled_app_def sample_world_def) (simp add: step_def)
  obtain r ap2 where cmp: "setup_mempool_snapshot sample_env ?raw (settled_app\<lparr>ap_world := ?w1\<rparr>) = (r, ap2)"
    by (rule prod.exhaust)
  have window: "replayable (ev_now sample_env (w_steps ?w1)) (w_db ?w1)"
    unfolding w1(3,4) settled_app_ok(4) by (simp add: sample_env_def SNAPSHOT_REPLAY_WINDOW_def)
  have r: "r = Some \<lparr>mr_txs_added = 1, mr_txs_removed = 1\<rparr>"
    using setup_exact [OF sample_env_ok(3) _ _ _ _ _ _ cmp, of "[sample_summary]"] settled_app_ok w1 replayable_reconstructs [OF window]
    by (simp add: sample_env_def sample_summary_def)
  let ?ap1 = "ap2\<lparr>ap_world := seed_snapshot sample_env (ap_world ap2)\<rparr>"
  have boot: "bootstrap_run sample_env settled_chain ?raw settled_app = Some (Some \<lparr>mr_txs_added = 1, mr_txs_removed = 1\<rparr>, ?ap1)"
    using sync cmp r by (simp add: bootstrap_run_def)
  have empty: "w_ledger ?w = ledger_default" "w_snapshot ?w = Map.empty"
    by (simp_all add: settled_app_def sample_world_def ledger_default_def)
  note started = service_consistent_from_start [OF sample_env_ok(1,3,4) settled_chain_ok settled_app_ok(1-3) empty boot rtranclp.rtrancl_refl]
  have "lg_live (w_ledger (ap_world ?ap1)) = es_txid ` set [sample_summary]"
    using started sync w1(1,2) window by (auto simp: sample_env_def)
  with started show ?thesis
    using boot by (simp add: sample_summary_def)
qed

end
